(* ===== verification/Prelude.thy ===== *)
theory Prelude
  imports Main "HOL-Library.Word" "HOL-Library.State_Monad"
begin

text \<open>
  What every component shares: the machine types of the build (a 64-bit Windows target, so
  \<open>size_t\<close> and \<open>uint64_t\<close> are both 64-bit words), the collections of simplification rules,
  word arithmetic away from the wrap-around, the window of a circular buffer and its two
  updates, and the generic facts on systems that run one action at a time.
\<close>

section \<open>Machine types\<close>

type_synonym u64 = "64 word"
type_synonym u32 = "32 word"
type_synonym size_t = "64 word"
type_synonym addr = nat

abbreviation UINT64_MAX :: u64 where
  "UINT64_MAX \<equiv> - 1"

abbreviation SIZE_MAX :: size_t where
  "SIZE_MAX \<equiv> - 1"

abbreviation INT_MAX :: int where
  "INT_MAX \<equiv> 2147483647"

section \<open>Collections of rules\<close>

named_theorems sync_simps \<open>the synchronization primitives on live handles\<close>
named_theorems inv_defs \<open>the component invariants\<close>
named_theorems op_defs \<open>the operations of the components\<close>

section \<open>Words away from the wrap-around\<close>

lemma unat_add_one [simp]: "x \<noteq> - 1 \<Longrightarrow> unat (x + 1) = Suc (unat x)" for x :: "'a :: len word"
proof -
  assume "x \<noteq> - 1"
  then have "x + 1 \<noteq> 0" by (metis add_eq_0_iff2)
  then show ?thesis by (simp add: unatSuc add.commute)
qed

lemma unat_sub_one [simp]: "x \<noteq> 0 \<Longrightarrow> unat (x - 1) = unat x - 1" for x :: "'a :: len word"
  by (simp add: unat_minus_one)

lemma less_not_max: "x < y \<Longrightarrow> x \<noteq> - 1" for x y :: "'a :: len word"
  using word_order.extremum_strict by blast

lemma unat_pos_iff: "0 < unat x \<longleftrightarrow> x \<noteq> 0" for x :: "'a :: len word"
  by (simp add: unat_gt_0)

lemma word_pos_iff: "0 < x \<longleftrightarrow> x \<noteq> 0" for x :: "'a :: len word"
  by (simp add: word_gt_0)

lemma unat_eq_iff: "unat x = unat y \<longleftrightarrow> x = y" for x y :: "'a :: len word"
  by (simp add: word_unat_eq_iff)

lemma unat_of_nat64: "n < 2 ^ 64 \<Longrightarrow> unat (of_nat n :: 64 word) = n"
  by (simp add: unat_of_nat take_bit_nat_eq_self)

lemma of_nat64_eq_0: "n < 2 ^ 64 \<Longrightarrow> (of_nat n :: 64 word) = 0 \<longleftrightarrow> n = 0"
  using unat_of_nat64 [of n] by auto

lemma not_two_le_one [simp]: "\<not> (2 :: 64 word) \<le> 1" "(1 :: 64 word) < 2"
  by (simp_all add: word_le_nat_alt word_less_nat_alt)

section \<open>The window of a circular buffer\<close>

text \<open>
  \<open>ring xs h n\<close> reads \<open>n\<close> slots of the array \<open>xs\<close> from index \<open>h\<close> on, wrapping at its end.
\<close>

definition ring :: "'a list \<Rightarrow> nat \<Rightarrow> nat \<Rightarrow> 'a list" where
  "ring xs h n = map (\<lambda>k. xs ! ((h + k) mod length xs)) [0..<n]"

lemma length_ring [simp]: "length (ring xs h n) = n"
  by (simp add: ring_def)

lemma ring_0 [simp]: "ring xs h 0 = []"
  by (simp add: ring_def)

lemma nth_ring [simp]: "k < n \<Longrightarrow> ring xs h n ! k = xs ! ((h + k) mod length xs)"
  by (simp add: ring_def)

lemma mod_eq_offset:
  assumes "(h + k) mod c = (h + l) mod c" "k < c" "l < c"
  shows "k = (l::nat)"
proof -
  have "int c dvd int k - int l"
    using assms(1) by (metis add_diff_cancel_left' mod_eq_dvd_iff of_nat_add of_nat_mod add_diff_cancel_left)
  moreover have "\<bar>int k - int l\<bar> < int c" using assms(2,3) by linarith
  ultimately have "int k - int l = 0"
    using zdvd_imp_le by (metis abs_dvd_iff abs_of_nonneg dvd_abs_iff linorder_not_less zdvd_not_zless zero_less_abs_iff)
  then show ?thesis by simp
qed

lemma ring_snoc:
  assumes "n < length xs"
  shows "ring (xs[(h + n) mod length xs := x]) h (Suc n) = ring xs h n @ [x]"
proof (rule nth_equalityI)
  fix k assume "k < length (ring (xs[(h + n) mod length xs := x]) h (Suc n))"
  then have k: "k < Suc n" by simp
  have ne: "(h + n) mod length xs \<noteq> (h + k) mod length xs" if "k < n"
    using mod_eq_offset [of h n "length xs" k] that assms by auto
  from k show "ring (xs[(h + n) mod length xs := x]) h (Suc n) ! k = (ring xs h n @ [x]) ! k"
  proof (cases "k = n")
    case True
    have "(h + n) mod length xs < length xs" using assms by (intro mod_less_divisor) auto
    with True show ?thesis by (simp add: nth_append)
  next
    case False
    with k ne show ?thesis by (simp add: nth_append)
  qed
qed simp

lemma ring_tl:
  assumes "0 < n" "n \<le> length xs"
  shows "ring (xs[h mod length xs := y]) (Suc h mod length xs) (n - 1) = tl (ring xs h n)"
proof (rule nth_equalityI)
  fix k assume "k < length (ring (xs[h mod length xs := y]) (Suc h mod length xs) (n - 1))"
  then have k: "Suc k < n" by simp
  have ne: "h mod length xs \<noteq> (h + Suc k) mod length xs"
    using mod_eq_offset [of h 0 "length xs" "Suc k"] k assms by fastforce
  have eq: "(Suc h mod length xs + k) mod length xs = (h + Suc k) mod length xs"
    by (simp add: mod_add_left_eq)
  show "ring (xs[h mod length xs := y]) (Suc h mod length xs) (n - 1) ! k = tl (ring xs h n) ! k"
    using k ne eq by (simp add: nth_tl)
qed (use assms in simp)

lemma hd_ring: "0 < n \<Longrightarrow> hd (ring xs h n) = xs ! (h mod length xs)"
  by (subst hd_conv_nth) (auto simp flip: length_greater_0_conv)

lemma set_tl_subset: "set (tl xs) \<subseteq> set xs"
  by (cases xs) auto

lemma unat_mono_le: "x \<le> y \<Longrightarrow> unat x \<le> unat y" for x y :: "'a :: len word"
  by (simp add: word_le_nat_alt)

lemma unat_mono_less: "x < y \<Longrightarrow> unat x < unat y" for x y :: "'a :: len word"
  by (simp add: word_less_nat_alt)

lemma ring_complement: "n \<le> c \<Longrightarrow> h < c \<Longrightarrow> ((h + n) mod c + (c - n)) mod c = (h::nat)"
proof -
  assume "n \<le> c" "h < c"
  then have "(h + n + (c - n)) mod c = h" by simp
  then show ?thesis by (simp only: mod_add_left_eq)
qed

lemma ring_advance: "0 < n \<Longrightarrow> (Suc h mod c + (n - Suc 0)) mod c = (h + n) mod (c::nat)"
  by (subst mod_add_left_eq) simp

lemma wrap_Suc: "i < c \<Longrightarrow> (if i = c - 1 then 0 else Suc i) = Suc i mod (c::nat)"
  by auto

section \<open>Systems that run one action at a time\<close>

fun run_actions :: "('a \<Rightarrow> 's \<Rightarrow> 's option) \<Rightarrow> 'a list \<Rightarrow> 's \<Rightarrow> 's option" where
  "run_actions step [] s = Some s"
| "run_actions step (a # as) s = (case step a s of None \<Rightarrow> None | Some s' \<Rightarrow> run_actions step as s')"

text \<open>
  A property that every action keeps holds after every run; what a system with such a
  property gets for free is proved once here.
\<close>

locale invariant_system =
  fixes step :: "'a \<Rightarrow> 's \<Rightarrow> 's option"
    and inv :: "'s \<Rightarrow> bool"
  assumes step_inv: "inv s \<Longrightarrow> step a s = Some s' \<Longrightarrow> inv s'"
begin

lemma run_inv: "inv s \<Longrightarrow> run_actions step as s = Some s' \<Longrightarrow> inv s'"
  by (induction as arbitrary: s) (auto split: option.splits intro: step_inv)

lemma run_preserves:
  assumes "\<And>a s s'. inv s \<Longrightarrow> step a s = Some s' \<Longrightarrow> P s \<Longrightarrow> P s'"
  shows "inv s \<Longrightarrow> P s \<Longrightarrow> run_actions step as s = Some s' \<Longrightarrow> P s'"
proof (induction as arbitrary: s)
  case (Cons a as)
  then obtain t where "step a s = Some t" "run_actions step as t = Some s'"
    by (auto split: option.splits)
  with Cons show ?case by (blast intro: step_inv assms)
qed simp

end

text \<open>
  The steps of a system with an invariant lower the work left, up to the cost of the action; and
  while it is not at rest, one of the prompt actions, which cost nothing, is possible.
\<close>

locale measured_system = invariant_system +
  fixes work :: "'s \<Rightarrow> nat" and cost :: "'a \<Rightarrow> nat"
  assumes step_work: "inv s \<Longrightarrow> step a s = Some s' \<Longrightarrow> work s' < work s + cost a"
begin

lemma run_work:
  "inv s \<Longrightarrow> run_actions step as s = Some s' \<Longrightarrow> length as + work s' \<le> work s + sum_list (map cost as)"
proof (induction as arbitrary: s)
  case (Cons a as)
  then obtain t where t: "step a s = Some t" "run_actions step as t = Some s'"
    by (auto split: option.splits)
  from Cons.IH [OF step_inv [OF Cons.prems(1) t(1)] t(2)] step_work [OF Cons.prems(1) t(1)] show ?case by simp
qed simp

lemma free_run:
  assumes "inv s" "run_actions step as s = Some s'" "\<forall>a \<in> set as. cost a = 0"
  shows "length as + work s' \<le> work s"
proof -
  have "sum_list (map cost as) = 0" using assms(3) by simp
  with run_work [OF assms(1,2)] show ?thesis by simp
qed

end

locale progressive_system = measured_system +
  fixes prompt :: "'a \<Rightarrow> bool" and rest :: "'s \<Rightarrow> bool"
  assumes prompt_free: "prompt a \<Longrightarrow> cost a = 0"
    and goes_on: "inv s \<Longrightarrow> \<not> rest s \<Longrightarrow> \<exists>a s'. prompt a \<and> step a s = Some s'"
begin

lemma comes_to_rest:
  "inv s \<Longrightarrow> \<exists>as s'. (\<forall>a \<in> set as. prompt a) \<and> run_actions step as s = Some s' \<and> rest s' \<and> length as + work s' \<le> work s"
proof (induction "work s" arbitrary: s rule: less_induct)
  case less
  show ?case
  proof (cases "rest s")
    case True
    then show ?thesis by (intro exI [of _ "[]"]) simp
  next
    case False
    then obtain a t where a: "prompt a" "step a s = Some t" using goes_on [OF less.prems] by blast
    then have "work t < work s" using step_work [OF less.prems a(2)] prompt_free by simp
    from less.hyps [OF this step_inv [OF less.prems a(2)]] obtain as s' where
      "\<forall>a \<in> set as. prompt a" "run_actions step as t = Some s'" "rest s'" "length as + work s' \<le> work t" by blast
    with a \<open>work t < work s\<close> show ?thesis by (intro exI [of _ "a # as"] exI [of _ s']) simp
  qed
qed

end

end
