(* ===== verification/Task.thy ===== *)
theory Task
  imports Prelude
begin

text \<open>
  The Task component (\<open>src/task.c\<close>, \<open>include/concurrent_scheduler/task.h\<close>): the task record, its
  state machine and the consumption of work units. A \<open>Task *\<close> argument is an option, with
  \<^term>\<open>None\<close> for the null pointer; an operation that writes through the pointer returns the
  pointee after the call. A C object of enumeration type can hold a value outside the
  enumerators, so each such type has one more constructor for those values.
\<close>

section \<open>Data\<close>

datatype TaskState =
    TASK_STATE_CREATED
  | TASK_STATE_QUEUED
  | TASK_STATE_RUNNING
  | TASK_STATE_COMPLETED
  | TASK_STATE_FAILED
  | TASK_STATE_CANCELLED
  | TASK_STATE_REJECTED
  | TASK_STATE_OUTSIDE int

datatype TaskPriority =
    TASK_PRIORITY_LOW
  | TASK_PRIORITY_NORMAL
  | TASK_PRIORITY_HIGH
  | TASK_PRIORITY_OUTSIDE int

record Task =
  task_id :: u64
  priority :: TaskPriority
  task_state :: TaskState
  total_work :: u64
  remaining_work :: u64

section \<open>Operations\<close>

definition task_transition_is_valid :: "TaskState \<Rightarrow> TaskState \<Rightarrow> bool" where
  "task_transition_is_valid current nxt = (case current of
      TASK_STATE_CREATED \<Rightarrow> nxt = TASK_STATE_QUEUED \<or> nxt = TASK_STATE_CANCELLED
        \<or> nxt = TASK_STATE_REJECTED
    | TASK_STATE_QUEUED \<Rightarrow> nxt = TASK_STATE_RUNNING \<or> nxt = TASK_STATE_CANCELLED
    | TASK_STATE_RUNNING \<Rightarrow> nxt = TASK_STATE_COMPLETED \<or> nxt = TASK_STATE_FAILED
    | _ \<Rightarrow> False)"

definition task_state_is_valid :: "TaskState \<Rightarrow> bool" where
  "task_state_is_valid s = (case s of TASK_STATE_OUTSIDE _ \<Rightarrow> False | _ \<Rightarrow> True)"

definition task_priority_is_valid :: "TaskPriority \<Rightarrow> bool" where
  "task_priority_is_valid p = (case p of TASK_PRIORITY_OUTSIDE _ \<Rightarrow> False | _ \<Rightarrow> True)"

definition task_init :: "Task option \<Rightarrow> u64 \<Rightarrow> TaskPriority \<Rightarrow> u64 \<Rightarrow> bool \<times> Task option" where
  "task_init task ident prio work = (case task of
      None \<Rightarrow> (False, None)
    | Some t \<Rightarrow>
        if \<not> task_priority_is_valid prio \<or> work = 0 then (False, Some t)
        else (True, Some (t\<lparr>task_id := ident, priority := prio, task_state := TASK_STATE_CREATED,
                            total_work := work, remaining_work := work\<rparr>)))"

definition task_is_complete :: "Task option \<Rightarrow> bool" where
  "task_is_complete task = (case task of None \<Rightarrow> False | Some t \<Rightarrow> remaining_work t = 0)"

definition task_transition_state :: "Task option \<Rightarrow> TaskState \<Rightarrow> bool \<times> Task option" where
  "task_transition_state task new_state = (case task of
      None \<Rightarrow> (False, None)
    | Some t \<Rightarrow>
        if \<not> task_state_is_valid new_state
           \<or> \<not> task_transition_is_valid (task_state t) new_state
        then (False, Some t)
        else (True, Some (t\<lparr>task_state := new_state\<rparr>)))"

definition task_consume_work :: "Task option \<Rightarrow> u64 \<Rightarrow> bool \<times> Task option" where
  "task_consume_work task work_units = (case task of
      None \<Rightarrow> (False, None)
    | Some t \<Rightarrow>
        if work_units = 0
           \<or> \<not> task_state_is_valid (task_state t)
           \<or> task_state t \<noteq> TASK_STATE_RUNNING
           \<or> remaining_work t = 0
           \<or> work_units > remaining_work t
        then (False, Some t)
        else if work_units = remaining_work t then
          (case task_transition_state (Some t) TASK_STATE_COMPLETED of
             (False, t') \<Rightarrow> (False, t')
           | (True, t') \<Rightarrow> (True, map_option (\<lambda>u. u\<lparr>remaining_work := 0\<rparr>) t'))
        else (True, Some (t\<lparr>remaining_work := remaining_work t - work_units\<rparr>)))"

definition task_state_name :: "TaskState \<Rightarrow> string" where
  "task_state_name s = (case s of
      TASK_STATE_CREATED \<Rightarrow> ''CREATED''
    | TASK_STATE_QUEUED \<Rightarrow> ''QUEUED''
    | TASK_STATE_RUNNING \<Rightarrow> ''RUNNING''
    | TASK_STATE_COMPLETED \<Rightarrow> ''COMPLETED''
    | TASK_STATE_FAILED \<Rightarrow> ''FAILED''
    | TASK_STATE_CANCELLED \<Rightarrow> ''CANCELLED''
    | TASK_STATE_REJECTED \<Rightarrow> ''REJECTED''
    | TASK_STATE_OUTSIDE _ \<Rightarrow> ''UNKNOWN'')"

definition task_priority_name :: "TaskPriority \<Rightarrow> string" where
  "task_priority_name p = (case p of
      TASK_PRIORITY_LOW \<Rightarrow> ''LOW''
    | TASK_PRIORITY_NORMAL \<Rightarrow> ''NORMAL''
    | TASK_PRIORITY_HIGH \<Rightarrow> ''HIGH''
    | TASK_PRIORITY_OUTSIDE _ \<Rightarrow> ''UNKNOWN'')"

lemmas task_op_defs = task_transition_is_valid_def task_state_is_valid_def
  task_priority_is_valid_def task_init_def task_is_complete_def task_transition_state_def
  task_consume_work_def

section \<open>The well-formed task\<close>

text \<open>
  A task that only the API has touched: it was given work, it never has more left than it was
  given, it has touched no work before it runs, and it has none left only when completed.
\<close>

definition task_wf :: "Task \<Rightarrow> bool" where
  "task_wf t \<longleftrightarrow>
     total_work t \<noteq> 0 \<and> remaining_work t \<le> total_work t
     \<and> task_state_is_valid (task_state t) \<and> task_priority_is_valid (priority t)
     \<and> (remaining_work t = 0 \<longrightarrow> task_state t = TASK_STATE_COMPLETED)
     \<and> (task_state t \<in> {TASK_STATE_CREATED, TASK_STATE_QUEUED, TASK_STATE_CANCELLED,
                          TASK_STATE_REJECTED} \<longrightarrow> remaining_work t = total_work t)"

text \<open>A client's calls on one task, and a sequence of them.\<close>

datatype task_call = Consume u64 | Transition TaskState

fun task_call_step :: "task_call \<Rightarrow> Task \<Rightarrow> bool \<times> Task" where
  "task_call_step (Consume n) t = (let (r, t') = task_consume_work (Some t) n in (r, the t'))"
| "task_call_step (Transition s) t = (let (r, t') = task_transition_state (Some t) s in (r, the t'))"

fun task_calls :: "task_call list \<Rightarrow> Task \<Rightarrow> bool list \<times> Task" where
  "task_calls [] t = ([], t)"
| "task_calls (c # cs) t =
     (let (r, t') = task_call_step c t; (rs, t'') = task_calls cs t' in (r # rs, t''))"

lemma task_transition_cases:
  "task_transition_state (Some t) s =
     (if task_transition_is_valid (task_state t) s then (True, Some (t\<lparr>task_state := s\<rparr>))
      else (False, Some t))"
  by (auto simp: task_op_defs split: TaskState.splits)

lemma task_consume_cases:
  "task_consume_work (Some t) n =
     (if n \<noteq> 0 \<and> task_state t = TASK_STATE_RUNNING \<and> n \<le> remaining_work t
      then (True, Some (if n = remaining_work t
                        then t\<lparr>task_state := TASK_STATE_COMPLETED, remaining_work := 0\<rparr>
                        else t\<lparr>remaining_work := remaining_work t - n\<rparr>))
      else (False, Some t))"
  by (auto simp: task_op_defs task_transition_cases not_less)

lemma running_completes [simp]: "task_transition_is_valid TASK_STATE_RUNNING TASK_STATE_COMPLETED"
  by (simp add: task_transition_is_valid_def)

lemma sub_less_eq_word: "n \<le> r \<Longrightarrow> r \<le> k \<Longrightarrow> r - n \<le> k" for n r k :: u64
  by (rule order_trans [OF word_sub_le])

lemma task_transition_wf:
  "task_wf t \<Longrightarrow> task_transition_is_valid (task_state t) s \<Longrightarrow> task_wf (t\<lparr>task_state := s\<rparr>)"
  by (cases "task_state t")
    (auto simp: task_wf_def task_transition_is_valid_def task_state_is_valid_def)

lemma task_consume_wf:
  assumes "task_wf t" "n \<le> remaining_work t" "task_state t = TASK_STATE_RUNNING"
    "n \<noteq> remaining_work t"
  shows "task_wf (t\<lparr>remaining_work := remaining_work t - n\<rparr>)"
proof -
  have "remaining_work t - n \<le> total_work t"
    using assms by (intro sub_less_eq_word) (auto simp: task_wf_def)
  with assms show ?thesis by (simp add: task_wf_def)
qed

lemma task_call_step_wf: "task_wf t \<Longrightarrow> task_wf (snd (task_call_step c t))"
proof (cases c)
  case (Consume n)
  assume "task_wf t"
  with Consume show ?thesis
    by (auto simp: task_consume_cases intro: task_consume_wf)
      (simp add: task_wf_def task_state_is_valid_def)
next
  case (Transition s)
  assume "task_wf t"
  with Transition show ?thesis by (auto simp: task_transition_cases intro: task_transition_wf)
qed

lemma task_init_wf: "task_init (Some t0) i p w = (True, Some t) \<Longrightarrow> task_wf t"
  by (auto simp: task_init_def task_wf_def task_state_is_valid_def split: if_splits)

lemma task_calls_wf: "task_wf t \<Longrightarrow> task_wf (snd (task_calls cs t))"
proof (induction cs arbitrary: t)
  case (Cons c cs)
  then have "task_wf (snd (task_calls cs (snd (task_call_step c t))))"
    by (blast intro: task_call_step_wf)
  then show ?case by (simp add: case_prod_unfold Let_def)
qed simp

section \<open>How often a task changes state\<close>

text \<open>Every transition strictly climbs this rank, and no terminal state is below the top.\<close>

fun task_rank :: "TaskState \<Rightarrow> nat" where
  "task_rank TASK_STATE_CREATED = 0"
| "task_rank TASK_STATE_QUEUED = 1"
| "task_rank TASK_STATE_RUNNING = 2"
| "task_rank _ = 3"

lemma transition_climbs: "task_transition_is_valid s s' \<Longrightarrow> task_rank s < task_rank s'"
  by (cases s) (auto simp: task_transition_is_valid_def)

fun state_changes :: "task_call list \<Rightarrow> Task \<Rightarrow> nat" where
  "state_changes [] t = 0"
| "state_changes (c # cs) t =
     (let t' = snd (task_call_step c t)
      in (if task_state t' = task_state t then 0 else 1) + state_changes cs t')"

lemma task_call_step_climbs:
  "task_state (snd (task_call_step c t)) = task_state t
   \<or> task_transition_is_valid (task_state t) (task_state (snd (task_call_step c t)))"
  by (cases c) (auto simp: task_consume_cases task_transition_cases)

lemma state_changes_rank:
  "state_changes cs t + task_rank (task_state t) \<le> 3"
proof (induction cs arbitrary: t)
  case Nil
  show ?case by (cases "task_state t") auto
next
  case (Cons c cs)
  from Cons [of "snd (task_call_step c t)"] task_call_step_climbs [of c t] show ?case
    by (auto simp: Let_def dest: transition_climbs)
qed

lemma task_calls_frame:
  "total_work (snd (task_calls cs t)) = total_work t \<and> task_id (snd (task_calls cs t)) = task_id t
   \<and> priority (snd (task_calls cs t)) = priority t"
proof (induction cs arbitrary: t)
  case (Cons c cs)
  have "total_work (snd (task_call_step c t)) = total_work t
    \<and> task_id (snd (task_call_step c t)) = task_id t
    \<and> priority (snd (task_call_step c t)) = priority t"
    by (cases c) (auto simp: task_consume_cases task_transition_cases)
  with Cons show ?case by (simp add: case_prod_unfold Let_def)
qed simp

lemma task_calls_Cons:
  "task_calls (c # cs) t =
     (fst (task_call_step c t) # fst (task_calls cs (snd (task_call_step c t))),
      snd (task_calls cs (snd (task_call_step c t))))"
  by (simp add: case_prod_unfold Let_def)

lemma not_running_rejects:
  "task_state t \<noteq> TASK_STATE_RUNNING \<Longrightarrow>
     task_calls (map Consume ns) t = (replicate (length ns) False, t)"
  by (induction ns) (auto simp: task_consume_cases)

lemma unat_sub_le: "n \<le> r \<Longrightarrow> unat (r - n) = unat r - unat n" for n r :: u64
  by (simp add: unat_sub)

lemma consume_split:
  assumes "task_state t = TASK_STATE_RUNNING" "0 \<notin> set ns"
    "(\<Sum>n\<leftarrow>ns. unat n) \<le> unat (remaining_work t)"
  shows "fst (task_calls (map Consume ns) t) = replicate (length ns) True
    \<and> unat (remaining_work (snd (task_calls (map Consume ns) t)))
        = unat (remaining_work t) - (\<Sum>n\<leftarrow>ns. unat n)
    \<and> task_state (snd (task_calls (map Consume ns) t))
        = (if ns \<noteq> [] \<and> (\<Sum>n\<leftarrow>ns. unat n) = unat (remaining_work t)
           then TASK_STATE_COMPLETED else TASK_STATE_RUNNING)"
  using assms
proof (induction ns arbitrary: t)
  case (Cons n ns)
  have n: "n \<noteq> 0" "n \<le> remaining_work t" using Cons.prems by (auto simp: word_le_nat_alt)
  show ?case
  proof (cases "n = remaining_work t")
    case True
    with Cons.prems have "(\<Sum>m\<leftarrow>ns. unat m) = 0" by simp
    with Cons.prems have "ns = []" by (cases ns) (auto simp: unat_0_iff)
    with True n Cons.prems show ?thesis by (simp add: task_consume_cases)
  next
    case False
    let ?t = "t\<lparr>remaining_work := remaining_work t - n\<rparr>"
    have step: "task_call_step (Consume n) t = (True, ?t)"
      using False n Cons.prems by (simp add: task_consume_cases)
    have lt: "unat n < unat (remaining_work t)"
      using n False by (simp add: word_le_nat_alt unat_eq_iff order_less_le)
    have "(\<Sum>m\<leftarrow>ns. unat m) \<le> unat (remaining_work ?t)"
      using Cons.prems n by (simp add: unat_sub_le)
    with Cons.IH [of ?t] Cons.prems lt n show ?thesis
      by (auto simp: task_calls_Cons step unat_sub_le simp del: task_calls.simps(2) task_call_step.simps)
  qed
qed auto

section \<open>Properties\<close>

text \<open>
  C32. Whatever sequence of \<open>task_consume_work\<close> and \<open>task_transition_state\<close> calls a client makes
  on a task that \<open>task_init\<close> accepted, the task stays well-formed (work left never exceeds the
  work given, work is untouched until the task runs, and none is left only in COMPLETED), it
  changes state at most three times, and its total work, identity and priority never change.
\<close>

theorem task_lifetime:
  assumes "task_init (Some t0) i p w = (True, Some t)"
  shows "task_wf (snd (task_calls cs t)) \<and> state_changes cs t \<le> 3
    \<and> total_work (snd (task_calls cs t)) = w \<and> task_id (snd (task_calls cs t)) = i
    \<and> priority (snd (task_calls cs t)) = p"
proof -
  have "total_work t = w" "task_id t = i" "priority t = p"
    using assms by (auto simp: task_init_def split: if_splits)
  with task_calls_wf [OF task_init_wf [OF assms]] state_changes_rank [of cs t]
    task_calls_frame [of cs t] show ?thesis by auto
qed

theorem task_lifetime_witness:
  "\<exists>t. task_init (Some \<lparr>task_id = 0, priority = TASK_PRIORITY_LOW, task_state = TASK_STATE_FAILED,
          total_work = 0, remaining_work = 0\<rparr>) 7 TASK_PRIORITY_HIGH 5 = (True, Some t)
     \<and> state_changes [Transition TASK_STATE_QUEUED, Transition TASK_STATE_RUNNING, Consume 5] t = 3
     \<and> total_work (snd (task_calls [Transition TASK_STATE_QUEUED, Transition TASK_STATE_RUNNING,
          Consume 5] t)) = 5"
proof -
  let ?raw = "\<lparr>task_id = 0, priority = TASK_PRIORITY_LOW, task_state = TASK_STATE_FAILED,
     total_work = 0, remaining_work = 0\<rparr>"
  let ?t = "\<lparr>task_id = 7, priority = TASK_PRIORITY_HIGH, task_state = TASK_STATE_CREATED,
     total_work = 5, remaining_work = 5\<rparr>"
  have init: "task_init (Some ?raw) 7 TASK_PRIORITY_HIGH 5 = (True, Some ?t)"
    by (simp add: task_op_defs)
  have changes: "state_changes [Transition TASK_STATE_QUEUED, Transition TASK_STATE_RUNNING,
      Consume 5] ?t = 3"
    by (simp add: task_op_defs Let_def)
  have "total_work (snd (task_calls [Transition TASK_STATE_QUEUED, Transition TASK_STATE_RUNNING,
      Consume 5] ?t)) = 5"
    using task_lifetime [OF init, of "[Transition TASK_STATE_QUEUED,
      Transition TASK_STATE_RUNNING, Consume 5]"] by (elim conjE)
  with init changes show ?thesis by (intro exI [of _ ?t] conjI)
qed

text \<open>
  C33. Work is consumed exactly: on a running task, consuming positive amounts whose sum does
  not exceed the work left succeeds at every call, leaves exactly the difference (no
  wrap-around, no clamping), and completes the task exactly when the sum is all that was left.
\<close>

theorem consume_exact:
  assumes "task_state t = TASK_STATE_RUNNING" "0 \<notin> set ns" "ns \<noteq> []"
    "(\<Sum>n\<leftarrow>ns. unat n) \<le> unat (remaining_work t)"
  shows "fst (task_calls (map Consume ns) t) = replicate (length ns) True
    \<and> unat (remaining_work (snd (task_calls (map Consume ns) t)))
        = unat (remaining_work t) - (\<Sum>n\<leftarrow>ns. unat n)
    \<and> (task_is_complete (Some (snd (task_calls (map Consume ns) t)))
        \<longleftrightarrow> (\<Sum>n\<leftarrow>ns. unat n) = unat (remaining_work t))
    \<and> (task_state (snd (task_calls (map Consume ns) t)) = TASK_STATE_COMPLETED
        \<longleftrightarrow> (\<Sum>n\<leftarrow>ns. unat n) = unat (remaining_work t))"
  using consume_split [OF assms(1,2,4)] assms(3,4)
  by (auto simp: task_is_complete_def simp flip: unat_eq_0)

theorem consume_exact_witness:
  "fst (task_calls (map Consume [2, 3]) \<lparr>task_id = 1, priority = TASK_PRIORITY_LOW,
      task_state = TASK_STATE_RUNNING, total_work = 9, remaining_work = 5\<rparr>)
    = replicate (length [2, 3 :: u64]) True"
  by (rule consume_exact [THEN conjunct1]) simp_all

text \<open>
  A call that reports failure changes nothing: \<open>task_init\<close>, \<open>task_consume_work\<close> and
  \<open>task_transition_state\<close> return the task exactly as it was on every failing branch, null
  pointers, values outside the enumerations and over-consumption included.
\<close>

lemma task_failure_unchanged:
  "(fst (task_init task i p w) \<or> snd (task_init task i p w) = task)
   \<and> (fst (task_consume_work task n) \<or> snd (task_consume_work task n) = task)
   \<and> (fst (task_transition_state task s) \<or> snd (task_transition_state task s) = task)"
  by (cases task) (auto simp: task_op_defs split: TaskState.splits)

end
