(* ===== verification/Native.thy ===== *)
theory Native
  imports Prelude
begin

text \<open>
  The ledger of calls that leave the repository. The C heap (\<open>malloc\<close>, \<open>calloc\<close>, \<open>free\<close>) is
  modelled by the set of live blocks. The Win32 calls of \<open>sync_windows.c\<close> are not
  modelled: the ledger only records which critical sections are initialized, which of them the
  calling thread has entered and not left, which thread handles are open and which wake-ups
  were issued. The answers of every call that may fail are an input, \<open>fate\<close>: the head of that
  list answers the next such call and a used-up list answers with success, so that every
  combination of failures of a finite execution is an initial \<open>fate\<close>. A call on an object that
  is not in the state the call needs (a block freed twice, a section left that was not entered)
  sets \<open>misuse\<close>, which nothing clears.
\<close>

datatype wake = Wake addr | WakeAll addr

record world =
  next_block :: addr
  live :: "addr set"
  sections :: "addr set"
  held :: "addr list"
  handles :: "addr set"
  wakes :: "wake list"
  fate :: "bool list"
  misuse :: bool

type_synonym 'a native = "(world, 'a) state"

abbreviation ret :: "'a \<Rightarrow> 'a native" where
  "ret \<equiv> State_Monad.return"

definition modify :: "(world \<Rightarrow> world) \<Rightarrow> unit native" where
  "modify f = State (\<lambda>w. ((), f w))"

definition require :: "(world \<Rightarrow> bool) \<Rightarrow> (world \<Rightarrow> world) \<Rightarrow> unit native" where
  "require P f = modify (\<lambda>w. if P w then f w else w\<lparr>misuse := True\<rparr>)"

definition ask :: "bool native" where
  "ask = State (\<lambda>w. case fate w of [] \<Rightarrow> (True, w) | b # bs \<Rightarrow> (b, w\<lparr>fate := bs\<rparr>))"

section \<open>The heap\<close>

definition allocate :: "addr option native" where
  "allocate = do {
     ok \<leftarrow> ask;
     if ok then State (\<lambda>w. (Some (next_block w),
         w\<lparr>next_block := Suc (next_block w), live := insert (next_block w) (live w)\<rparr>))
     else ret None }"

definition free :: "addr option \<Rightarrow> unit native" where
  "free p = (case p of
      None \<Rightarrow> ret ()
    | Some a \<Rightarrow> require (\<lambda>w. a \<in> live w) (\<lambda>w. w\<lparr>live := live w - {a}\<rparr>))"

section \<open>Entries for the Win32 calls\<close>

definition InitializeCriticalSectionEx :: "addr \<Rightarrow> bool native" where
  "InitializeCriticalSectionEx a = do {
     ok \<leftarrow> ask;
     if ok then do { require (\<lambda>w. a \<in> live w \<and> a \<notin> sections w)
                       (\<lambda>w. w\<lparr>sections := insert a (sections w)\<rparr>); ret True }
     else ret False }"

definition DeleteCriticalSection :: "addr \<Rightarrow> unit native" where
  "DeleteCriticalSection a =
     require (\<lambda>w. a \<in> sections w \<and> a \<notin> set (held w)) (\<lambda>w. w\<lparr>sections := sections w - {a}\<rparr>)"

definition EnterCriticalSection :: "addr \<Rightarrow> unit native" where
  "EnterCriticalSection a = require (\<lambda>w. a \<in> sections w) (\<lambda>w. w\<lparr>held := a # held w\<rparr>)"

definition LeaveCriticalSection :: "addr \<Rightarrow> unit native" where
  "LeaveCriticalSection a =
     require (\<lambda>w. a \<in> sections w \<and> a \<in> set (held w)) (\<lambda>w. w\<lparr>held := remove1 a (held w)\<rparr>)"

text \<open>
  \<open>SleepConditionVariableCS\<close> gives the section up while the thread sleeps and has it again
  when it returns, so it is two entries: falling asleep, and returning with an answer.
\<close>

definition sleep_begin :: "addr \<Rightarrow> unit native" where
  "sleep_begin cs = LeaveCriticalSection cs"

definition sleep_end :: "addr \<Rightarrow> bool native" where
  "sleep_end cs = do { EnterCriticalSection cs; ask }"

definition WakeConditionVariable :: "addr \<Rightarrow> unit native" where
  "WakeConditionVariable a = modify (\<lambda>w. w\<lparr>wakes := wakes w @ [Wake a]\<rparr>)"

definition WakeAllConditionVariable :: "addr \<Rightarrow> unit native" where
  "WakeAllConditionVariable a = modify (\<lambda>w. w\<lparr>wakes := wakes w @ [WakeAll a]\<rparr>)"

text \<open>A thread handle is a number the ledger has not given out before.\<close>

definition beginthreadex :: "addr option native" where
  "beginthreadex = do {
     ok \<leftarrow> ask;
     if ok then State (\<lambda>w. (Some (next_block w),
         w\<lparr>next_block := Suc (next_block w), handles := insert (next_block w) (handles w)\<rparr>))
     else ret None }"

definition WaitForSingleObject :: "addr \<Rightarrow> bool native" where
  "WaitForSingleObject h = do { require (\<lambda>w. h \<in> handles w) (\<lambda>w. w); ask }"

definition CloseHandle :: "addr \<Rightarrow> unit native" where
  "CloseHandle h = require (\<lambda>w. h \<in> handles w) (\<lambda>w. w\<lparr>handles := handles w - {h}\<rparr>)"

section \<open>Running the entries\<close>

lemma run_modify [simp]: "run_state (modify f) w = ((), f w)"
  by (simp add: modify_def)

lemma run_require [simp]:
  "run_state (require P f) w = ((), if P w then f w else w\<lparr>misuse := True\<rparr>)"
  by (simp add: require_def)

lemma run_ask:
  "run_state ask w = (case fate w of [] \<Rightarrow> (True, w) | b # bs \<Rightarrow> (b, w\<lparr>fate := bs\<rparr>))"
  by (simp add: ask_def)

lemma run_free_None [simp]: "run_state (free None) w = ((), w)"
  by (simp add: free_def)

lemma run_free_Some [simp]:
  "run_state (free (Some a)) w =
     ((), if a \<in> live w then w\<lparr>live := live w - {a}\<rparr> else w\<lparr>misuse := True\<rparr>)"
  by (simp add: free_def)

lemma run_if: "run_state (if b then m else n) w = (if b then run_state m w else run_state n w)"
  by simp

lemmas native_defs = allocate_def InitializeCriticalSectionEx_def DeleteCriticalSection_def
  EnterCriticalSection_def LeaveCriticalSection_def sleep_begin_def sleep_end_def
  WakeConditionVariable_def WakeAllConditionVariable_def beginthreadex_def
  WaitForSingleObject_def CloseHandle_def

section \<open>The ledger is in order\<close>

text \<open>Everything live was given out by the allocator, and nothing was misused.\<close>

definition ledger_ok :: "world \<Rightarrow> bool" where
  "ledger_ok w \<longleftrightarrow>
     \<not> misuse w \<and> (\<forall>a \<in> live w. a < next_block w) \<and> (\<forall>a \<in> handles w. a < next_block w)
     \<and> sections w \<subseteq> live w \<and> finite (live w)"

lemma ledger_below:
  assumes "ledger_ok w"
  shows "a \<in> live w \<Longrightarrow> a < next_block w" "a \<in> sections w \<Longrightarrow> a < next_block w"
    "a \<in> handles w \<Longrightarrow> a < next_block w"
  using assms by (auto simp: ledger_ok_def)

lemma ledger_next_fresh: "ledger_ok w \<Longrightarrow> next_block w + k \<notin> live w"
  by (auto simp: ledger_ok_def)

lemma ledger_next_fresh_section: "ledger_ok w \<Longrightarrow> next_block w + k \<notin> sections w"
  by (auto simp: ledger_ok_def)

text \<open>Two moments between which every resource taken was given back and nothing was misused.\<close>

definition same_resources :: "world \<Rightarrow> world \<Rightarrow> bool" where
  "same_resources w w' \<longleftrightarrow>
     live w' = live w \<and> sections w' = sections w \<and> handles w' = handles w \<and> held w' = held w
     \<and> misuse w' = misuse w"

lemma same_resources_refl [simp]: "same_resources w w"
  by (simp add: same_resources_def)

lemma same_resources_trans: "same_resources u v \<Longrightarrow> same_resources v w \<Longrightarrow> same_resources u w"
  by (simp add: same_resources_def)

text \<open>The answer of the next call that may fail.\<close>

definition next_answer :: "world \<Rightarrow> bool" where
  "next_answer w = (case fate w of [] \<Rightarrow> True | b # bs \<Rightarrow> b)"

lemma run_ask_eq: "run_state ask w = (next_answer w, w\<lparr>fate := tl (fate w)\<rparr>)"
  by (simp add: run_ask next_answer_def split: list.splits)

lemma next_answer_simps [simp]:
  "next_answer (w\<lparr>held := h\<rparr>) = next_answer w" "next_answer (w\<lparr>wakes := k\<rparr>) = next_answer w"
  by (simp_all add: next_answer_def)

section \<open>Reasoning about native computations\<close>

text \<open>
  \<open>wp m P w\<close> says that the run of \<open>m\<close> from \<open>w\<close> ends with a value and a world that \<open>P\<close>
  accepts. The rules below take a computation apart call by call.
\<close>

definition wp :: "'a native \<Rightarrow> ('a \<Rightarrow> world \<Rightarrow> bool) \<Rightarrow> world \<Rightarrow> bool" where
  "wp m P w \<longleftrightarrow> P (fst (run_state m w)) (snd (run_state m w))"

lemma wp_bind [simp]: "wp (State_Monad.bind m f) P = wp m (\<lambda>r. wp (f r) P)"
  by (simp add: wp_def fun_eq_iff split: prod.splits)

lemma wp_ret [simp]: "wp (ret x) P = P x"
  by (simp add: wp_def fun_eq_iff)

lemma wp_if [simp]: "wp (if b then m else n) P = (if b then wp m P else wp n P)"
  by simp

lemma wp_run: "wp m P w \<Longrightarrow> run_state m w = (r, w') \<Longrightarrow> P r w'"
  by (simp add: wp_def)

text \<open>
  \<open>owns w0 w B S H\<close>: since the moment \<open>w0\<close> the blocks \<open>B\<close> were allocated, the sections \<open>S\<close>
  initialized (inside blocks of \<open>B\<close>) and the handles \<open>H\<close> opened, and nothing else changed that
  has to be given back.
\<close>

definition owns :: "world \<Rightarrow> world \<Rightarrow> addr set \<Rightarrow> addr set \<Rightarrow> addr set \<Rightarrow> bool" where
  "owns w0 w B S H \<longleftrightarrow> ledger_ok w0 \<and> ledger_ok w
     \<and> live w = live w0 \<union> B \<and> B \<inter> live w0 = {}
     \<and> sections w = sections w0 \<union> S \<and> S \<subseteq> B
     \<and> handles w = handles w0 \<union> H \<and> H \<inter> handles w0 = {}
     \<and> held w = held w0 \<and> set (held w0) \<subseteq> sections w0"

lemma owns_start: "ledger_ok w \<Longrightarrow> set (held w) \<subseteq> sections w \<Longrightarrow> owns w w {} {} {}"
  by (simp add: owns_def)

lemma owns_done: "owns w0 w {} {} {} \<Longrightarrow> same_resources w0 w"
  by (simp add: owns_def same_resources_def ledger_ok_def)

lemma owns_not_held:
  assumes "owns w0 w B S H" "a \<in> S"
  shows "a \<notin> set (held w)"
proof -
  have "a \<notin> live w0" using assms by (auto simp: owns_def)
  then have "a \<notin> sections w0" using assms(1) by (auto simp: owns_def ledger_ok_def)
  then show ?thesis using assms(1) by (auto simp: owns_def)
qed

lemma owns_ledger: "owns w0 w B S H \<Longrightarrow> ledger_ok w"
  by (simp add: owns_def)

lemma owns_fate: "owns w0 (w\<lparr>fate := fs\<rparr>) B S H = owns w0 w B S H"
  by (simp add: owns_def ledger_ok_def)

lemma owns_new_block:
  assumes "owns w0 w B S H"
  shows "next_block w \<notin> B" "next_block w \<notin> S" "next_block w \<notin> H"
    "owns w0 (w\<lparr>next_block := Suc (next_block w), live := insert (next_block w) (live w)\<rparr>)
       (insert (next_block w) B) S H"
  using assms ledger_below [of w "next_block w"] by (auto simp: owns_def ledger_ok_def less_Suc_eq)

lemma owns_new_handle:
  assumes "owns w0 w B S H"
  shows "owns w0 (w\<lparr>next_block := Suc (next_block w), handles := insert (next_block w) (handles w)\<rparr>)
       B S (insert (next_block w) H)"
  using assms ledger_below [of w "next_block w"] by (auto simp: owns_def ledger_ok_def less_Suc_eq)

lemma owns_new_section:
  assumes "owns w0 w B S H" "a \<in> B"
  shows "owns w0 (w\<lparr>sections := insert a (sections w)\<rparr>) B (insert a S) H"
  using assms by (auto simp: owns_def ledger_ok_def)

lemma owns_drop_block:
  assumes "owns w0 w B S H" "a \<in> B" "a \<notin> S"
  shows "a \<in> live w" "owns w0 (w\<lparr>live := live w - {a}\<rparr>) (B - {a}) S H"
  using assms by (auto simp: owns_def ledger_ok_def)

lemma owns_drop_section:
  assumes "owns w0 w B S H" "a \<in> S"
  shows "a \<in> sections w" "owns w0 (w\<lparr>sections := sections w - {a}\<rparr>) B (S - {a}) H"
  using assms by (auto simp: owns_def ledger_ok_def)

lemma owns_drop_handle:
  assumes "owns w0 w B S H" "a \<in> H"
  shows "a \<in> handles w" "owns w0 (w\<lparr>handles := handles w - {a}\<rparr>) B S (H - {a})"
  using assms by (auto simp: owns_def ledger_ok_def)

lemma wp_allocate:
  assumes "owns w0 w B S H"
    and "\<And>w'. owns w0 w' B S H \<Longrightarrow> P None w'"
    and "\<And>a w'. a \<notin> B \<Longrightarrow> a \<notin> H \<Longrightarrow> owns w0 w' (insert a B) S H \<Longrightarrow> P (Some a) w'"
  shows "wp allocate P w"
proof -
  have own: "owns w0 (w\<lparr>fate := tl (fate w)\<rparr>) B S H" using assms(1) by (simp add: owns_fate)
  from assms(2) [OF own] assms(3) [OF owns_new_block(1,3,4) [OF own]] show ?thesis
    by (simp add: allocate_def wp_def run_ask_eq)
qed

lemma wp_free:
  assumes "owns w0 w B S H" "a \<in> B" "a \<notin> S"
    and "\<And>w'. owns w0 w' (B - {a}) S H \<Longrightarrow> P () w'"
  shows "wp (free (Some a)) P w"
  using owns_drop_block [OF assms(1-3)] assms(4) by (simp add: wp_def)

lemma wp_init_section:
  assumes "owns w0 w B S H" "a \<in> B" "a \<notin> S"
    and "\<And>w'. owns w0 w' B S H \<Longrightarrow> P False w'"
    and "\<And>w'. owns w0 w' B (insert a S) H \<Longrightarrow> P True w'"
  shows "wp (InitializeCriticalSectionEx a) P w"
proof -
  let ?w = "w\<lparr>fate := tl (fate w)\<rparr>"
  have own: "owns w0 ?w B S H" using assms(1) by (simp add: owns_fate)
  moreover have "a \<in> live ?w" "a \<notin> sections ?w" using assms(1-3) by (auto simp: owns_def ledger_ok_def)
  ultimately show ?thesis using assms(4) [OF own] assms(5) [OF owns_new_section [OF own assms(2)]]
    by (simp add: InitializeCriticalSectionEx_def wp_def run_ask_eq)
qed

lemma wp_delete_section:
  assumes "owns w0 w B S H" "a \<in> S"
    and "\<And>w'. owns w0 w' B (S - {a}) H \<Longrightarrow> P () w'"
  shows "wp (DeleteCriticalSection a) P w"
  using owns_drop_section [OF assms(1,2)] owns_not_held [OF assms(1,2)] assms(3)
  by (simp add: DeleteCriticalSection_def wp_def)

lemma wp_beginthreadex:
  assumes "owns w0 w B S H"
    and "\<And>w'. owns w0 w' B S H \<Longrightarrow> P None w'"
    and "\<And>a w'. a \<notin> H \<Longrightarrow> owns w0 w' B S (insert a H) \<Longrightarrow> P (Some a) w'"
  shows "wp beginthreadex P w"
proof -
  have own: "owns w0 (w\<lparr>fate := tl (fate w)\<rparr>) B S H" using assms(1) by (simp add: owns_fate)
  from assms(2) [OF own] assms(3) [OF owns_new_block(3) [OF own] owns_new_handle [OF own]] show ?thesis
    by (simp add: beginthreadex_def wp_def run_ask_eq)
qed

lemma wp_close_handle:
  assumes "owns w0 w B S H" "a \<in> H"
    and "\<And>w'. owns w0 w' B S (H - {a}) \<Longrightarrow> P () w'"
  shows "wp (CloseHandle a) P w"
  using owns_drop_handle [OF assms(1,2)] assms(3) by (simp add: CloseHandle_def wp_def)

lemma owns_sections_blocks: "owns w0 w B S H \<Longrightarrow> a \<notin> B \<Longrightarrow> a \<notin> S"
  by (auto simp: owns_def)

end
