(* ===== verification/Task_Queue.thy ===== *)
theory Task_Queue
  imports Task Native
begin

text \<open>
  The bounded FIFO (\<open>src/task_queue.c\<close>, \<open>include/concurrent_scheduler/task_queue.h\<close>): a circular
  array of task pointers with a head, a tail and a size. The queue owns its array, so the
  array is part of the queue's value: \<open>items\<close> is \<^term>\<open>None\<close> for the null pointer and otherwise
  the block's address with its slots. A slot is a \<open>Task *\<close>, an address or null.
\<close>

section \<open>Data\<close>

datatype TaskQueueResult =
    TASK_QUEUE_OK
  | TASK_QUEUE_ERROR_INVALID_ARGUMENT
  | TASK_QUEUE_ERROR_ALLOCATION
  | TASK_QUEUE_ERROR_FULL
  | TASK_QUEUE_ERROR_EMPTY
  | TASK_QUEUE_OUTSIDE int

type_synonym task_ptr = "addr option"

record TaskQueue =
  items :: "(addr \<times> task_ptr list) option"
  capacity :: size_t
  qsize :: size_t
  head :: size_t
  tail :: size_t

definition zero_queue :: TaskQueue where
  "zero_queue = \<lparr>items = None, capacity = 0, qsize = 0, head = 0, tail = 0\<rparr>"

abbreviation SIZEOF_TASK_PTR :: size_t where
  "SIZEOF_TASK_PTR \<equiv> 8"

section \<open>Operations\<close>

definition task_queue_init ::
  "TaskQueue option \<Rightarrow> size_t \<Rightarrow> (TaskQueueResult \<times> TaskQueue option) native" where
  "task_queue_init queue cap = (case queue of
      None \<Rightarrow> ret (TASK_QUEUE_ERROR_INVALID_ARGUMENT, None)
    | Some q \<Rightarrow>
        if cap = 0 \<or> cap > SIZE_MAX div SIZEOF_TASK_PTR
        then ret (TASK_QUEUE_ERROR_INVALID_ARGUMENT, Some q)
        else do {
          block \<leftarrow> allocate;
          (case block of
             None \<Rightarrow> ret (TASK_QUEUE_ERROR_ALLOCATION, Some q)
           | Some a \<Rightarrow> ret (TASK_QUEUE_OK,
               Some (q\<lparr>items := Some (a, replicate (unat cap) None), capacity := cap,
                       qsize := 0, head := 0, tail := 0\<rparr>))) })"

definition task_queue_destroy :: "TaskQueue option \<Rightarrow> TaskQueue option native" where
  "task_queue_destroy queue = (case queue of
      None \<Rightarrow> ret None
    | Some q \<Rightarrow> do {
        free (map_option fst (items q));
        ret (Some (q\<lparr>items := None, capacity := 0, qsize := 0, head := 0, tail := 0\<rparr>)) })"

text \<open>The guard that enqueue, dequeue and peek share after their null checks.\<close>

definition queue_shape_invalid :: "TaskQueue \<Rightarrow> bool" where
  "queue_shape_invalid q \<longleftrightarrow>
     items q = None \<or> capacity q = 0 \<or> qsize q > capacity q
     \<or> head q \<ge> capacity q \<or> tail q \<ge> capacity q"

definition task_queue_enqueue ::
  "TaskQueue option \<Rightarrow> task_ptr \<Rightarrow> TaskQueueResult \<times> TaskQueue option" where
  "task_queue_enqueue queue task = (case queue of
      None \<Rightarrow> (TASK_QUEUE_ERROR_INVALID_ARGUMENT, None)
    | Some q \<Rightarrow>
        if task = None \<or> queue_shape_invalid q
        then (TASK_QUEUE_ERROR_INVALID_ARGUMENT, Some q)
        else if qsize q = capacity q then (TASK_QUEUE_ERROR_FULL, Some q)
        else (TASK_QUEUE_OK,
          Some (q\<lparr>items := map_option (\<lambda>(a, xs). (a, xs[unat (tail q) := task])) (items q),
                  tail := (if tail q = capacity q - 1 then 0 else tail q + 1),
                  qsize := qsize q + 1\<rparr>)))"

text \<open>
  The output argument \<open>Task **task\<close> of dequeue and peek is written on success only, so the
  model returns what was written, \<^term>\<open>None\<close> for no write. The flag \<open>out\<close> says whether the
  caller passed a non-null output pointer.
\<close>

definition slot :: "TaskQueue \<Rightarrow> size_t \<Rightarrow> task_ptr" where
  "slot q i = (case items q of None \<Rightarrow> None | Some (a, xs) \<Rightarrow> xs ! unat i)"

definition task_queue_dequeue ::
  "TaskQueue option \<Rightarrow> bool \<Rightarrow> TaskQueueResult \<times> task_ptr \<times> TaskQueue option" where
  "task_queue_dequeue queue out = (case queue of
      None \<Rightarrow> (TASK_QUEUE_ERROR_INVALID_ARGUMENT, None, None)
    | Some q \<Rightarrow>
        if \<not> out \<or> queue_shape_invalid q
        then (TASK_QUEUE_ERROR_INVALID_ARGUMENT, None, Some q)
        else if qsize q = 0 then (TASK_QUEUE_ERROR_EMPTY, None, Some q)
        else if slot q (head q) = None then (TASK_QUEUE_ERROR_INVALID_ARGUMENT, None, Some q)
        else (TASK_QUEUE_OK, slot q (head q),
          Some (q\<lparr>items := map_option (\<lambda>(a, xs). (a, xs[unat (head q) := None])) (items q),
                  head := (if head q = capacity q - 1 then 0 else head q + 1),
                  qsize := qsize q - 1\<rparr>)))"

definition task_queue_peek :: "TaskQueue option \<Rightarrow> bool \<Rightarrow> TaskQueueResult \<times> task_ptr" where
  "task_queue_peek queue out = (case queue of
      None \<Rightarrow> (TASK_QUEUE_ERROR_INVALID_ARGUMENT, None)
    | Some q \<Rightarrow>
        if \<not> out \<or> queue_shape_invalid q then (TASK_QUEUE_ERROR_INVALID_ARGUMENT, None)
        else if qsize q = 0 then (TASK_QUEUE_ERROR_EMPTY, None)
        else if slot q (head q) = None then (TASK_QUEUE_ERROR_INVALID_ARGUMENT, None)
        else (TASK_QUEUE_OK, slot q (head q)))"

definition task_queue_is_empty :: "TaskQueue option \<Rightarrow> bool" where
  "task_queue_is_empty queue = (case queue of None \<Rightarrow> True | Some q \<Rightarrow> qsize q = 0)"

definition task_queue_is_full :: "TaskQueue option \<Rightarrow> bool" where
  "task_queue_is_full queue = (case queue of
      None \<Rightarrow> False
    | Some q \<Rightarrow> capacity q \<noteq> 0 \<and> qsize q \<le> capacity q \<and> qsize q = capacity q)"

definition task_queue_size :: "TaskQueue option \<Rightarrow> size_t" where
  "task_queue_size queue = (case queue of None \<Rightarrow> 0 | Some q \<Rightarrow> qsize q)"

definition task_queue_capacity :: "TaskQueue option \<Rightarrow> size_t" where
  "task_queue_capacity queue = (case queue of None \<Rightarrow> 0 | Some q \<Rightarrow> capacity q)"

definition task_queue_result_name :: "TaskQueueResult \<Rightarrow> string" where
  "task_queue_result_name r = (case r of
      TASK_QUEUE_OK \<Rightarrow> ''OK''
    | TASK_QUEUE_ERROR_INVALID_ARGUMENT \<Rightarrow> ''INVALID_ARGUMENT''
    | TASK_QUEUE_ERROR_ALLOCATION \<Rightarrow> ''ALLOCATION_ERROR''
    | TASK_QUEUE_ERROR_FULL \<Rightarrow> ''FULL''
    | TASK_QUEUE_ERROR_EMPTY \<Rightarrow> ''EMPTY''
    | TASK_QUEUE_OUTSIDE _ \<Rightarrow> ''UNKNOWN'')"

lemmas queue_op_defs = task_queue_init_def task_queue_destroy_def queue_shape_invalid_def
  task_queue_enqueue_def slot_def task_queue_dequeue_def task_queue_peek_def
  task_queue_is_empty_def task_queue_is_full_def task_queue_size_def task_queue_capacity_def

section \<open>Invariant and contents\<close>

text \<open>
  The slots from the head on hold the queued pointers, none of them null; the slots from the
  tail on are free and all null; the tail is where the window from the head ends.
\<close>

definition queue_wf :: "TaskQueue \<Rightarrow> bool" where
  "queue_wf q \<longleftrightarrow> (case items q of
      None \<Rightarrow> False
    | Some (a, xs) \<Rightarrow>
        length xs = unat (capacity q) \<and> capacity q \<noteq> 0
        \<and> capacity q \<le> SIZE_MAX div SIZEOF_TASK_PTR
        \<and> qsize q \<le> capacity q \<and> head q < capacity q
        \<and> unat (tail q) = (unat (head q) + unat (qsize q)) mod unat (capacity q)
        \<and> None \<notin> set (ring xs (unat (head q)) (unat (qsize q)))
        \<and> set (ring xs (unat (tail q)) (unat (capacity q) - unat (qsize q))) \<subseteq> {None})"

definition contents :: "TaskQueue \<Rightarrow> addr list" where
  "contents q = (case items q of
      None \<Rightarrow> []
    | Some (a, xs) \<Rightarrow> map the (ring xs (unat (head q)) (unat (qsize q))))"

text \<open>The queue as a value without its array: what a client of the FIFO sees.\<close>

lemma queue_wfE:
  assumes "queue_wf q"
  obtains a xs where "items q = Some (a, xs)" "length xs = unat (capacity q)"
    "0 < unat (capacity q)" "unat (qsize q) \<le> unat (capacity q)"
    "unat (head q) < unat (capacity q)"
    "unat (tail q) = (unat (head q) + unat (qsize q)) mod unat (capacity q)"
    "None \<notin> set (ring xs (unat (head q)) (unat (qsize q)))"
    "set (ring xs (unat (tail q)) (unat (capacity q) - unat (qsize q))) \<subseteq> {None}"
    "contents q = map the (ring xs (unat (head q)) (unat (qsize q)))"
proof -
  from assms obtain a xs where "items q = Some (a, xs)" by (auto simp: queue_wf_def split: option.splits)
  moreover from this assms have "qsize q \<le> capacity q" "head q < capacity q" "capacity q \<noteq> 0"
    by (simp_all add: queue_wf_def)
  then have "unat (qsize q) \<le> unat (capacity q)" "unat (head q) < unat (capacity q)"
    "0 < unat (capacity q)"
    by (auto intro: unat_mono_le unat_mono_less simp: unat_pos_iff)
  ultimately show thesis using assms
    by (intro that [of a xs]) (auto simp: queue_wf_def contents_def)
qed

lemma length_contents: "queue_wf q \<Longrightarrow> length (contents q) = unat (qsize q)"
  by (auto elim!: queue_wfE)

lemma wf_tail_less: "queue_wf q \<Longrightarrow> unat (tail q) < unat (capacity q)"
  by (auto elim!: queue_wfE)

lemma wf_shape: "queue_wf q \<Longrightarrow> \<not> queue_shape_invalid q"
proof -
  assume wf: "queue_wf q"
  then have "items q \<noteq> None" "capacity q \<noteq> 0" "\<not> capacity q < qsize q"
    "\<not> capacity q \<le> head q"
    by (auto simp: queue_wf_def split: option.splits)
  moreover have "\<not> capacity q \<le> tail q" using wf_tail_less [OF wf] by (auto dest: unat_mono_le)
  ultimately show ?thesis by (simp add: queue_shape_invalid_def)
qed

lemma contents_empty_iff: "queue_wf q \<Longrightarrow> contents q = [] \<longleftrightarrow> qsize q = 0"
  using length_contents [of q] by (auto simp flip: length_0_conv simp: unat_0_iff)

lemma contents_full_iff:
  "queue_wf q \<Longrightarrow> length (contents q) = unat (capacity q) \<longleftrightarrow> qsize q = capacity q"
  by (simp add: length_contents unat_eq_iff)

lemma unat_wrap:
  "i < c \<Longrightarrow> unat (if i = c - 1 then 0 else i + 1) = Suc (unat i) mod unat c" for i c :: size_t
proof -
  assume less: "i < c"
  then have c: "c \<noteq> 0" using word_not_simps(1) by blast
  have "unat (c - 1) = unat c - 1" using c by simp
  moreover have "i \<noteq> - 1" using less by (rule less_not_max)
  moreover have "unat i < unat c" using less by (simp add: word_less_nat_alt)
  ultimately show ?thesis using unat_eq_iff [of i "c - 1"] by auto
qed

subsection \<open>Enqueue\<close>

lemma enqueue_full:
  "queue_wf q \<Longrightarrow> qsize q = capacity q \<Longrightarrow>
     task_queue_enqueue (Some q) (Some t) = (TASK_QUEUE_ERROR_FULL, Some q)"
  by (simp add: task_queue_enqueue_def wf_shape)

lemma enqueue_room:
  assumes "queue_wf q" "qsize q \<noteq> capacity q"
  obtains q' where "task_queue_enqueue (Some q) (Some t) = (TASK_QUEUE_OK, Some q')"
    "queue_wf q'" "contents q' = contents q @ [t]" "capacity q' = capacity q"
    "qsize q' = qsize q + 1" "map_option fst (items q') = map_option fst (items q)"
proof -
  from assms(1) obtain a xs where q: "items q = Some (a, xs)" "length xs = unat (capacity q)"
    "0 < unat (capacity q)" "unat (qsize q) \<le> unat (capacity q)"
    "unat (head q) < unat (capacity q)"
    "unat (tail q) = (unat (head q) + unat (qsize q)) mod unat (capacity q)"
    "None \<notin> set (ring xs (unat (head q)) (unat (qsize q)))"
    "set (ring xs (unat (tail q)) (unat (capacity q) - unat (qsize q))) \<subseteq> {None}"
    "contents q = map the (ring xs (unat (head q)) (unat (qsize q)))" by (rule queue_wfE)
  have room: "unat (qsize q) < unat (capacity q)"
    using q(4) assms(2) unat_eq_iff [of "qsize q" "capacity q"] by linarith
  let ?xs = "xs[unat (tail q) := Some t]"
  let ?q = "q\<lparr>items := Some (a, ?xs),
      tail := (if tail q = capacity q - 1 then 0 else tail q + 1), qsize := qsize q + 1\<rparr>"
  have tl: "tail q < capacity q" using wf_tail_less [OF assms(1)] by (simp add: word_less_nat_alt)
  have size: "unat (qsize q + 1) = Suc (unat (qsize q))"
    using room by (intro unat_add_one less_not_max [of _ "capacity q"]) (simp add: word_less_nat_alt)
  have live: "ring ?xs (unat (head q)) (Suc (unat (qsize q)))
      = ring xs (unat (head q)) (unat (qsize q)) @ [Some t]"
    using ring_snoc [of "unat (qsize q)" xs "unat (head q)" "Some t"] q(2,6) room by simp
  have free: "ring ?xs (Suc (unat (tail q)) mod unat (capacity q))
      (unat (capacity q) - Suc (unat (qsize q)))
      = tl (ring xs (unat (tail q)) (unat (capacity q) - unat (qsize q)))"
    using ring_tl [of "unat (capacity q) - unat (qsize q)" xs "unat (tail q)" "Some t"] q(2) room tl
    by (simp add: word_less_nat_alt)
  have wf: "queue_wf ?q"
    using assms(1) q room size live free unat_wrap [OF tl]
      subset_trans [OF set_tl_subset q(8)]
    by (simp add: queue_wf_def mod_Suc_eq word_le_nat_alt [of _ "capacity q"])
  have "contents ?q = contents q @ [t]" using q size live by (simp add: contents_def)
  moreover have "task_queue_enqueue (Some q) (Some t) = (TASK_QUEUE_OK, Some ?q)"
    using assms q(1) by (simp add: task_queue_enqueue_def wf_shape)
  ultimately show thesis using that [of ?q] wf q(1) by simp
qed

subsection \<open>Dequeue and peek\<close>

lemma dequeue_empty:
  "queue_wf q \<Longrightarrow> qsize q = 0 \<Longrightarrow>
     task_queue_dequeue (Some q) True = (TASK_QUEUE_ERROR_EMPTY, None, Some q)"
  by (simp add: task_queue_dequeue_def wf_shape)

lemma slot_head:
  assumes "queue_wf q" "qsize q \<noteq> 0"
  shows "slot q (head q) = Some (hd (contents q))"
proof -
  from assms(1) obtain a xs where q: "items q = Some (a, xs)" "length xs = unat (capacity q)"
    "unat (head q) < unat (capacity q)" "None \<notin> set (ring xs (unat (head q)) (unat (qsize q)))"
    "contents q = map the (ring xs (unat (head q)) (unat (qsize q)))" by (rule queue_wfE)
  have pos: "0 < unat (qsize q)" using assms(2) by (simp add: unat_pos_iff)
  then have ne: "ring xs (unat (head q)) (unat (qsize q)) \<noteq> []" by (simp flip: length_0_conv)
  have hd: "hd (ring xs (unat (head q)) (unat (qsize q))) = xs ! unat (head q)"
    using q(2,3) pos by (simp add: hd_ring)
  with ne q(4) have "xs ! unat (head q) \<noteq> None" by (metis hd_in_set)
  then show ?thesis using q ne hd by (auto simp: slot_def hd_map)
qed

lemma dequeue_item:
  assumes "queue_wf q" "qsize q \<noteq> 0"
  obtains q' where
    "task_queue_dequeue (Some q) True = (TASK_QUEUE_OK, Some (hd (contents q)), Some q')"
    "queue_wf q'" "contents q' = tl (contents q)" "capacity q' = capacity q"
    "qsize q' = qsize q - 1" "map_option fst (items q') = map_option fst (items q)"
proof -
  from assms(1) obtain a xs where q: "items q = Some (a, xs)" "length xs = unat (capacity q)"
    "0 < unat (capacity q)" "unat (qsize q) \<le> unat (capacity q)"
    "unat (head q) < unat (capacity q)"
    "unat (tail q) = (unat (head q) + unat (qsize q)) mod unat (capacity q)"
    "None \<notin> set (ring xs (unat (head q)) (unat (qsize q)))"
    "set (ring xs (unat (tail q)) (unat (capacity q) - unat (qsize q))) \<subseteq> {None}"
    "contents q = map the (ring xs (unat (head q)) (unat (qsize q)))" by (rule queue_wfE)
  let ?h = "unat (head q)" and ?n = "unat (qsize q)" and ?c = "unat (capacity q)"
  let ?xs = "xs[?h := None]"
  let ?q = "q\<lparr>items := Some (a, ?xs),
      head := (if head q = capacity q - 1 then 0 else head q + 1), qsize := qsize q - 1\<rparr>"
  have pos: "0 < ?n" using assms(2) by (simp add: unat_pos_iff)
  have less: "head q < capacity q" using q(5) by (simp add: word_less_nat_alt)
  have live: "ring ?xs (Suc ?h mod ?c) (?n - 1) = tl (ring xs ?h ?n)"
    using ring_tl [of ?n xs ?h None] q(2,4,5) pos by simp
  have "((?h + ?n) mod ?c + (?c - ?n)) mod ?c = ?h"
    using q(4,5) by (rule ring_complement)
  moreover have "?c - ?n < ?c" using q(3) pos by (rule diff_less [rotated])
  ultimately have free: "ring ?xs (unat (tail q)) (Suc (?c - ?n))
      = ring xs (unat (tail q)) (?c - ?n) @ [None]"
    using ring_snoc [of "?c - ?n" xs "unat (tail q)" None] q(2,6) by simp
  have gap: "?c - (?n - Suc 0) = Suc (?c - ?n)" using pos q(4) by simp
  have tail: "(Suc ?h mod ?c + (?n - Suc 0)) mod ?c = (?h + ?n) mod ?c"
    using pos by (rule ring_advance)
  have wrapped: "Suc ?h mod ?c < ?c" using q(3) by simp
  have some: "None \<notin> set (tl (ring xs ?h ?n))" by (rule contra_subsetD [OF set_tl_subset q(7)])
  have small: "?n - Suc 0 \<le> ?c" using q(4) by simp
  have size: "unat (qsize q - 1) = ?n - Suc 0" using assms(2) by simp
  have wf: "queue_wf ?q"
    using size assms q live free gap tail some small wrapped unat_wrap [OF less]
    by (simp add: queue_wf_def word_le_nat_alt [of _ "capacity q"] word_less_nat_alt [of _ "capacity q"])
  have "contents ?q = tl (contents q)"
    using q(1,9) live size unat_wrap [OF less] by (simp add: contents_def map_tl)
  moreover have "task_queue_dequeue (Some q) True = (TASK_QUEUE_OK, Some (hd (contents q)), Some ?q)"
    using assms q(1) slot_head [OF assms] by (simp add: task_queue_dequeue_def wf_shape)
  ultimately show thesis using that [of ?q] wf q(1) by simp
qed

lemma peek_item:
  "queue_wf q \<Longrightarrow> qsize q \<noteq> 0 \<Longrightarrow>
     task_queue_peek (Some q) True = (TASK_QUEUE_OK, Some (hd (contents q)))"
  using slot_head [of q] by (simp add: task_queue_peek_def wf_shape)

subsection \<open>Initialization\<close>

lemma init_wf:
  assumes "cap \<noteq> 0" "cap \<le> SIZE_MAX div SIZEOF_TASK_PTR"
  shows "queue_wf (q\<lparr>items := Some (a, replicate (unat cap) None), capacity := cap,
                       qsize := 0, head := 0, tail := 0\<rparr>)"
    and "contents (q\<lparr>items := Some (a, replicate (unat cap) None), capacity := cap,
                       qsize := 0, head := 0, tail := 0\<rparr>) = []"
proof -
  have "set (ring (replicate (unat cap) None) 0 (unat cap)) \<subseteq> {None}"
    using assms(1) by (auto simp: in_set_conv_nth)
  with assms show "queue_wf (q\<lparr>items := Some (a, replicate (unat cap) None), capacity := cap,
                       qsize := 0, head := 0, tail := 0\<rparr>)"
    by (simp add: queue_wf_def word_gt_0)
qed (simp add: contents_def)

section \<open>The contract of a bounded FIFO\<close>

text \<open>
  What a client of a bounded FIFO relies on: enqueue appends when there is room and changes
  nothing otherwise, dequeue removes the oldest element when there is one. The same contract
  is met here by the circular array and later by the synchronized wrapper around it.
\<close>

locale bounded_fifo =
  fixes inv :: "'q \<Rightarrow> bool"
    and elems :: "'q \<Rightarrow> 'a list"
    and bound :: "'q \<Rightarrow> nat"
    and enq :: "'q \<Rightarrow> 'a \<Rightarrow> bool \<times> 'q"
    and deq :: "'q \<Rightarrow> 'a option \<times> 'q"
  assumes bounded: "inv q \<Longrightarrow> length (elems q) \<le> bound q"
    and enq_room: "inv q \<Longrightarrow> length (elems q) < bound q \<Longrightarrow>
      fst (enq q x) \<and> elems (snd (enq q x)) = elems q @ [x]"
    and enq_full: "inv q \<Longrightarrow> length (elems q) = bound q \<Longrightarrow>
      \<not> fst (enq q x) \<and> elems (snd (enq q x)) = elems q"
    and enq_keeps: "inv q \<Longrightarrow> inv (snd (enq q x)) \<and> bound (snd (enq q x)) = bound q"
    and deq_item: "inv q \<Longrightarrow> elems q \<noteq> [] \<Longrightarrow>
      fst (deq q) = Some (hd (elems q)) \<and> elems (snd (deq q)) = tl (elems q)"
    and deq_empty: "inv q \<Longrightarrow> elems q = [] \<Longrightarrow> fst (deq q) = None \<and> elems (snd (deq q)) = []"
    and deq_keeps: "inv q \<Longrightarrow> inv (snd (deq q)) \<and> bound (snd (deq q)) = bound q"

datatype 'a fifo_call = Enq 'a | Deq

text \<open>
  A client's calls: the final queue, the elements the queue accepted and the elements it gave
  back, each in order.
\<close>

fun fifo_run :: "('q \<Rightarrow> 'a \<Rightarrow> bool \<times> 'q) \<Rightarrow> ('q \<Rightarrow> 'a option \<times> 'q) \<Rightarrow> 'a fifo_call list \<Rightarrow> 'q
    \<Rightarrow> 'a list \<times> 'a list \<times> 'q" where
  "fifo_run enq deq [] q = ([], [], q)"
| "fifo_run enq deq (Enq x # cs) q =
     (let (r, q') = enq q x; (ins, outs, q'') = fifo_run enq deq cs q'
      in (if r then x # ins else ins, outs, q''))"
| "fifo_run enq deq (Deq # cs) q =
     (let (r, q') = deq q; (ins, outs, q'') = fifo_run enq deq cs q'
      in (ins, case r of None \<Rightarrow> outs | Some x \<Rightarrow> x # outs, q''))"

context bounded_fifo
begin

lemma run_keeps:
  "inv q \<Longrightarrow> fifo_run enq deq cs q = (ins, outs, q') \<Longrightarrow> inv q' \<and> bound q' = bound q"
proof (induction cs arbitrary: q ins outs)
  case (Cons c cs)
  show ?case
  proof (cases c)
    case (Enq x)
    with Cons.prems obtain ins' where "fifo_run enq deq cs (snd (enq q x)) = (ins', outs, q')"
      by (auto simp: Let_def split: prod.splits)
    with Cons.IH [of "snd (enq q x)"] enq_keeps [OF Cons.prems(1), of x] show ?thesis by auto
  next
    case Deq
    with Cons.prems obtain outs' where "fifo_run enq deq cs (snd (deq q)) = (ins, outs', q')"
      by (auto simp: Let_def split: prod.splits)
    with Cons.IH [of "snd (deq q)"] deq_keeps [OF Cons.prems(1)] show ?thesis by auto
  qed
qed simp

text \<open>Nothing is lost, duplicated or reordered.\<close>

lemma run_fifo:
  "inv q \<Longrightarrow> fifo_run enq deq cs q = (ins, outs, q') \<Longrightarrow> outs @ elems q' = elems q @ ins"
proof (induction cs arbitrary: q ins outs)
  case (Cons c cs)
  show ?case
  proof (cases c)
    case (Enq x)
    with Cons.prems obtain ins' where run: "fifo_run enq deq cs (snd (enq q x)) = (ins', outs, q')"
      and ins: "ins = (if fst (enq q x) then x # ins' else ins')"
      by (auto simp: Let_def split: prod.splits)
    have "outs @ elems q' = elems (snd (enq q x)) @ ins'"
      using Cons.IH [OF _ run] enq_keeps [OF Cons.prems(1)] by blast
    then show ?thesis
      using ins enq_room [OF Cons.prems(1), of x] enq_full [OF Cons.prems(1), of x]
        bounded [OF Cons.prems(1)] by (cases "length (elems q) = bound q") auto
  next
    case Deq
    with Cons.prems obtain outs' where run: "fifo_run enq deq cs (snd (deq q)) = (ins, outs', q')"
      and outs: "outs = (case fst (deq q) of None \<Rightarrow> outs' | Some x \<Rightarrow> x # outs')"
      by (auto simp: Let_def split: prod.splits)
    have "outs' @ elems q' = elems (snd (deq q)) @ ins"
      using Cons.IH [OF _ run] deq_keeps [OF Cons.prems(1)] by blast
    then show ?thesis
      using outs deq_item [OF Cons.prems(1)] deq_empty [OF Cons.prems(1)]
      by (cases "elems q") auto
  qed
qed simp

end

text \<open>The two calls of the circular array, as a client makes them on an initialized queue.\<close>

definition tq_enq :: "TaskQueue \<Rightarrow> addr \<Rightarrow> bool \<times> TaskQueue" where
  "tq_enq q x = (case task_queue_enqueue (Some q) (Some x) of
      (r, q') \<Rightarrow> (r = TASK_QUEUE_OK, the q'))"

definition tq_deq :: "TaskQueue \<Rightarrow> addr option \<times> TaskQueue" where
  "tq_deq q = (case task_queue_dequeue (Some q) True of
      (r, out, q') \<Rightarrow> (if r = TASK_QUEUE_OK then out else None, the q'))"

lemma tq_enq_room:
  "queue_wf q \<Longrightarrow> qsize q \<noteq> capacity q \<Longrightarrow>
     fst (tq_enq q x) \<and> queue_wf (snd (tq_enq q x)) \<and> contents (snd (tq_enq q x)) = contents q @ [x]
     \<and> capacity (snd (tq_enq q x)) = capacity q"
  by (erule (1) enqueue_room [of q x]) (simp add: tq_enq_def)

lemma tq_enq_full: "queue_wf q \<Longrightarrow> qsize q = capacity q \<Longrightarrow> tq_enq q x = (False, q)"
  by (simp add: tq_enq_def enqueue_full)

lemma tq_deq_item:
  "queue_wf q \<Longrightarrow> qsize q \<noteq> 0 \<Longrightarrow>
     fst (tq_deq q) = Some (hd (contents q)) \<and> queue_wf (snd (tq_deq q))
     \<and> contents (snd (tq_deq q)) = tl (contents q) \<and> capacity (snd (tq_deq q)) = capacity q"
  by (erule (1) dequeue_item [of q]) (simp add: tq_deq_def)

lemma tq_deq_empty: "queue_wf q \<Longrightarrow> qsize q = 0 \<Longrightarrow> tq_deq q = (None, q)"
  by (simp add: tq_deq_def dequeue_empty)

interpretation array: bounded_fifo queue_wf contents "\<lambda>q. unat (capacity q)" tq_enq tq_deq
proof unfold_locales
  fix q x assume wf: "queue_wf q"
  show "length (contents q) \<le> unat (capacity q)"
    using wf by (auto simp: length_contents elim!: queue_wfE)
  show "length (contents q) < unat (capacity q) \<Longrightarrow>
      fst (tq_enq q x) \<and> contents (snd (tq_enq q x)) = contents q @ [x]"
    using tq_enq_room [OF wf] contents_full_iff [OF wf] by auto
  show "length (contents q) = unat (capacity q) \<Longrightarrow>
      \<not> fst (tq_enq q x) \<and> contents (snd (tq_enq q x)) = contents q"
    using wf by (simp add: contents_full_iff tq_enq_full)
  show "queue_wf (snd (tq_enq q x)) \<and> unat (capacity (snd (tq_enq q x))) = unat (capacity q)"
    using wf tq_enq_room [OF wf, of x] tq_enq_full [OF wf, of x]
    by (cases "qsize q = capacity q") auto
  show "contents q \<noteq> [] \<Longrightarrow>
      fst (tq_deq q) = Some (hd (contents q)) \<and> contents (snd (tq_deq q)) = tl (contents q)"
    using tq_deq_item [OF wf] contents_empty_iff [OF wf] by simp
  show "contents q = [] \<Longrightarrow> fst (tq_deq q) = None \<and> contents (snd (tq_deq q)) = []"
    using wf contents_empty_iff [OF wf] by (simp add: tq_deq_empty)
  show "queue_wf (snd (tq_deq q)) \<and> unat (capacity (snd (tq_deq q))) = unat (capacity q)"
    using wf tq_deq_item [OF wf] tq_deq_empty [OF wf] by (cases "qsize q = 0") auto
qed

section \<open>Properties\<close>


lemma init_ok_wf:
  assumes "run_state (task_queue_init (Some raw) cap) w = ((TASK_QUEUE_OK, Some q), w')"
  shows "queue_wf q" "contents q = []" "capacity q = cap"
    "\<exists>a. map_option fst (items q) = Some a \<and> w' = w\<lparr>next_block := Suc a, live := insert a (live w),
        fate := fate w'\<rparr> \<and> a = next_block w"
  using assms init_wf [of cap _ raw]
  by (auto simp: task_queue_init_def allocate_def run_ask not_less
      split: if_splits option.splits prod.splits list.splits)

text \<open>
  C26. First in, first out, on every run: whatever sequence of enqueue and dequeue calls a
  client makes on a queue that \<open>task_queue_init\<close> set up, the pointers that came out followed by
  the pointers still queued are exactly the pointers that enqueue accepted, in the order it
  accepted them. The array stays well-formed, so every free slot is null, and the queue never
  holds more than its capacity.
\<close>

theorem task_queue_fifo:
  assumes "run_state (task_queue_init (Some raw) cap) w = ((TASK_QUEUE_OK, Some q), w')"
    and "fifo_run tq_enq tq_deq cs q = (ins, outs, q')"
  shows "outs @ contents q' = ins \<and> queue_wf q' \<and> length (contents q') \<le> unat cap
    \<and> capacity q' = cap"
proof -
  note init = init_ok_wf [OF assms(1)]
  have "queue_wf q'" "unat (capacity q') = unat cap"
    using array.run_keeps [OF init(1) assms(2)] init(3) by auto
  moreover have "outs @ contents q' = ins"
    using array.run_fifo [OF init(1) assms(2)] init(2) by simp
  ultimately show ?thesis using array.bounded [of q'] unat_eq_iff [of "capacity q'" cap] by auto
qed

theorem task_queue_fifo_witness:
  "fifo_run tq_enq tq_deq [Enq 10, Enq 20, Enq 30, Deq, Enq 40, Deq, Deq, Deq]
     \<lparr>items = Some (0, [None, None]), capacity = 2, qsize = 0, head = 0, tail = 0\<rparr>
   = ([10, 20, 40], [10, 20, 40],
      \<lparr>items = Some (0, [None, None]), capacity = 2, qsize = 0, head = 1, tail = 1\<rparr>)
   \<and> [10, 20, 40] @ contents \<lparr>items = Some (0, [None, None]), capacity = 2, qsize = 0,
         head = 1, tail = 1\<rparr> = [10, 20, 40]"
proof -
  let ?w = "\<lparr>next_block = 0, live = {}, sections = {}, held = [], handles = {}, wakes = [],
     fate = [], misuse = False\<rparr>"
  let ?q = "\<lparr>items = Some (0, [None, None]), capacity = 2, qsize = 0, head = 0, tail = 0\<rparr>"
  let ?q' = "\<lparr>items = Some (0, [None, None]), capacity = 2, qsize = 0, head = 1, tail = 1\<rparr>"
  let ?cs = "[Enq 10, Enq 20, Enq 30, Deq, Enq 40, Deq, Deq, Deq]"
  have two: "replicate 2 None = [None, None]" by (simp add: numeral_2_eq_2)
  have init: "run_state (task_queue_init (Some zero_queue) 2) ?w
      = ((TASK_QUEUE_OK, Some ?q), ?w\<lparr>next_block := 1, live := {0}\<rparr>)"
    by (simp add: task_queue_init_def zero_queue_def allocate_def run_ask two)
  have run: "fifo_run tq_enq tq_deq ?cs ?q = ([10, 20, 40], [10, 20, 40], ?q')"
    by (simp add: tq_enq_def tq_deq_def queue_op_defs Let_def)
  show ?thesis using run task_queue_fifo [OF init run] by blast
qed

text \<open>
  The array operations refine a bounded list: on a well-formed queue the result, the
  pointer handed out and the new contents of enqueue, dequeue and peek, and the four queries, are
  those of the list of queued pointers; the block the array lives in never changes.
\<close>

lemma task_queue_refines_list:
  assumes "queue_wf q"
  shows "(\<exists>q'. task_queue_enqueue (Some q) (Some x)
      = (if length (contents q) = unat (capacity q) then TASK_QUEUE_ERROR_FULL else TASK_QUEUE_OK, Some q')
    \<and> contents q' = (if length (contents q) = unat (capacity q) then contents q else contents q @ [x])
    \<and> queue_wf q' \<and> map_option fst (items q') = map_option fst (items q))
    \<and> (\<exists>q'. task_queue_dequeue (Some q) True
      = (if contents q = [] then (TASK_QUEUE_ERROR_EMPTY, None, Some q')
         else (TASK_QUEUE_OK, Some (hd (contents q)), Some q'))
    \<and> contents q' = tl (contents q) \<and> queue_wf q'
    \<and> map_option fst (items q') = map_option fst (items q))
    \<and> task_queue_peek (Some q) True
      = (if contents q = [] then (TASK_QUEUE_ERROR_EMPTY, None)
         else (TASK_QUEUE_OK, Some (hd (contents q))))
    \<and> (task_queue_is_empty (Some q) \<longleftrightarrow> contents q = [])
    \<and> (task_queue_is_full (Some q) \<longleftrightarrow> length (contents q) = unat (capacity q))
    \<and> unat (task_queue_size (Some q)) = length (contents q)"
    (is "?enq \<and> ?deq \<and> ?peek \<and> ?empty \<and> ?full \<and> ?size")
proof (intro conjI)
  note empty = contents_empty_iff [OF assms] and full = contents_full_iff [OF assms]
  show ?enq
    using assms enqueue_full [OF assms, of x] enqueue_room [OF assms, of x]
    by (cases "qsize q = capacity q") (auto simp: full)
  show ?deq
  proof (cases "qsize q = 0")
    case True
    then have "contents q = []" using empty by simp
    with True assms show ?thesis by (simp add: dequeue_empty)
  next
    case False
    then show ?thesis using empty by (rule_tac dequeue_item [OF assms]) auto
  qed
  show ?peek
    using assms peek_item [OF assms] by (cases "qsize q = 0") (simp_all add: empty task_queue_peek_def wf_shape)
  show ?empty by (simp add: task_queue_is_empty_def empty)
  show ?full using assms by (auto simp: task_queue_is_full_def full queue_wf_def split: option.splits)
  show ?size using assms by (simp add: task_queue_size_def length_contents)
qed

lemma task_queue_refines_list_witness:
  "queue_wf \<lparr>items = Some (3, [Some 9, None, Some 7]), capacity = 3, qsize = 2, head = 2, tail = 1\<rparr>
   \<and> task_queue_peek (Some \<lparr>items = Some (3, [Some 9, None, Some 7]), capacity = 3, qsize = 2,
        head = 2, tail = 1\<rparr>) True = (TASK_QUEUE_OK, Some 7)"
proof -
  let ?q = "\<lparr>items = Some (3, [Some 9, None, Some 7]), capacity = 3, qsize = 2, head = 2, tail = 1\<rparr>"
  have wf: "queue_wf ?q" by (simp add: queue_wf_def ring_def upt_rec)
  have "contents ?q = [7, 9]" by (simp add: contents_def ring_def upt_rec)
  with wf task_queue_refines_list [OF wf] show ?thesis by simp
qed



end
