(* ===== verification/Platform_Sync.thy ===== *)
theory Platform_Sync
  imports Native
begin

text \<open>
  The platform layer (\<open>src/platform/sync.h\<close>, \<open>src/platform/windows/sync_windows.c\<close>): mutexes,
  condition variables and threads as wrappers that own one or two heap blocks around a native
  object. Every function is modelled with its argument checks, its allocations and its
  clean-up; the native calls are entries of the ledger in \<open>Native\<close>.
\<close>

section \<open>Data\<close>

datatype SchedSyncResult =
    SCHED_SYNC_OK
  | SCHED_SYNC_ERROR_INVALID_ARGUMENT
  | SCHED_SYNC_ERROR_SYSTEM

record SchedMutex =
  mutex_impl :: "addr option"

record SchedCondition =
  cond_impl :: "addr option"

type_synonym fnptr = nat

text \<open>An untyped pointer is to a block or to an element of an array that fills a block.\<close>

datatype pointer = Block addr | Element addr nat

record WindowsThreadStart =
  start_block :: addr
  start_function :: fnptr
  user_context :: pointer
  start_result :: int

record WindowsThread =
  thread_block :: addr
  handle :: addr
  start :: WindowsThreadStart

record SchedThread =
  thread_impl :: "WindowsThread option"

text \<open>
  The thread's body stores what the started function returns where \<open>sched_thread_join\<close> reads
  it; \<open>call\<close> is the program's own function behind the pointer.
\<close>

definition windows_thread_entry ::
  "(fnptr \<Rightarrow> pointer \<Rightarrow> int) \<Rightarrow> WindowsThreadStart \<Rightarrow> int \<times> WindowsThreadStart" where
  "windows_thread_entry call s = (0, s\<lparr>start_result := call (start_function s) (user_context s)\<rparr>)"

section \<open>Mutexes\<close>

definition sched_mutex_init ::
  "SchedMutex option \<Rightarrow> (SchedSyncResult \<times> SchedMutex option) native" where
  "sched_mutex_init mutex = (case mutex of
      None \<Rightarrow> ret (SCHED_SYNC_ERROR_INVALID_ARGUMENT, None)
    | Some m \<Rightarrow> do {
        implementation \<leftarrow> allocate;
        (case implementation of
           None \<Rightarrow> ret (SCHED_SYNC_ERROR_SYSTEM, Some m)
         | Some a \<Rightarrow> do {
             ok \<leftarrow> InitializeCriticalSectionEx a;
             if \<not> ok then do { free (Some a); ret (SCHED_SYNC_ERROR_SYSTEM, Some m) }
             else ret (SCHED_SYNC_OK, Some (m\<lparr>mutex_impl := Some a\<rparr>)) }) })"

definition sched_mutex_destroy :: "SchedMutex option \<Rightarrow> SchedMutex option native" where
  "sched_mutex_destroy mutex = (case mutex of
      None \<Rightarrow> ret None
    | Some m \<Rightarrow> (case mutex_impl m of
        None \<Rightarrow> ret (Some m)
      | Some a \<Rightarrow> do {
          DeleteCriticalSection a;
          free (Some a);
          ret (Some (m\<lparr>mutex_impl := None\<rparr>)) }))"

definition sched_mutex_lock :: "SchedMutex option \<Rightarrow> SchedSyncResult native" where
  "sched_mutex_lock mutex = (case Option.bind mutex mutex_impl of
      None \<Rightarrow> ret SCHED_SYNC_ERROR_INVALID_ARGUMENT
    | Some a \<Rightarrow> do { EnterCriticalSection a; ret SCHED_SYNC_OK })"

definition sched_mutex_unlock :: "SchedMutex option \<Rightarrow> SchedSyncResult native" where
  "sched_mutex_unlock mutex = (case Option.bind mutex mutex_impl of
      None \<Rightarrow> ret SCHED_SYNC_ERROR_INVALID_ARGUMENT
    | Some a \<Rightarrow> do { LeaveCriticalSection a; ret SCHED_SYNC_OK })"

section \<open>Condition variables\<close>

definition sched_condition_init ::
  "SchedCondition option \<Rightarrow> (SchedSyncResult \<times> SchedCondition option) native" where
  "sched_condition_init condition = (case condition of
      None \<Rightarrow> ret (SCHED_SYNC_ERROR_INVALID_ARGUMENT, None)
    | Some c \<Rightarrow> do {
        implementation \<leftarrow> allocate;
        (case implementation of
           None \<Rightarrow> ret (SCHED_SYNC_ERROR_SYSTEM, Some c)
         | Some a \<Rightarrow> ret (SCHED_SYNC_OK, Some (c\<lparr>cond_impl := Some a\<rparr>))) })"

definition sched_condition_destroy :: "SchedCondition option \<Rightarrow> SchedCondition option native" where
  "sched_condition_destroy condition = (case condition of
      None \<Rightarrow> ret None
    | Some c \<Rightarrow> (case cond_impl c of
        None \<Rightarrow> ret (Some c)
      | Some a \<Rightarrow> do { free (Some a); ret (Some (c\<lparr>cond_impl := None\<rparr>)) }))"

text \<open>
  A wait is two halves with other threads in between: \<^term>\<open>None\<close> from the first half means
  that the thread has gone to sleep, otherwise the wait returned at once.
\<close>

definition sched_condition_wait_begin ::
  "SchedCondition option \<Rightarrow> SchedMutex option \<Rightarrow> SchedSyncResult option native" where
  "sched_condition_wait_begin condition mutex =
     (case (Option.bind condition cond_impl, Option.bind mutex mutex_impl) of
        (Some c, Some m) \<Rightarrow> do { sleep_begin m; ret None }
      | _ \<Rightarrow> ret (Some SCHED_SYNC_ERROR_INVALID_ARGUMENT))"

definition sched_condition_wait_end :: "SchedMutex option \<Rightarrow> SchedSyncResult native" where
  "sched_condition_wait_end mutex = (case Option.bind mutex mutex_impl of
      None \<Rightarrow> ret SCHED_SYNC_ERROR_INVALID_ARGUMENT
    | Some m \<Rightarrow> do {
        ok \<leftarrow> sleep_end m;
        ret (if ok then SCHED_SYNC_OK else SCHED_SYNC_ERROR_SYSTEM) })"

definition sched_condition_signal :: "SchedCondition option \<Rightarrow> SchedSyncResult native" where
  "sched_condition_signal condition = (case Option.bind condition cond_impl of
      None \<Rightarrow> ret SCHED_SYNC_ERROR_INVALID_ARGUMENT
    | Some a \<Rightarrow> do { WakeConditionVariable a; ret SCHED_SYNC_OK })"

definition sched_condition_broadcast :: "SchedCondition option \<Rightarrow> SchedSyncResult native" where
  "sched_condition_broadcast condition = (case Option.bind condition cond_impl of
      None \<Rightarrow> ret SCHED_SYNC_ERROR_INVALID_ARGUMENT
    | Some a \<Rightarrow> do { WakeAllConditionVariable a; ret SCHED_SYNC_OK })"

section \<open>Threads\<close>

definition sched_thread_create ::
  "SchedThread option \<Rightarrow> fnptr option \<Rightarrow> pointer \<Rightarrow> (SchedSyncResult \<times> SchedThread option) native" where
  "sched_thread_create thread function context = (case (thread, function) of
      (Some t, Some f) \<Rightarrow> do {
        implementation \<leftarrow> allocate;
        (case implementation of
           None \<Rightarrow> ret (SCHED_SYNC_ERROR_SYSTEM, Some t)
         | Some i \<Rightarrow> do {
             start \<leftarrow> allocate;
             (case start of
                None \<Rightarrow> do { free (Some i); ret (SCHED_SYNC_ERROR_SYSTEM, Some t) }
              | Some s \<Rightarrow> do {
                  native_handle \<leftarrow> beginthreadex;
                  (case native_handle of
                     None \<Rightarrow> do {
                       free (Some s);
                       free (Some i);
                       ret (SCHED_SYNC_ERROR_SYSTEM, Some t) }
                   | Some h \<Rightarrow> ret (SCHED_SYNC_OK, Some (t\<lparr>thread_impl := Some
                       \<lparr>thread_block = i, handle = h,
                        start = \<lparr>start_block = s, start_function = f, user_context = context,
                                 start_result = 0\<rparr>\<rparr>\<rparr>))) }) }) }
    | _ \<Rightarrow> ret (SCHED_SYNC_ERROR_INVALID_ARGUMENT, thread))"

text \<open>The output of join is what it wrote through \<open>result\<close>, if anything.\<close>

definition sched_thread_join ::
  "SchedThread option \<Rightarrow> bool \<Rightarrow> (SchedSyncResult \<times> int option) native" where
  "sched_thread_join thread result = (case Option.bind thread thread_impl of
      None \<Rightarrow> ret (SCHED_SYNC_ERROR_INVALID_ARGUMENT, None)
    | Some i \<Rightarrow> do {
        ok \<leftarrow> WaitForSingleObject (handle i);
        if \<not> ok then ret (SCHED_SYNC_ERROR_SYSTEM, None)
        else ret (SCHED_SYNC_OK, if result then Some (start_result (start i)) else None) })"

definition sched_thread_destroy :: "SchedThread option \<Rightarrow> SchedThread option native" where
  "sched_thread_destroy thread = (case thread of
      None \<Rightarrow> ret None
    | Some t \<Rightarrow> (case thread_impl t of
        None \<Rightarrow> ret (Some t)
      | Some i \<Rightarrow> do {
          CloseHandle (handle i);
          free (Some (start_block (start i)));
          free (Some (thread_block i));
          ret (Some (t\<lparr>thread_impl := None\<rparr>)) }))"

lemmas sync_op_defs = sched_mutex_init_def sched_mutex_destroy_def sched_mutex_lock_def
  sched_mutex_unlock_def sched_condition_init_def sched_condition_destroy_def
  sched_condition_wait_begin_def sched_condition_wait_end_def sched_condition_signal_def
  sched_condition_broadcast_def sched_thread_create_def sched_thread_join_def
  sched_thread_destroy_def

section \<open>The primitives on live handles\<close>

lemma run_lock [sync_simps]:
  "mutex_impl m = Some a \<Longrightarrow> a \<in> sections w \<Longrightarrow>
     run_state (sched_mutex_lock (Some m)) w = (SCHED_SYNC_OK, w\<lparr>held := a # held w\<rparr>)"
  by (simp add: sched_mutex_lock_def EnterCriticalSection_def)

lemma run_unlock [sync_simps]:
  "mutex_impl m = Some a \<Longrightarrow> a \<in> sections w \<Longrightarrow> a \<in> set (held w) \<Longrightarrow>
     run_state (sched_mutex_unlock (Some m)) w = (SCHED_SYNC_OK, w\<lparr>held := remove1 a (held w)\<rparr>)"
  by (simp add: sched_mutex_unlock_def LeaveCriticalSection_def)

lemma run_signal [sync_simps]:
  "cond_impl c = Some a \<Longrightarrow>
     run_state (sched_condition_signal (Some c)) w = (SCHED_SYNC_OK, w\<lparr>wakes := wakes w @ [Wake a]\<rparr>)"
  by (simp add: sched_condition_signal_def WakeConditionVariable_def)

lemma run_broadcast [sync_simps]:
  "cond_impl c = Some a \<Longrightarrow>
     run_state (sched_condition_broadcast (Some c)) w
       = (SCHED_SYNC_OK, w\<lparr>wakes := wakes w @ [WakeAll a]\<rparr>)"
  by (simp add: sched_condition_broadcast_def WakeAllConditionVariable_def)

lemma run_wait_begin [sync_simps]:
  "cond_impl c = Some b \<Longrightarrow> mutex_impl m = Some a \<Longrightarrow> a \<in> sections w \<Longrightarrow> a \<in> set (held w) \<Longrightarrow>
     run_state (sched_condition_wait_begin (Some c) (Some m)) w
       = (None, w\<lparr>held := remove1 a (held w)\<rparr>)"
  by (simp add: sched_condition_wait_begin_def sleep_begin_def LeaveCriticalSection_def)

lemma run_wait_end [sync_simps]:
  "mutex_impl m = Some a \<Longrightarrow> a \<in> sections w \<Longrightarrow>
     run_state (sched_condition_wait_end (Some m)) w
       = (if next_answer w then SCHED_SYNC_OK else SCHED_SYNC_ERROR_SYSTEM,
          w\<lparr>held := a # held w, fate := tl (fate w)\<rparr>)"
  by (simp add: sched_condition_wait_end_def sleep_end_def EnterCriticalSection_def run_ask_eq)

section \<open>Creation and destruction keep the ledger in order\<close>

text \<open>Acquiring and releasing the platform objects.\<close>

lemma wp_mutex_init:
  assumes own: "owns w0 w B S H"
    and bad: "\<And>w'. owns w0 w' B S H \<Longrightarrow> P (SCHED_SYNC_ERROR_SYSTEM, Some m) w'"
    and good: "\<And>a w'. a \<notin> B \<Longrightarrow> a \<notin> S \<Longrightarrow> owns w0 w' (insert a B) (insert a S) H
         \<Longrightarrow> P (SCHED_SYNC_OK, Some (m\<lparr>mutex_impl := Some a\<rparr>)) w'"
  shows "wp (sched_mutex_init (Some m)) P w"
  unfolding sched_mutex_init_def option.case wp_bind
proof (rule wp_allocate [OF own])
  fix a w1 assume a: "a \<notin> B" "owns w0 w1 (insert a B) S H"
  then have "a \<notin> S" using own by (auto dest: owns_sections_blocks)
  with a bad good show "wp (case Some a of None \<Rightarrow> ret (SCHED_SYNC_ERROR_SYSTEM, Some m)
      | Some a \<Rightarrow> State_Monad.bind (InitializeCriticalSectionEx a)
           (\<lambda>ok. if \<not> ok then State_Monad.bind (free (Some a))
                  (\<lambda>_. ret (SCHED_SYNC_ERROR_SYSTEM, Some m))
              else ret (SCHED_SYNC_OK, Some (m\<lparr>mutex_impl := Some a\<rparr>)))) P w1"
    by (auto intro!: wp_init_section [OF a(2)] wp_free)
qed (use bad in simp)

lemma wp_mutex_destroy:
  assumes "owns w0 w B S H" "mutex_impl m = Some a" "a \<in> B" "a \<in> S"
    and "\<And>w'. owns w0 w' (B - {a}) (S - {a}) H \<Longrightarrow> P (Some (m\<lparr>mutex_impl := None\<rparr>)) w'"
  shows "wp (sched_mutex_destroy (Some m)) P w"
  using assms by (auto simp: sched_mutex_destroy_def intro!: wp_delete_section [OF assms(1)] wp_free)

lemma wp_condition_init:
  assumes "owns w0 w B S H"
    and "\<And>w'. owns w0 w' B S H \<Longrightarrow> P (SCHED_SYNC_ERROR_SYSTEM, Some c) w'"
    and "\<And>a w'. a \<notin> B \<Longrightarrow> a \<notin> S \<Longrightarrow> owns w0 w' (insert a B) S H
         \<Longrightarrow> P (SCHED_SYNC_OK, Some (c\<lparr>cond_impl := Some a\<rparr>)) w'"
  shows "wp (sched_condition_init (Some c)) P w"
  using assms owns_sections_blocks [OF assms(1)]
  by (auto simp: sched_condition_init_def intro!: wp_allocate [OF assms(1)])

lemma wp_condition_destroy:
  assumes "owns w0 w B S H" "cond_impl c = Some a" "a \<in> B" "a \<notin> S"
    and "\<And>w'. owns w0 w' (B - {a}) S H \<Longrightarrow> P (Some (c\<lparr>cond_impl := None\<rparr>)) w'"
  shows "wp (sched_condition_destroy (Some c)) P w"
  using assms by (auto simp: sched_condition_destroy_def intro!: wp_free [OF assms(1)])

lemma wp_thread_create:
  assumes own: "owns w0 w B S H"
    and bad: "\<And>w'. owns w0 w' B S H \<Longrightarrow> P (SCHED_SYNC_ERROR_SYSTEM, Some t) w'"
    and good: "\<And>i s h w'. i \<notin> B \<Longrightarrow> s \<notin> insert i B \<Longrightarrow> h \<notin> H
         \<Longrightarrow> owns w0 w' (insert s (insert i B)) S (insert h H)
         \<Longrightarrow> P (SCHED_SYNC_OK, Some (t\<lparr>thread_impl := Some \<lparr>thread_block = i, handle = h,
                start = \<lparr>start_block = s, start_function = f, user_context = c, start_result = 0\<rparr>\<rparr>\<rparr>)) w'"
  shows "wp (sched_thread_create (Some t) (Some f) c) P w"
proof -
  have fin: "wp (free (Some a)) (\<lambda>_. P (SCHED_SYNC_ERROR_SYSTEM, Some t)) w'"
    if "owns w0 w' (insert a B) S H" "a \<notin> B" for a w'
    using that bad owns_sections_blocks [OF own] by (auto intro!: wp_free [OF that(1)])
  have fin2: "wp (free (Some b)) (\<lambda>_. wp (free (Some a)) (\<lambda>_. P (SCHED_SYNC_ERROR_SYSTEM, Some t))) w'"
    if "owns w0 w' (insert b (insert a B)) S H" "a \<notin> B" "b \<notin> insert a B" for a b w'
    using that owns_sections_blocks [OF own] by (auto intro!: wp_free [OF that(1)] fin)
  have started: "wp beginthreadex (\<lambda>r. wp (case r of
        None \<Rightarrow> State_Monad.bind (free (Some s)) (\<lambda>_. State_Monad.bind (free (Some i))
                (\<lambda>_. ret (SCHED_SYNC_ERROR_SYSTEM, Some t)))
      | Some h \<Rightarrow> ret (SCHED_SYNC_OK, Some (t\<lparr>thread_impl := Some \<lparr>thread_block = i, handle = h,
                start = \<lparr>start_block = s, start_function = f, user_context = c, start_result = 0\<rparr>\<rparr>\<rparr>))) P) w'"
    if "owns w0 w' (insert s (insert i B)) S H" "i \<notin> B" "s \<notin> insert i B" for i s w'
    using that good fin2 by (auto intro!: wp_beginthreadex [OF that(1)])
  show ?thesis
    unfolding sched_thread_create_def prod.case option.case wp_bind
  proof (rule wp_allocate [OF own], goal_cases)
    case (1 w')
    then show ?case by (simp add: bad)
  next
    case (2 a w')
    from 2 show ?case
      apply simp
      apply (rule wp_allocate [OF 2(3)])
       apply (simp add: fin)
      apply simp
      apply (rule started)
        apply simp_all
      done
  qed
qed

lemma wp_thread_destroy:
  assumes "owns w0 w B S H" "thread_impl t = Some i" "handle i \<in> H"
    "thread_block i \<in> B" "start_block (start i) \<in> B" "thread_block i \<noteq> start_block (start i)"
    "thread_block i \<notin> S" "start_block (start i) \<notin> S"
    and "\<And>w'. owns w0 w' (B - {start_block (start i)} - {thread_block i}) S (H - {handle i})
           \<Longrightarrow> P (Some (t\<lparr>thread_impl := None\<rparr>)) w'"
  shows "wp (sched_thread_destroy (Some t)) P w"
  unfolding sched_thread_destroy_def using assms(2-9)
  apply simp
  apply (rule wp_close_handle [OF assms(1)], simp)
  apply (rule wp_free, assumption, simp, simp)
  apply (rule wp_free, assumption, simp, simp)
  apply simp
  done

lemma ledger_allocate:
  assumes "ledger_ok w" "run_state allocate w = (r, w')"
  shows "ledger_ok w'"
    "w' = w\<lparr>fate := tl (fate w), next_block := next_block w', live := live w'\<rparr>"
    "r = None \<Longrightarrow> live w' = live w"
    "r = Some a \<Longrightarrow> a = next_block w \<and> a \<notin> live w \<and> live w' = insert a (live w)"
  using assms ledger_next_fresh [OF assms(1), of 0]
  by (auto simp: allocate_def run_ask_eq ledger_ok_def less_Suc_eq split: if_splits)

lemma fresh_pair:
  "ledger_ok w \<Longrightarrow> next_block w \<notin> live w \<and> Suc (next_block w) \<notin> live w
     \<and> next_block w \<notin> sections w \<and> Suc (next_block w) \<notin> sections w
     \<and> next_block w \<notin> handles w \<and> Suc (Suc (next_block w)) \<notin> handles w"
  using ledger_below [of w] by fastforce

section \<open>Properties\<close>

text \<open>
  C35. A thread object owns exactly what it was given: whatever native call or allocation
  fails, a \<open>sched_thread_create\<close> that does not succeed leaves the thread object and every
  resource as they were; one that succeeds takes two heap blocks and one handle, and
  \<open>sched_thread_destroy\<close> gives all three back, once each.
\<close>

theorem thread_create_destroy:
  assumes "ledger_ok w" "run_state (sched_thread_create (Some t) (Some f) c) w = ((r, t'), w')"
  shows "(r = SCHED_SYNC_ERROR_SYSTEM \<and> t' = Some t \<and> same_resources w w')
    \<or> (r = SCHED_SYNC_OK \<and> card (live w') = card (live w) + 2 \<and> card (handles w' - handles w) = 1
       \<and> (\<exists>t'' w''. run_state (sched_thread_destroy t') w' = (Some t'', w'')
            \<and> thread_impl t'' = None \<and> same_resources w w''))"
  using assms fresh_pair [OF assms(1)]
  by (auto simp: sched_thread_create_def sched_thread_destroy_def allocate_def beginthreadex_def
      CloseHandle_def run_ask_eq same_resources_def ledger_ok_def insert_Diff_if
      split: if_splits)

theorem thread_create_destroy_witness:
  "\<exists>t'. fst (run_state (sched_thread_create (Some \<lparr>thread_impl = None\<rparr>) (Some 4) (Block 5))
      \<lparr>next_block = 0, live = {}, sections = {}, held = [], handles = {}, wakes = [],
       fate = [True, False], misuse = False\<rparr>) = (SCHED_SYNC_ERROR_SYSTEM, t')
     \<and> t' = Some \<lparr>thread_impl = None\<rparr>"
proof -
  let ?w = "\<lparr>next_block = 0, live = {}, sections = {}, held = [], handles = {}, wakes = [],
     fate = [True, False], misuse = False\<rparr>"
  let ?c = "sched_thread_create (Some \<lparr>thread_impl = None\<rparr>) (Some 4) (Block 5)"
  have ok: "ledger_ok ?w" by (simp add: ledger_ok_def)
  have fails: "fst (fst (run_state ?c ?w)) = SCHED_SYNC_ERROR_SYSTEM"
    by (simp add: sched_thread_create_def allocate_def run_ask)
  obtain r t' w' where run: "run_state ?c ?w = ((r, t'), w')" by (metis prod.collapse)
  with fails thread_create_destroy [OF ok run] have "r = SCHED_SYNC_ERROR_SYSTEM"
    "t' = Some \<lparr>thread_impl = None\<rparr>" by auto
  with run show ?thesis by simp
qed

end
