(* ===== verification/Concurrent_Task_Queue.thy ===== *)
theory Concurrent_Task_Queue
  imports Task_Queue Platform_Sync
begin

text \<open>
  The synchronized queue (\<open>src/concurrent_task_queue.c\<close>,
  \<open>include/concurrent_scheduler/concurrent_task_queue.h\<close>) in the build without the profiling
  counters: a \<^typ>\<open>TaskQueue\<close> with a mutex, two condition variables, the shutdown flag and the
  waiter counts. A call is a native computation that takes the wrapper and returns it as the
  call leaves it. A blocking call can lose the mutex only inside a condition wait, so it is cut
  there: the part up to the wait, and the part from the wait's return to the next wait or the
  end. The macro \<open>CONCURRENT_SCHEDULER_USE_TRANSITION_SIGNALING\<close> is the argument \<open>ts\<close>.
\<close>

section \<open>Data\<close>

datatype ConcurrentTaskQueueResult =
    CONCURRENT_TASK_QUEUE_OK
  | CONCURRENT_TASK_QUEUE_ERROR_INVALID_ARGUMENT
  | CONCURRENT_TASK_QUEUE_ERROR_ALLOCATION
  | CONCURRENT_TASK_QUEUE_ERROR_SYSTEM
  | CONCURRENT_TASK_QUEUE_ERROR_FULL
  | CONCURRENT_TASK_QUEUE_ERROR_EMPTY
  | CONCURRENT_TASK_QUEUE_ERROR_SHUTDOWN
  | CONCURRENT_TASK_QUEUE_OUTSIDE int

text \<open>The private implementation, with the address of its own heap block.\<close>

record ConcurrentTaskQueueImplementation =
  impl_block :: addr
  mutex :: SchedMutex
  not_empty :: SchedCondition
  not_full :: SchedCondition
  shutdown_requested :: bool
  waiting_consumers :: size_t
  waiting_producers :: size_t
  high_water_mark :: size_t

record ConcurrentTaskQueue =
  queue :: TaskQueue
  implementation :: "ConcurrentTaskQueueImplementation option"

definition zero_concurrent_queue :: ConcurrentTaskQueue where
  "zero_concurrent_queue = \<lparr>queue = zero_queue, implementation = None\<rparr>"

text \<open>What \<open>calloc\<close> leaves in a new implementation at address \<open>a\<close>.\<close>

definition zero_implementation :: "addr \<Rightarrow> ConcurrentTaskQueueImplementation" where
  "zero_implementation a = \<lparr>impl_block = a, mutex = \<lparr>mutex_impl = None\<rparr>,
     not_empty = \<lparr>cond_impl = None\<rparr>, not_full = \<lparr>cond_impl = None\<rparr>, shutdown_requested = False,
     waiting_consumers = 0, waiting_producers = 0, high_water_mark = 0\<rparr>"

section \<open>Result mapping\<close>

definition map_task_queue_result :: "TaskQueueResult \<Rightarrow> ConcurrentTaskQueueResult" where
  "map_task_queue_result r = (case r of
      TASK_QUEUE_OK \<Rightarrow> CONCURRENT_TASK_QUEUE_OK
    | TASK_QUEUE_ERROR_INVALID_ARGUMENT \<Rightarrow> CONCURRENT_TASK_QUEUE_ERROR_INVALID_ARGUMENT
    | TASK_QUEUE_ERROR_ALLOCATION \<Rightarrow> CONCURRENT_TASK_QUEUE_ERROR_ALLOCATION
    | _ \<Rightarrow> CONCURRENT_TASK_QUEUE_ERROR_SYSTEM)"

definition map_sync_result :: "SchedSyncResult \<Rightarrow> ConcurrentTaskQueueResult" where
  "map_sync_result r = (case r of
      SCHED_SYNC_OK \<Rightarrow> CONCURRENT_TASK_QUEUE_OK
    | SCHED_SYNC_ERROR_INVALID_ARGUMENT \<Rightarrow> CONCURRENT_TASK_QUEUE_ERROR_INVALID_ARGUMENT
    | SCHED_SYNC_ERROR_SYSTEM \<Rightarrow> CONCURRENT_TASK_QUEUE_ERROR_SYSTEM)"

section \<open>Initialization and destruction\<close>

definition concurrent_task_queue_init ::
  "ConcurrentTaskQueue option \<Rightarrow> size_t \<Rightarrow>
     (ConcurrentTaskQueueResult \<times> ConcurrentTaskQueue option) native" where
  "concurrent_task_queue_init wrapper cap = (case wrapper of
      None \<Rightarrow> ret (CONCURRENT_TASK_QUEUE_ERROR_INVALID_ARGUMENT, None)
    | Some cq \<Rightarrow>
      if cap = 0 \<or> cap > SIZE_MAX div SIZEOF_TASK_PTR
      then ret (CONCURRENT_TASK_QUEUE_ERROR_INVALID_ARGUMENT, Some cq)
      else do {
        (queue_result, temporary_queue) \<leftarrow> task_queue_init (Some zero_queue) cap;
        if queue_result \<noteq> TASK_QUEUE_OK then ret (map_task_queue_result queue_result, Some cq)
        else do {
          block \<leftarrow> allocate;
          (case block of
             None \<Rightarrow> do {
               task_queue_destroy temporary_queue;
               ret (CONCURRENT_TASK_QUEUE_ERROR_ALLOCATION, Some cq) }
           | Some a \<Rightarrow> do {
               (sync_result, m) \<leftarrow> sched_mutex_init (Some (mutex (zero_implementation a)));
               if sync_result \<noteq> SCHED_SYNC_OK then do {
                 free (Some a);
                 task_queue_destroy temporary_queue;
                 ret (map_sync_result sync_result, Some cq) }
               else do {
                 (sync_result, e) \<leftarrow> sched_condition_init (Some (not_empty (zero_implementation a)));
                 if sync_result \<noteq> SCHED_SYNC_OK then do {
                   sched_mutex_destroy m;
                   free (Some a);
                   task_queue_destroy temporary_queue;
                   ret (map_sync_result sync_result, Some cq) }
                 else do {
                   (sync_result, f) \<leftarrow> sched_condition_init (Some (not_full (zero_implementation a)));
                   if sync_result \<noteq> SCHED_SYNC_OK then do {
                     sched_condition_destroy e;
                     sched_mutex_destroy m;
                     free (Some a);
                     task_queue_destroy temporary_queue;
                     ret (map_sync_result sync_result, Some cq) }
                   else ret (CONCURRENT_TASK_QUEUE_OK,
                     Some (cq\<lparr>queue := the temporary_queue,
                       implementation := Some ((zero_implementation a)\<lparr>mutex := the m,
                         not_empty := the e, not_full := the f\<rparr>)\<rparr>)) } } }) } })"

definition concurrent_task_queue_destroy ::
  "ConcurrentTaskQueue option \<Rightarrow> ConcurrentTaskQueue option native" where
  "concurrent_task_queue_destroy wrapper = (case wrapper of
      None \<Rightarrow> ret None
    | Some cq \<Rightarrow> do {
        (case implementation cq of
           None \<Rightarrow> ret ()
         | Some impl \<Rightarrow> do {
             sched_condition_destroy (Some (not_full impl));
             sched_condition_destroy (Some (not_empty impl));
             sched_mutex_destroy (Some (mutex impl));
             free (Some (impl_block impl)) });
        q \<leftarrow> task_queue_destroy (Some (queue cq));
        ret (Some (cq\<lparr>queue := the q, implementation := None\<rparr>)) })"

section \<open>Shutdown\<close>

definition concurrent_task_queue_shutdown ::
  "ConcurrentTaskQueue option \<Rightarrow>
     (ConcurrentTaskQueueResult \<times> ConcurrentTaskQueue option) native" where
  "concurrent_task_queue_shutdown wrapper =
     (case Option.bind wrapper implementation of
        None \<Rightarrow> ret (CONCURRENT_TASK_QUEUE_ERROR_INVALID_ARGUMENT, wrapper)
      | Some impl \<Rightarrow> do {
          locked \<leftarrow> sched_mutex_lock (Some (mutex impl));
          if locked \<noteq> SCHED_SYNC_OK then ret (CONCURRENT_TASK_QUEUE_ERROR_SYSTEM, wrapper)
          else do {
            let impl' = impl\<lparr>shutdown_requested := True\<rparr>;
            first \<leftarrow> sched_condition_broadcast (Some (not_empty impl));
            second \<leftarrow> sched_condition_broadcast (Some (not_full impl));
            unlocked \<leftarrow> sched_mutex_unlock (Some (mutex impl));
            let synchronization_failed = first \<noteq> SCHED_SYNC_OK \<or> second \<noteq> SCHED_SYNC_OK
              \<or> unlocked \<noteq> SCHED_SYNC_OK;
            ret (if synchronization_failed then CONCURRENT_TASK_QUEUE_ERROR_SYSTEM
                 else CONCURRENT_TASK_QUEUE_OK,
                 map_option (\<lambda>cq. cq\<lparr>implementation := Some impl'\<rparr>) wrapper) } })"

section \<open>Enqueue\<close>

text \<open>Recording a new highest size, after a successful insertion.\<close>

definition raise_high_water ::
  "TaskQueue \<Rightarrow> ConcurrentTaskQueueImplementation \<Rightarrow> ConcurrentTaskQueueImplementation" where
  "raise_high_water q impl =
     (if task_queue_size (Some q) > high_water_mark impl
      then impl\<lparr>high_water_mark := task_queue_size (Some q)\<rparr> else impl)"

text \<open>
  The insertion under the mutex: the result, whether a pointer was inserted, whether the queue
  was empty, and the wrapper. The two callers differ in what a full queue means to them.
\<close>

definition enqueue_body ::
  "ConcurrentTaskQueueResult \<Rightarrow> ConcurrentTaskQueue \<Rightarrow> ConcurrentTaskQueueImplementation \<Rightarrow> addr
     \<Rightarrow> ConcurrentTaskQueueResult \<times> bool \<times> bool \<times> ConcurrentTaskQueue" where
  "enqueue_body on_full cq impl t =
     (if shutdown_requested impl then (CONCURRENT_TASK_QUEUE_ERROR_SHUTDOWN, False, False, cq)
      else (let was_empty = task_queue_is_empty (Some (queue cq)) in
        case task_queue_enqueue (Some (queue cq)) (Some t) of
          (TASK_QUEUE_OK, q') \<Rightarrow> (CONCURRENT_TASK_QUEUE_OK, True, was_empty,
             cq\<lparr>queue := the q', implementation := Some (raise_high_water (the q') impl)\<rparr>)
        | (TASK_QUEUE_ERROR_INVALID_ARGUMENT, q') \<Rightarrow>
             (CONCURRENT_TASK_QUEUE_ERROR_INVALID_ARGUMENT, False, was_empty, cq)
        | (TASK_QUEUE_ERROR_FULL, q') \<Rightarrow> (on_full, False, was_empty, cq)
        | (_, q') \<Rightarrow> (CONCURRENT_TASK_QUEUE_ERROR_SYSTEM, False, was_empty, cq)))"

text \<open>Signalling after the insertion, and unlocking.\<close>

definition enqueue_epilogue ::
  "bool \<Rightarrow> ConcurrentTaskQueueImplementation
     \<Rightarrow> ConcurrentTaskQueueResult \<times> bool \<times> bool \<times> ConcurrentTaskQueue
     \<Rightarrow> (ConcurrentTaskQueueResult \<times> ConcurrentTaskQueue option) native" where
  "enqueue_epilogue ts impl body = (case body of (result, inserted, was_empty, cq') \<Rightarrow> do {
     result \<leftarrow>
       (if inserted \<and> (\<not> ts \<or> was_empty \<or> waiting_consumers impl > 0) then do {
          signalled \<leftarrow> sched_condition_signal (Some (not_empty impl));
          ret (if signalled \<noteq> SCHED_SYNC_OK then CONCURRENT_TASK_QUEUE_ERROR_SYSTEM else result) }
        else ret result);
     unlocked \<leftarrow> sched_mutex_unlock (Some (mutex impl));
     ret (if unlocked \<noteq> SCHED_SYNC_OK then CONCURRENT_TASK_QUEUE_ERROR_SYSTEM else result,
          Some cq') })"

definition concurrent_task_queue_try_enqueue ::
  "bool \<Rightarrow> ConcurrentTaskQueue option \<Rightarrow> task_ptr
     \<Rightarrow> (ConcurrentTaskQueueResult \<times> ConcurrentTaskQueue option) native" where
  "concurrent_task_queue_try_enqueue ts wrapper task =
     (case (wrapper, Option.bind wrapper implementation, task) of
        (Some cq, Some impl, Some t) \<Rightarrow> do {
          locked \<leftarrow> sched_mutex_lock (Some (mutex impl));
          if locked \<noteq> SCHED_SYNC_OK then ret (CONCURRENT_TASK_QUEUE_ERROR_SYSTEM, Some cq)
          else enqueue_epilogue ts impl (enqueue_body CONCURRENT_TASK_QUEUE_ERROR_FULL cq impl t) }
      | _ \<Rightarrow> ret (CONCURRENT_TASK_QUEUE_ERROR_INVALID_ARGUMENT, wrapper))"

text \<open>Where a blocking call is after one of its parts: asleep in its wait, or back.\<close>

datatype 'r progress = Asleep | Returned 'r

text \<open>The wait loop of the blocking enqueue from its test on, and what follows the loop.\<close>

definition enqueue_loop ::
  "bool \<Rightarrow> ConcurrentTaskQueue \<Rightarrow> ConcurrentTaskQueueImplementation \<Rightarrow> addr
     \<Rightarrow> (ConcurrentTaskQueueResult progress \<times> ConcurrentTaskQueue option) native" where
  "enqueue_loop ts cq impl t =
     (if \<not> shutdown_requested impl \<and> task_queue_is_full (Some (queue cq)) then do {
        waited \<leftarrow> sched_condition_wait_begin (Some (not_full impl)) (Some (mutex impl));
        (case waited of
           None \<Rightarrow> ret (Asleep, Some (cq\<lparr>implementation :=
             Some (impl\<lparr>waiting_producers := waiting_producers impl + 1\<rparr>)\<rparr>))
         | Some failed \<Rightarrow> do {
             sched_mutex_unlock (Some (mutex impl));
             ret (Returned CONCURRENT_TASK_QUEUE_ERROR_SYSTEM, Some cq) }) }
      else do {
        (result, wrapper) \<leftarrow> enqueue_epilogue ts impl
           (enqueue_body CONCURRENT_TASK_QUEUE_ERROR_SYSTEM cq impl t);
        ret (Returned result, wrapper) })"

definition concurrent_task_queue_enqueue_begin ::
  "bool \<Rightarrow> ConcurrentTaskQueue option \<Rightarrow> task_ptr
     \<Rightarrow> (ConcurrentTaskQueueResult progress \<times> ConcurrentTaskQueue option) native" where
  "concurrent_task_queue_enqueue_begin ts wrapper task =
     (case (wrapper, Option.bind wrapper implementation, task) of
        (Some cq, Some impl, Some t) \<Rightarrow> do {
          locked \<leftarrow> sched_mutex_lock (Some (mutex impl));
          if locked \<noteq> SCHED_SYNC_OK
          then ret (Returned CONCURRENT_TASK_QUEUE_ERROR_SYSTEM, Some cq)
          else enqueue_loop ts cq impl t }
      | _ \<Rightarrow> ret (Returned CONCURRENT_TASK_QUEUE_ERROR_INVALID_ARGUMENT, wrapper))"

definition concurrent_task_queue_enqueue_resume ::
  "bool \<Rightarrow> ConcurrentTaskQueue \<Rightarrow> ConcurrentTaskQueueImplementation \<Rightarrow> addr
     \<Rightarrow> (ConcurrentTaskQueueResult progress \<times> ConcurrentTaskQueue option) native" where
  "concurrent_task_queue_enqueue_resume ts cq impl t = do {
     waited \<leftarrow> sched_condition_wait_end (Some (mutex impl));
     let impl = impl\<lparr>waiting_producers := waiting_producers impl - 1\<rparr>;
     let cq = cq\<lparr>implementation := Some impl\<rparr>;
     if waited \<noteq> SCHED_SYNC_OK then do {
       sched_mutex_unlock (Some (mutex impl));
       ret (Returned CONCURRENT_TASK_QUEUE_ERROR_SYSTEM, Some cq) }
     else enqueue_loop ts cq impl t }"

section \<open>Dequeue and peek\<close>

text \<open>
  The removal under the mutex: the result, the pointer removed (if one was), whether the queue
  was full, and the wrapper. The two callers differ in what an empty queue means to them.
\<close>

definition dequeue_body ::
  "ConcurrentTaskQueueResult \<Rightarrow> ConcurrentTaskQueue
     \<Rightarrow> ConcurrentTaskQueueResult \<times> task_ptr \<times> bool \<times> ConcurrentTaskQueue" where
  "dequeue_body on_empty cq =
     (if task_queue_is_empty (Some (queue cq)) then (on_empty, None, False, cq)
      else (let was_full = task_queue_is_full (Some (queue cq)) in
        case task_queue_dequeue (Some (queue cq)) True of
          (TASK_QUEUE_OK, removed_task, q') \<Rightarrow>
             (CONCURRENT_TASK_QUEUE_OK, removed_task, was_full, cq\<lparr>queue := the q'\<rparr>)
        | (TASK_QUEUE_ERROR_INVALID_ARGUMENT, removed_task, q') \<Rightarrow>
             (CONCURRENT_TASK_QUEUE_ERROR_INVALID_ARGUMENT, None, was_full, cq)
        | (_, removed_task, q') \<Rightarrow> (CONCURRENT_TASK_QUEUE_ERROR_SYSTEM, None, was_full, cq)))"

text \<open>
  Signalling after the removal, unlocking, and only then publishing the pointer, also when
  signalling or unlocking failed.
\<close>

definition dequeue_epilogue ::
  "bool \<Rightarrow> ConcurrentTaskQueueImplementation
     \<Rightarrow> ConcurrentTaskQueueResult \<times> task_ptr \<times> bool \<times> ConcurrentTaskQueue
     \<Rightarrow> ((ConcurrentTaskQueueResult \<times> task_ptr) \<times> ConcurrentTaskQueue option) native" where
  "dequeue_epilogue ts impl body = (case body of (result, removed_task, was_full, cq') \<Rightarrow> do {
     result \<leftarrow>
       (if removed_task \<noteq> None \<and> (\<not> ts \<or> was_full \<or> waiting_producers impl > 0) then do {
          signalled \<leftarrow> sched_condition_signal (Some (not_full impl));
          ret (if signalled \<noteq> SCHED_SYNC_OK then CONCURRENT_TASK_QUEUE_ERROR_SYSTEM else result) }
        else ret result);
     unlocked \<leftarrow> sched_mutex_unlock (Some (mutex impl));
     ret ((if unlocked \<noteq> SCHED_SYNC_OK then CONCURRENT_TASK_QUEUE_ERROR_SYSTEM else result,
           removed_task), Some cq') })"

text \<open>The flag \<open>out\<close> says whether the caller passed a non-null output pointer.\<close>

definition concurrent_task_queue_try_dequeue ::
  "bool \<Rightarrow> ConcurrentTaskQueue option \<Rightarrow> bool
     \<Rightarrow> ((ConcurrentTaskQueueResult \<times> task_ptr) \<times> ConcurrentTaskQueue option) native" where
  "concurrent_task_queue_try_dequeue ts wrapper out =
     (case (wrapper, Option.bind wrapper implementation, out) of
        (Some cq, Some impl, True) \<Rightarrow> do {
          locked \<leftarrow> sched_mutex_lock (Some (mutex impl));
          if locked \<noteq> SCHED_SYNC_OK then ret ((CONCURRENT_TASK_QUEUE_ERROR_SYSTEM, None), Some cq)
          else dequeue_epilogue ts impl (dequeue_body
            (if shutdown_requested impl then CONCURRENT_TASK_QUEUE_ERROR_SHUTDOWN
             else CONCURRENT_TASK_QUEUE_ERROR_EMPTY) cq) }
      | _ \<Rightarrow> ret ((CONCURRENT_TASK_QUEUE_ERROR_INVALID_ARGUMENT, None), wrapper))"

definition dequeue_loop ::
  "bool \<Rightarrow> ConcurrentTaskQueue \<Rightarrow> ConcurrentTaskQueueImplementation
     \<Rightarrow> ((ConcurrentTaskQueueResult \<times> task_ptr) progress \<times> ConcurrentTaskQueue option) native" where
  "dequeue_loop ts cq impl =
     (if \<not> shutdown_requested impl \<and> task_queue_is_empty (Some (queue cq)) then do {
        waited \<leftarrow> sched_condition_wait_begin (Some (not_empty impl)) (Some (mutex impl));
        (case waited of
           None \<Rightarrow> ret (Asleep, Some (cq\<lparr>implementation :=
             Some (impl\<lparr>waiting_consumers := waiting_consumers impl + 1\<rparr>)\<rparr>))
         | Some failed \<Rightarrow> do {
             sched_mutex_unlock (Some (mutex impl));
             ret (Returned (CONCURRENT_TASK_QUEUE_ERROR_SYSTEM, None), Some cq) }) }
      else do {
        (result, wrapper) \<leftarrow> dequeue_epilogue ts impl
           (dequeue_body CONCURRENT_TASK_QUEUE_ERROR_SHUTDOWN cq);
        ret (Returned result, wrapper) })"

definition concurrent_task_queue_dequeue_begin ::
  "bool \<Rightarrow> ConcurrentTaskQueue option \<Rightarrow> bool
     \<Rightarrow> ((ConcurrentTaskQueueResult \<times> task_ptr) progress \<times> ConcurrentTaskQueue option) native" where
  "concurrent_task_queue_dequeue_begin ts wrapper out =
     (case (wrapper, Option.bind wrapper implementation, out) of
        (Some cq, Some impl, True) \<Rightarrow> do {
          locked \<leftarrow> sched_mutex_lock (Some (mutex impl));
          if locked \<noteq> SCHED_SYNC_OK
          then ret (Returned (CONCURRENT_TASK_QUEUE_ERROR_SYSTEM, None), Some cq)
          else dequeue_loop ts cq impl }
      | _ \<Rightarrow> ret (Returned (CONCURRENT_TASK_QUEUE_ERROR_INVALID_ARGUMENT, None), wrapper))"

definition concurrent_task_queue_dequeue_resume ::
  "bool \<Rightarrow> ConcurrentTaskQueue \<Rightarrow> ConcurrentTaskQueueImplementation
     \<Rightarrow> ((ConcurrentTaskQueueResult \<times> task_ptr) progress \<times> ConcurrentTaskQueue option) native" where
  "concurrent_task_queue_dequeue_resume ts cq impl = do {
     waited \<leftarrow> sched_condition_wait_end (Some (mutex impl));
     let impl = impl\<lparr>waiting_consumers := waiting_consumers impl - 1\<rparr>;
     let cq = cq\<lparr>implementation := Some impl\<rparr>;
     if waited \<noteq> SCHED_SYNC_OK then do {
       sched_mutex_unlock (Some (mutex impl));
       ret (Returned (CONCURRENT_TASK_QUEUE_ERROR_SYSTEM, None), Some cq) }
     else dequeue_loop ts cq impl }"

definition concurrent_task_queue_try_peek ::
  "ConcurrentTaskQueue option \<Rightarrow> bool \<Rightarrow> (ConcurrentTaskQueueResult \<times> task_ptr) native" where
  "concurrent_task_queue_try_peek wrapper out =
     (case (wrapper, Option.bind wrapper implementation, out) of
        (Some cq, Some impl, True) \<Rightarrow> do {
          locked \<leftarrow> sched_mutex_lock (Some (mutex impl));
          if locked \<noteq> SCHED_SYNC_OK then ret (CONCURRENT_TASK_QUEUE_ERROR_SYSTEM, None)
          else do {
            let (result, peeked_task) =
              (if task_queue_is_empty (Some (queue cq))
               then (if shutdown_requested impl then CONCURRENT_TASK_QUEUE_ERROR_SHUTDOWN
                     else CONCURRENT_TASK_QUEUE_ERROR_EMPTY, None)
               else (case task_queue_peek (Some (queue cq)) True of
                   (TASK_QUEUE_OK, peeked_task) \<Rightarrow> (CONCURRENT_TASK_QUEUE_OK, peeked_task)
                 | (TASK_QUEUE_ERROR_INVALID_ARGUMENT, _) \<Rightarrow>
                     (CONCURRENT_TASK_QUEUE_ERROR_INVALID_ARGUMENT, None)
                 | _ \<Rightarrow> (CONCURRENT_TASK_QUEUE_ERROR_SYSTEM, None)));
            unlocked \<leftarrow> sched_mutex_unlock (Some (mutex impl));
            ret (if unlocked \<noteq> SCHED_SYNC_OK then CONCURRENT_TASK_QUEUE_ERROR_SYSTEM else result,
                 peeked_task) } }
      | _ \<Rightarrow> ret (CONCURRENT_TASK_QUEUE_ERROR_INVALID_ARGUMENT, None))"

section \<open>Queries\<close>

text \<open>
  The four queries have one shape: a safe default for a null or uninitialized wrapper and when
  the lock fails, otherwise the query of the storage under the mutex.
\<close>

definition locked_query ::
  "'a \<Rightarrow> (TaskQueue option \<Rightarrow> 'a) \<Rightarrow> ConcurrentTaskQueue option \<Rightarrow> 'a native" where
  "locked_query safe_default query wrapper =
     (case (wrapper, Option.bind wrapper implementation) of
        (Some cq, Some impl) \<Rightarrow> do {
          locked \<leftarrow> sched_mutex_lock (Some (mutex impl));
          if locked \<noteq> SCHED_SYNC_OK then ret safe_default
          else do {
            let result = query (Some (queue cq));
            sched_mutex_unlock (Some (mutex impl));
            ret result } }
      | _ \<Rightarrow> ret safe_default)"

definition concurrent_task_queue_is_empty :: "ConcurrentTaskQueue option \<Rightarrow> bool native" where
  "concurrent_task_queue_is_empty = locked_query True task_queue_is_empty"

definition concurrent_task_queue_is_full :: "ConcurrentTaskQueue option \<Rightarrow> bool native" where
  "concurrent_task_queue_is_full = locked_query False task_queue_is_full"

definition concurrent_task_queue_size :: "ConcurrentTaskQueue option \<Rightarrow> size_t native" where
  "concurrent_task_queue_size = locked_query 0 task_queue_size"

definition concurrent_task_queue_capacity :: "ConcurrentTaskQueue option \<Rightarrow> size_t native" where
  "concurrent_task_queue_capacity = locked_query 0 task_queue_capacity"

record ConcurrentTaskQueueRuntimeSnapshot =
  snap_capacity :: size_t
  snap_current_size :: size_t
  snap_high_water_mark :: size_t

text \<open>The snapshot written to the caller, if any.\<close>

definition concurrent_task_queue_capture_runtime_snapshot ::
  "ConcurrentTaskQueue option \<Rightarrow> bool \<Rightarrow> ConcurrentTaskQueueRuntimeSnapshot option native" where
  "concurrent_task_queue_capture_runtime_snapshot wrapper out =
     (case (wrapper, Option.bind wrapper implementation, out) of
        (Some cq, Some impl, True) \<Rightarrow> do {
          locked \<leftarrow> sched_mutex_lock (Some (mutex impl));
          if locked \<noteq> SCHED_SYNC_OK then ret None
          else do {
            let temporary = \<lparr>snap_capacity = task_queue_capacity (Some (queue cq)),
              snap_current_size = task_queue_size (Some (queue cq)),
              snap_high_water_mark = high_water_mark impl\<rparr>;
            unlocked \<leftarrow> sched_mutex_unlock (Some (mutex impl));
            ret (if unlocked \<noteq> SCHED_SYNC_OK then None else Some temporary) } }
      | _ \<Rightarrow> ret None)"

definition concurrent_task_queue_result_name :: "ConcurrentTaskQueueResult \<Rightarrow> string" where
  "concurrent_task_queue_result_name r = (case r of
      CONCURRENT_TASK_QUEUE_OK \<Rightarrow> ''OK''
    | CONCURRENT_TASK_QUEUE_ERROR_INVALID_ARGUMENT \<Rightarrow> ''INVALID_ARGUMENT''
    | CONCURRENT_TASK_QUEUE_ERROR_ALLOCATION \<Rightarrow> ''ALLOCATION_ERROR''
    | CONCURRENT_TASK_QUEUE_ERROR_SYSTEM \<Rightarrow> ''SYSTEM_ERROR''
    | CONCURRENT_TASK_QUEUE_ERROR_FULL \<Rightarrow> ''FULL''
    | CONCURRENT_TASK_QUEUE_ERROR_EMPTY \<Rightarrow> ''EMPTY''
    | CONCURRENT_TASK_QUEUE_ERROR_SHUTDOWN \<Rightarrow> ''SHUTDOWN''
    | CONCURRENT_TASK_QUEUE_OUTSIDE _ \<Rightarrow> ''UNKNOWN'')"

section \<open>The blocking calls as a whole\<close>

text \<open>
  A blocking call from its entry to its return: \<open>others\<close> lists what the rest of the program
  does to the wrapper and the ledger during each sleep of this call. When the list is used up
  while the call sleeps, the call has not returned, and the value is \<^term>\<open>None\<close>.
\<close>

type_synonym interference = "ConcurrentTaskQueue \<times> world \<Rightarrow> ConcurrentTaskQueue \<times> world"

fun finish_call ::
  "(ConcurrentTaskQueue \<Rightarrow> ConcurrentTaskQueueImplementation
      \<Rightarrow> ('r progress \<times> ConcurrentTaskQueue option) native)
     \<Rightarrow> interference list \<Rightarrow> ('r progress \<times> ConcurrentTaskQueue option) \<times> world
     \<Rightarrow> ('r \<times> ConcurrentTaskQueue option \<times> world) option" where
  "finish_call resume others ((Returned r, wrapper), w) = Some (r, wrapper, w)"
| "finish_call resume [] ((Asleep, wrapper), w) = None"
| "finish_call resume (f # others) ((Asleep, wrapper), w) =
     (case wrapper of
        None \<Rightarrow> None
      | Some cq \<Rightarrow> (case f (cq, w) of (cq', w') \<Rightarrow>
          (case implementation cq' of
             None \<Rightarrow> None
           | Some impl \<Rightarrow> finish_call resume others (run_state (resume cq' impl) w'))))"

definition concurrent_task_queue_enqueue ::
  "bool \<Rightarrow> interference list \<Rightarrow> ConcurrentTaskQueue option \<Rightarrow> task_ptr \<Rightarrow> world
     \<Rightarrow> (ConcurrentTaskQueueResult \<times> ConcurrentTaskQueue option \<times> world) option" where
  "concurrent_task_queue_enqueue ts others wrapper task w =
     finish_call (\<lambda>cq impl. concurrent_task_queue_enqueue_resume ts cq impl (the task)) others
       (run_state (concurrent_task_queue_enqueue_begin ts wrapper task) w)"

definition concurrent_task_queue_dequeue ::
  "bool \<Rightarrow> interference list \<Rightarrow> ConcurrentTaskQueue option \<Rightarrow> bool \<Rightarrow> world
     \<Rightarrow> ((ConcurrentTaskQueueResult \<times> task_ptr) \<times> ConcurrentTaskQueue option \<times> world) option" where
  "concurrent_task_queue_dequeue ts others wrapper out w =
     finish_call (\<lambda>cq impl. concurrent_task_queue_dequeue_resume ts cq impl) others
       (run_state (concurrent_task_queue_dequeue_begin ts wrapper out) w)"

end
