(* ===== verification/Concurrent_Queue_Contract.thy ===== *)
theory Concurrent_Queue_Contract
  imports Concurrent_Task_Queue
begin

text \<open>
  What the synchronized queue promises, and that the model of \<open>src/concurrent_task_queue.c\<close>
  keeps it: an abstract queue with its operations, the invariant and the abstraction of a
  wrapper, a refinement lemma for every call, the acquisition and release of a whole queue, the
  contract of a blocking call as a locale with its two interpretations, and the non-blocking
  calls as a second interpretation of the bounded FIFO.
\<close>

section \<open>The contract of the synchronized queue\<close>

text \<open>
  What a client sees of the wrapper: the queued pointers, the bound, the shutdown flag, the two
  waiter counts and the highest size so far. The operations below are the contract: a result,
  the wake-ups issued, and the new abstract queue.
\<close>

record abs_queue =
  elems :: "addr list"
  bound :: nat
  closed :: bool
  consumers :: size_t
  producers :: size_t
  high :: nat

datatype signal = One_consumer | One_producer | All_consumers | All_producers

definition spec_insert :: "bool \<Rightarrow> addr \<Rightarrow> abs_queue \<Rightarrow> signal list \<times> abs_queue" where
  "spec_insert ts t A =
     (if \<not> ts \<or> elems A = [] \<or> consumers A > 0 then [One_consumer] else [],
      A\<lparr>elems := elems A @ [t], high := max (high A) (Suc (length (elems A)))\<rparr>)"

definition spec_remove :: "bool \<Rightarrow> abs_queue \<Rightarrow> signal list \<times> abs_queue" where
  "spec_remove ts A =
     (if \<not> ts \<or> length (elems A) = bound A \<or> producers A > 0 then [One_producer] else [],
      A\<lparr>elems := tl (elems A)\<rparr>)"

definition spec_try_enqueue ::
  "bool \<Rightarrow> addr \<Rightarrow> abs_queue \<Rightarrow> ConcurrentTaskQueueResult \<times> signal list \<times> abs_queue" where
  "spec_try_enqueue ts t A =
     (if closed A then (CONCURRENT_TASK_QUEUE_ERROR_SHUTDOWN, [], A)
      else if length (elems A) = bound A then (CONCURRENT_TASK_QUEUE_ERROR_FULL, [], A)
      else (CONCURRENT_TASK_QUEUE_OK, spec_insert ts t A))"

definition spec_enqueue ::
  "bool \<Rightarrow> addr \<Rightarrow> abs_queue \<Rightarrow> ConcurrentTaskQueueResult progress \<times> signal list \<times> abs_queue" where
  "spec_enqueue ts t A =
     (if closed A then (Returned CONCURRENT_TASK_QUEUE_ERROR_SHUTDOWN, [], A)
      else if length (elems A) = bound A then (Asleep, [], A\<lparr>producers := producers A + 1\<rparr>)
      else (Returned CONCURRENT_TASK_QUEUE_OK, spec_insert ts t A))"

definition spec_try_dequeue ::
  "bool \<Rightarrow> abs_queue \<Rightarrow> (ConcurrentTaskQueueResult \<times> task_ptr) \<times> signal list \<times> abs_queue" where
  "spec_try_dequeue ts A =
     (if elems A = []
      then ((if closed A then CONCURRENT_TASK_QUEUE_ERROR_SHUTDOWN
             else CONCURRENT_TASK_QUEUE_ERROR_EMPTY, None), [], A)
      else ((CONCURRENT_TASK_QUEUE_OK, Some (hd (elems A))), spec_remove ts A))"

definition spec_dequeue ::
  "bool \<Rightarrow> abs_queue
     \<Rightarrow> (ConcurrentTaskQueueResult \<times> task_ptr) progress \<times> signal list \<times> abs_queue" where
  "spec_dequeue ts A =
     (if elems A = []
      then (if closed A then (Returned (CONCURRENT_TASK_QUEUE_ERROR_SHUTDOWN, None), [], A)
            else (Asleep, [], A\<lparr>consumers := consumers A + 1\<rparr>))
      else (Returned (CONCURRENT_TASK_QUEUE_OK, Some (hd (elems A))), spec_remove ts A))"

definition spec_try_peek :: "abs_queue \<Rightarrow> ConcurrentTaskQueueResult \<times> task_ptr" where
  "spec_try_peek A =
     (if elems A = []
      then (if closed A then CONCURRENT_TASK_QUEUE_ERROR_SHUTDOWN
            else CONCURRENT_TASK_QUEUE_ERROR_EMPTY, None)
      else (CONCURRENT_TASK_QUEUE_OK, Some (hd (elems A))))"

lemmas spec_defs = spec_insert_def spec_remove_def spec_try_enqueue_def spec_enqueue_def
  spec_try_dequeue_def spec_dequeue_def spec_try_peek_def

section \<open>Invariant and abstraction\<close>

text \<open>
  A wrapper that is in order in the world \<open>w\<close>: a well-formed array, a live mutex that nobody
  of this thread holds, two condition variables that are not the same, and a high-water mark
  between the size and the capacity.
\<close>

definition impl_ok :: "ConcurrentTaskQueueImplementation \<Rightarrow> world \<Rightarrow> bool" where
  "impl_ok impl w \<longleftrightarrow>
     (case (mutex_impl (mutex impl), cond_impl (not_empty impl), cond_impl (not_full impl)) of
        (Some m, Some e, Some f) \<Rightarrow> m \<in> sections w \<and> m \<notin> set (held w) \<and> e \<noteq> f
      | _ \<Rightarrow> False)"

definition cq_ok :: "ConcurrentTaskQueue \<Rightarrow> world \<Rightarrow> bool" where
  "cq_ok cq w \<longleftrightarrow> queue_wf (queue cq) \<and> (case implementation cq of
      None \<Rightarrow> False
    | Some impl \<Rightarrow> impl_ok impl w \<and> qsize (queue cq) \<le> high_water_mark impl
        \<and> high_water_mark impl \<le> capacity (queue cq))"

definition cq_view :: "ConcurrentTaskQueue \<Rightarrow> abs_queue" where
  "cq_view cq =
     \<lparr>elems = contents (queue cq), bound = unat (capacity (queue cq)),
      closed = shutdown_requested (the (implementation cq)),
      consumers = waiting_consumers (the (implementation cq)),
      producers = waiting_producers (the (implementation cq)),
      high = unat (high_water_mark (the (implementation cq)))\<rparr>"

text \<open>The objects a wrapper owns: its blocks, its mutex and its condition variables.\<close>

definition owned :: "ConcurrentTaskQueue \<Rightarrow>
    addr option \<times> (addr \<times> SchedMutex \<times> SchedCondition \<times> SchedCondition) option" where
  "owned cq = (map_option fst (items (queue cq)),
     map_option (\<lambda>impl. (impl_block impl, mutex impl, not_empty impl, not_full impl))
       (implementation cq))"

text \<open>The contract's wake-ups as the native calls that issue them.\<close>

definition native_wake :: "ConcurrentTaskQueue \<Rightarrow> signal \<Rightarrow> wake" where
  "native_wake cq s = (case s of
      One_consumer \<Rightarrow> Wake (the (cond_impl (not_empty (the (implementation cq)))))
    | One_producer \<Rightarrow> Wake (the (cond_impl (not_full (the (implementation cq)))))
    | All_consumers \<Rightarrow> WakeAll (the (cond_impl (not_empty (the (implementation cq)))))
    | All_producers \<Rightarrow> WakeAll (the (cond_impl (not_full (the (implementation cq))))))"

definition issue :: "ConcurrentTaskQueue \<Rightarrow> signal list \<Rightarrow> world \<Rightarrow> world" where
  "issue cq ks w = w\<lparr>wakes := wakes w @ map (native_wake cq) ks\<rparr>"


lemma cq_okE:
  assumes "cq_ok cq w"
  obtains impl m e f where "implementation cq = Some impl" "queue_wf (queue cq)"
    "mutex_impl (mutex impl) = Some m" "cond_impl (not_empty impl) = Some e"
    "cond_impl (not_full impl) = Some f" "m \<in> sections w" "m \<notin> set (held w)" "e \<noteq> f"
    "qsize (queue cq) \<le> high_water_mark impl" "high_water_mark impl \<le> capacity (queue cq)"
  using assms by (auto simp: cq_ok_def impl_ok_def split: option.splits)

lemma cq_ok_world [simp]:
  "cq_ok cq (w\<lparr>wakes := k\<rparr>) = cq_ok cq w" "cq_ok cq (w\<lparr>fate := fs\<rparr>) = cq_ok cq w"
  "cq_ok cq (issue cq' ks w) = cq_ok cq w"
  by (simp_all add: cq_ok_def impl_ok_def issue_def split: option.splits)

lemma is_empty_view: "cq_ok cq w \<Longrightarrow> task_queue_is_empty (Some (queue cq)) \<longleftrightarrow> elems (cq_view cq) = []"
  by (auto simp: cq_view_def Let_def task_queue_is_empty_def contents_empty_iff cq_ok_def)

lemma is_full_view:
  "cq_ok cq w \<Longrightarrow> task_queue_is_full (Some (queue cq)) \<longleftrightarrow> length (elems (cq_view cq)) = bound (cq_view cq)"
  by (auto simp: cq_view_def Let_def task_queue_is_full_def contents_full_iff cq_ok_def queue_wf_def
      split: option.splits)

text \<open>Changing only a waiter count or the shutdown flag.\<close>

definition retains :: "ConcurrentTaskQueue \<Rightarrow> ConcurrentTaskQueue \<Rightarrow> world \<Rightarrow> bool" where
  "retains cq cq' w \<longleftrightarrow> cq_ok cq' w \<and> owned cq' = owned cq \<and> capacity (queue cq') = capacity (queue cq)"

lemma impl_ok_updates [simp]:
  "impl_ok (impl\<lparr>high_water_mark := x\<rparr>) w = impl_ok impl w"
  "impl_ok (impl\<lparr>waiting_consumers := x\<rparr>) w = impl_ok impl w"
  "impl_ok (impl\<lparr>waiting_producers := x\<rparr>) w = impl_ok impl w"
  "impl_ok (impl\<lparr>shutdown_requested := b\<rparr>) w = impl_ok impl w"
  by (simp_all add: impl_ok_def split: option.splits)

lemma retains_refl [simp]: "retains cq cq w = cq_ok cq w" by (simp add: retains_def)

lemma insert_body:
  assumes "cq_ok cq w" "implementation cq = Some impl" "\<not> closed (cq_view cq)"
    "length (elems (cq_view cq)) \<noteq> bound (cq_view cq)"
  obtains cq' where
    "enqueue_body on_full cq impl t
      = (CONCURRENT_TASK_QUEUE_OK, True, elems (cq_view cq) = [], cq')"
    "retains cq cq' w" "cq_view cq' = snd (spec_insert ts t (cq_view cq))"
proof -
  from assms(1,2) have wf: "queue_wf (queue cq)" and hw: "high_water_mark impl \<le> capacity (queue cq)"
    "qsize (queue cq) \<le> high_water_mark impl" and iok: "impl_ok impl w"
    by (simp_all add: cq_ok_def)
  have room: "qsize (queue cq) \<noteq> capacity (queue cq)"
    using assms(4) contents_full_iff [OF wf] by (simp add: cq_view_def)
  obtain q' where q': "task_queue_enqueue (Some (queue cq)) (Some t) = (TASK_QUEUE_OK, Some q')"
    "queue_wf q'" "contents q' = contents (queue cq) @ [t]" "capacity q' = capacity (queue cq)"
    "qsize q' = qsize (queue cq) + 1" "map_option fst (items q') = map_option fst (items (queue cq))"
    using enqueue_room [OF wf room] by blast
  let ?cq = "cq\<lparr>queue := q', implementation := Some (raise_high_water q' impl)\<rparr>"
  have size: "qsize q' \<le> capacity (queue cq)" using q'(2,4) by (auto simp: queue_wf_def split: option.splits)
  have unat_size: "unat (qsize q') = Suc (length (contents (queue cq)))"
    using length_contents [OF q'(2)] q'(3) by simp
  have "enqueue_body on_full cq impl t
      = (CONCURRENT_TASK_QUEUE_OK, True, elems (cq_view cq) = [], ?cq)"
    using assms q'(1) is_empty_view [OF assms(1)] by (simp add: enqueue_body_def cq_view_def)
  moreover have "retains cq ?cq w"
    using q' size iok hw assms(2)
    by (auto simp: retains_def cq_ok_def owned_def raise_high_water_def task_queue_size_def not_less)
  moreover have "cq_view ?cq = snd (spec_insert ts t (cq_view cq))"
    using q' unat_size assms(2)
    by (auto simp: cq_view_def spec_insert_def raise_high_water_def task_queue_size_def
       word_less_nat_alt max_def not_less)
  ultimately show thesis using that by blast
qed


lemma remove_body:
  assumes "cq_ok cq w" "elems (cq_view cq) \<noteq> []"
  obtains cq' where
    "dequeue_body on_empty cq = (CONCURRENT_TASK_QUEUE_OK, Some (hd (elems (cq_view cq))),
       length (elems (cq_view cq)) = bound (cq_view cq), cq')"
    "retains cq cq' w" "cq_view cq' = snd (spec_remove ts (cq_view cq))"
proof -
  from assms(1) obtain impl where impl: "implementation cq = Some impl" by (auto elim: cq_okE)
  with assms(1) have wf: "queue_wf (queue cq)" and hw: "high_water_mark impl \<le> capacity (queue cq)"
    "qsize (queue cq) \<le> high_water_mark impl" and iok: "impl_ok impl w"
    by (simp_all add: cq_ok_def)
  have item: "qsize (queue cq) \<noteq> 0"
    using assms(2) contents_empty_iff [OF wf] by (simp add: cq_view_def)
  obtain q' where q': "task_queue_dequeue (Some (queue cq)) True
      = (TASK_QUEUE_OK, Some (hd (contents (queue cq))), Some q')"
    "queue_wf q'" "contents q' = tl (contents (queue cq))" "capacity q' = capacity (queue cq)"
    "qsize q' = qsize (queue cq) - 1" "map_option fst (items q') = map_option fst (items (queue cq))"
    using dequeue_item [OF wf item] by blast
  let ?cq = "cq\<lparr>queue := q'\<rparr>"
  have "unat (qsize q') \<le> unat (high_water_mark impl)"
    using q'(5) item unat_mono_le [OF hw(2)] by simp
  then have low: "qsize q' \<le> high_water_mark impl" by (simp add: word_le_nat_alt)
  have "dequeue_body on_empty cq = (CONCURRENT_TASK_QUEUE_OK, Some (hd (elems (cq_view cq))),
      length (elems (cq_view cq)) = bound (cq_view cq), ?cq)"
    using assms q'(1) is_empty_view [OF assms(1)] is_full_view [OF assms(1)]
    by (simp add: dequeue_body_def cq_view_def)
  moreover have "retains cq ?cq w" using q' low iok hw impl by (simp add: retains_def cq_ok_def owned_def)
  moreover have "cq_view ?cq = snd (spec_remove ts (cq_view cq))"
    using q' by (simp add: cq_view_def spec_remove_def Let_def)
  ultimately show thesis using that by blast
qed


lemma run_issue_none [simp]: "issue cq [] w = w" by (simp add: issue_def)

lemma enqueue_body_rejected:
  assumes "cq_ok cq w" "implementation cq = Some impl"
    "closed (cq_view cq) \<or> length (elems (cq_view cq)) = bound (cq_view cq)"
  obtains e where "enqueue_body on_full cq impl t
      = (if closed (cq_view cq) then CONCURRENT_TASK_QUEUE_ERROR_SHUTDOWN else on_full, False, e, cq)"
proof (cases "closed (cq_view cq)")
  case True
  with assms(2) show thesis by (intro that [of False]) (simp add: enqueue_body_def cq_view_def)
next
  case False
  have wf: "queue_wf (queue cq)" using assms(1) by (simp add: cq_ok_def)
  from False assms(3) have "qsize (queue cq) = capacity (queue cq)"
    using contents_full_iff [OF wf] by (simp add: cq_view_def)
  from enqueue_full [OF wf this, of t] False assms(2) show thesis
    by (intro that [of "task_queue_is_empty (Some (queue cq))"]) (simp add: enqueue_body_def cq_view_def)
qed

lemma enqueue_tail_spec:
  assumes "cq_ok cq w" "implementation cq = Some impl" "mutex_impl (mutex impl) = Some m"
  obtains cq' where "run_state (enqueue_epilogue ts impl (enqueue_body on_full cq impl t))
      (w\<lparr>held := m # held w\<rparr>)
    = ((if closed (cq_view cq) then CONCURRENT_TASK_QUEUE_ERROR_SHUTDOWN
        else if length (elems (cq_view cq)) = bound (cq_view cq) then on_full
        else CONCURRENT_TASK_QUEUE_OK, Some cq'),
       issue cq (fst (snd (spec_try_enqueue ts t (cq_view cq)))) w)"
    "retains cq cq' w" "cq_view cq' = snd (snd (spec_try_enqueue ts t (cq_view cq)))"
proof (cases "closed (cq_view cq) \<or> length (elems (cq_view cq)) = bound (cq_view cq)")
  case True
  have live: "m \<in> sections w" using assms by (auto elim!: cq_okE)
  obtain e where "enqueue_body on_full cq impl t
      = (if closed (cq_view cq) then CONCURRENT_TASK_QUEUE_ERROR_SHUTDOWN else on_full, False, e, cq)"
    using enqueue_body_rejected [OF assms(1,2) True] by blast
  with True live assms show thesis
    by (intro that [of cq]) (auto simp: enqueue_epilogue_def spec_try_enqueue_def sync_simps)
next
  case False
  have live: "m \<in> sections w" "cond_impl (not_empty impl) \<noteq> None" using assms by (auto elim!: cq_okE)
  obtain cq' where "enqueue_body on_full cq impl t
      = (CONCURRENT_TASK_QUEUE_OK, True, elems (cq_view cq) = [], cq')"
    "retains cq cq' w" "cq_view cq' = snd (spec_insert ts t (cq_view cq))"
    using insert_body [OF assms(1,2), of on_full t ts] False by blast
  moreover have "waiting_consumers impl = consumers (cq_view cq)" using assms(2) by (simp add: cq_view_def)
  ultimately show thesis using False live assms
    by (intro that [of cq']) (auto simp: enqueue_epilogue_def spec_try_enqueue_def spec_insert_def
       sync_simps issue_def native_wake_def)
qed

lemma dequeue_tail_spec:
  assumes "cq_ok cq w" "implementation cq = Some impl" "mutex_impl (mutex impl) = Some m"
  obtains cq' where "run_state (dequeue_epilogue ts impl (dequeue_body on_empty cq))
      (w\<lparr>held := m # held w\<rparr>)
    = ((if elems (cq_view cq) = [] then (on_empty, None)
        else (CONCURRENT_TASK_QUEUE_OK, Some (hd (elems (cq_view cq)))), Some cq'),
       issue cq (fst (snd (spec_try_dequeue ts (cq_view cq)))) w)"
    "retains cq cq' w" "cq_view cq' = snd (snd (spec_try_dequeue ts (cq_view cq)))"
proof (cases "elems (cq_view cq) = []")
  case True
  have live: "m \<in> sections w" using assms by (auto elim!: cq_okE)
  have "dequeue_body on_empty cq = (on_empty, None, False, cq)"
    using True is_empty_view [OF assms(1)] by (simp add: dequeue_body_def)
  with True live assms show thesis
    by (intro that [of cq]) (auto simp: dequeue_epilogue_def spec_try_dequeue_def sync_simps)
next
  case False
  have live: "m \<in> sections w" "cond_impl (not_full impl) \<noteq> None" using assms by (auto elim!: cq_okE)
  obtain cq' where "dequeue_body on_empty cq = (CONCURRENT_TASK_QUEUE_OK, Some (hd (elems (cq_view cq))),
      length (elems (cq_view cq)) = bound (cq_view cq), cq')"
    "retains cq cq' w" "cq_view cq' = snd (spec_remove ts (cq_view cq))"
    using remove_body [OF assms(1) False, of on_empty ts] by blast
  moreover have "waiting_producers impl = producers (cq_view cq)" using assms(2) by (simp add: cq_view_def)
  ultimately show thesis using False live assms
    by (intro that [of cq']) (auto simp: dequeue_epilogue_def spec_try_dequeue_def spec_remove_def
       sync_simps issue_def native_wake_def)
qed

section \<open>Every operation refines the contract\<close>

text \<open>
  A run of an operation on the wrapper \<open>cq\<close> refines a step of the contract: the result is
  the contract's, the world differs from \<open>w\<close> by the issued wake-ups only, and the wrapper that
  is left is in order, owns the same objects and shows the contract's abstract queue.
\<close>

definition refined ::
  "ConcurrentTaskQueue \<Rightarrow> world \<Rightarrow> ('r \<times> ConcurrentTaskQueue option) \<times> world
     \<Rightarrow> 'r \<times> signal list \<times> abs_queue \<Rightarrow> bool" where
  "refined cq w outcome contract \<longleftrightarrow> (case contract of (r, ks, A) \<Rightarrow>
     (\<exists>cq'. outcome = ((r, Some cq'), issue cq ks w) \<and> retains cq cq' w \<and> cq_view cq' = A))"

lemma refinedI:
  "outcome = ((r, Some cq'), issue cq ks w) \<Longrightarrow> retains cq cq' w \<Longrightarrow> cq_view cq' = A
     \<Longrightarrow> refined cq w outcome (r, ks, A)"
  by (auto simp: refined_def)

lemma refinedE:
  assumes "refined cq w outcome (r, ks, A)"
  obtains cq' where "outcome = ((r, Some cq'), issue cq ks w)" "cq_ok cq' w" "owned cq' = owned cq"
    "capacity (queue cq') = capacity (queue cq)" "cq_view cq' = A"
  using assms by (auto simp: refined_def retains_def)

lemma try_enqueue_refined:
  assumes "cq_ok cq w"
  shows "refined cq w (run_state (concurrent_task_queue_try_enqueue ts (Some cq) (Some t)) w)
    (spec_try_enqueue ts t (cq_view cq))"
proof -
  obtain impl m where impl: "implementation cq = Some impl" "mutex_impl (mutex impl) = Some m"
    "m \<in> sections w" using assms by (auto elim: cq_okE)
  obtain cq' where cq': "run_state (enqueue_epilogue ts impl
        (enqueue_body CONCURRENT_TASK_QUEUE_ERROR_FULL cq impl t)) (w\<lparr>held := m # held w\<rparr>)
      = ((if closed (cq_view cq) then CONCURRENT_TASK_QUEUE_ERROR_SHUTDOWN
          else if length (elems (cq_view cq)) = bound (cq_view cq) then CONCURRENT_TASK_QUEUE_ERROR_FULL
          else CONCURRENT_TASK_QUEUE_OK, Some cq'),
         issue cq (fst (snd (spec_try_enqueue ts t (cq_view cq)))) w)"
    "retains cq cq' w" "cq_view cq' = snd (snd (spec_try_enqueue ts t (cq_view cq)))"
    by (rule enqueue_tail_spec [OF assms impl(1,2)])
  then show ?thesis using impl
    by (auto simp: refined_def concurrent_task_queue_try_enqueue_def sync_simps spec_try_enqueue_def
        split: prod.splits)
qed

lemma try_dequeue_refined:
  assumes "cq_ok cq w"
  shows "refined cq w (run_state (concurrent_task_queue_try_dequeue ts (Some cq) True) w)
    (spec_try_dequeue ts (cq_view cq))"
proof -
  obtain impl m where impl: "implementation cq = Some impl" "mutex_impl (mutex impl) = Some m"
    "m \<in> sections w" using assms by (auto elim: cq_okE)
  let ?on_empty = "if shutdown_requested impl then CONCURRENT_TASK_QUEUE_ERROR_SHUTDOWN
    else CONCURRENT_TASK_QUEUE_ERROR_EMPTY"
  obtain cq' where cq': "run_state (dequeue_epilogue ts impl (dequeue_body ?on_empty cq))
        (w\<lparr>held := m # held w\<rparr>)
      = ((if elems (cq_view cq) = [] then (?on_empty, None)
          else (CONCURRENT_TASK_QUEUE_OK, Some (hd (elems (cq_view cq)))), Some cq'),
         issue cq (fst (snd (spec_try_dequeue ts (cq_view cq)))) w)"
    "retains cq cq' w" "cq_view cq' = snd (snd (spec_try_dequeue ts (cq_view cq)))"
    by (rule dequeue_tail_spec [OF assms impl(1,2)])
  moreover have "shutdown_requested impl = closed (cq_view cq)" using impl(1) by (simp add: cq_view_def)
  ultimately show ?thesis using impl
    by (auto simp: refined_def concurrent_task_queue_try_dequeue_def sync_simps spec_try_dequeue_def
        split: prod.splits)
qed

subsection \<open>The blocking calls\<close>

lemma fate_held: "w\<lparr>fate := x, held := y\<rparr> = w\<lparr>held := y, fate := x\<rparr>" for w :: world
  by simp

lemma set_producers:
  assumes "cq_ok cq w" "implementation cq = Some impl"
  shows "retains cq (cq\<lparr>implementation := Some (impl\<lparr>waiting_producers := n\<rparr>)\<rparr>) w"
    "cq_view (cq\<lparr>implementation := Some (impl\<lparr>waiting_producers := n\<rparr>)\<rparr>) = (cq_view cq)\<lparr>producers := n\<rparr>"
  using assms by (simp_all add: retains_def cq_ok_def owned_def cq_view_def)

lemma set_consumers:
  assumes "cq_ok cq w" "implementation cq = Some impl"
  shows "retains cq (cq\<lparr>implementation := Some (impl\<lparr>waiting_consumers := n\<rparr>)\<rparr>) w"
    "cq_view (cq\<lparr>implementation := Some (impl\<lparr>waiting_consumers := n\<rparr>)\<rparr>) = (cq_view cq)\<lparr>consumers := n\<rparr>"
  using assms by (simp_all add: retains_def cq_ok_def owned_def cq_view_def)

lemma set_shutdown:
  assumes "cq_ok cq w" "implementation cq = Some impl"
  shows "retains cq (cq\<lparr>implementation := Some (impl\<lparr>shutdown_requested := b\<rparr>)\<rparr>) w"
    "cq_view (cq\<lparr>implementation := Some (impl\<lparr>shutdown_requested := b\<rparr>)\<rparr>) = (cq_view cq)\<lparr>closed := b\<rparr>"
  using assms by (simp_all add: retains_def cq_ok_def owned_def cq_view_def)

lemma enqueue_loop_refined:
  assumes "cq_ok cq w" "implementation cq = Some impl" "mutex_impl (mutex impl) = Some m"
  shows "refined cq w (run_state (enqueue_loop ts cq impl t) (w\<lparr>held := m # held w\<rparr>))
    (spec_enqueue ts t (cq_view cq))"
proof (cases "\<not> closed (cq_view cq) \<and> length (elems (cq_view cq)) = bound (cq_view cq)")
  case True
  have live: "m \<in> sections w" "cond_impl (not_full impl) \<noteq> None" using assms by (auto elim!: cq_okE)
  have "\<not> shutdown_requested impl" "waiting_producers impl = producers (cq_view cq)"
    using True assms(2) by (simp_all add: cq_view_def)
  with True live is_full_view [OF assms(1)] set_producers [OF assms(1,2)] assms(3) show ?thesis
    by (auto simp: refined_def spec_enqueue_def enqueue_loop_def sync_simps)
next
  case False
  obtain cq' where "run_state (enqueue_epilogue ts impl
        (enqueue_body CONCURRENT_TASK_QUEUE_ERROR_SYSTEM cq impl t)) (w\<lparr>held := m # held w\<rparr>)
      = ((if closed (cq_view cq) then CONCURRENT_TASK_QUEUE_ERROR_SHUTDOWN
          else if length (elems (cq_view cq)) = bound (cq_view cq) then CONCURRENT_TASK_QUEUE_ERROR_SYSTEM
          else CONCURRENT_TASK_QUEUE_OK, Some cq'),
         issue cq (fst (snd (spec_try_enqueue ts t (cq_view cq)))) w)"
    "retains cq cq' w" "cq_view cq' = snd (snd (spec_try_enqueue ts t (cq_view cq)))"
    by (rule enqueue_tail_spec [OF assms])
  moreover have "shutdown_requested impl = closed (cq_view cq)" using assms(2) by (simp add: cq_view_def)
  ultimately show ?thesis using False is_full_view [OF assms(1)]
    by (auto simp: refined_def spec_enqueue_def spec_try_enqueue_def enqueue_loop_def split: prod.splits)
qed

lemma dequeue_loop_refined:
  assumes "cq_ok cq w" "implementation cq = Some impl" "mutex_impl (mutex impl) = Some m"
  shows "refined cq w (run_state (dequeue_loop ts cq impl) (w\<lparr>held := m # held w\<rparr>))
    (spec_dequeue ts (cq_view cq))"
proof (cases "\<not> closed (cq_view cq) \<and> elems (cq_view cq) = []")
  case True
  have live: "m \<in> sections w" "cond_impl (not_empty impl) \<noteq> None" using assms by (auto elim!: cq_okE)
  have "\<not> shutdown_requested impl" "waiting_consumers impl = consumers (cq_view cq)"
    using True assms(2) by (simp_all add: cq_view_def)
  with True live is_empty_view [OF assms(1)] set_consumers [OF assms(1,2)] assms(3) show ?thesis
    by (auto simp: refined_def spec_dequeue_def dequeue_loop_def sync_simps)
next
  case False
  obtain cq' where "run_state (dequeue_epilogue ts impl
        (dequeue_body CONCURRENT_TASK_QUEUE_ERROR_SHUTDOWN cq)) (w\<lparr>held := m # held w\<rparr>)
      = ((if elems (cq_view cq) = [] then (CONCURRENT_TASK_QUEUE_ERROR_SHUTDOWN, None)
          else (CONCURRENT_TASK_QUEUE_OK, Some (hd (elems (cq_view cq)))), Some cq'),
         issue cq (fst (snd (spec_try_dequeue ts (cq_view cq)))) w)"
    "retains cq cq' w" "cq_view cq' = snd (snd (spec_try_dequeue ts (cq_view cq)))"
    by (rule dequeue_tail_spec [OF assms])
  moreover have "shutdown_requested impl = closed (cq_view cq)" using assms(2) by (simp add: cq_view_def)
  ultimately show ?thesis using False is_empty_view [OF assms(1)]
    by (auto simp: refined_def spec_dequeue_def spec_try_dequeue_def dequeue_loop_def split: prod.splits)
qed

lemma enqueue_begin_refined:
  assumes "cq_ok cq w"
  shows "refined cq w (run_state (concurrent_task_queue_enqueue_begin ts (Some cq) (Some t)) w)
    (spec_enqueue ts t (cq_view cq))"
proof -
  obtain impl m where impl: "implementation cq = Some impl" "mutex_impl (mutex impl) = Some m"
    "m \<in> sections w" using assms by (auto elim: cq_okE)
  then have "run_state (concurrent_task_queue_enqueue_begin ts (Some cq) (Some t)) w
      = run_state (enqueue_loop ts cq impl t) (w\<lparr>held := m # held w\<rparr>)"
    by (simp add: concurrent_task_queue_enqueue_begin_def sync_simps)
  with enqueue_loop_refined [OF assms impl(1,2)] show ?thesis by simp
qed

lemma dequeue_begin_refined:
  assumes "cq_ok cq w"
  shows "refined cq w (run_state (concurrent_task_queue_dequeue_begin ts (Some cq) True) w)
    (spec_dequeue ts (cq_view cq))"
proof -
  obtain impl m where impl: "implementation cq = Some impl" "mutex_impl (mutex impl) = Some m"
    "m \<in> sections w" using assms by (auto elim: cq_okE)
  then have "run_state (concurrent_task_queue_dequeue_begin ts (Some cq) True) w
      = run_state (dequeue_loop ts cq impl) (w\<lparr>held := m # held w\<rparr>)"
    by (simp add: concurrent_task_queue_dequeue_begin_def sync_simps)
  with dequeue_loop_refined [OF assms impl(1,2)] show ?thesis by simp
qed

lemma refined_owned:
  assumes "refined cq' w outcome contract" "retains cq cq' w"
  shows "refined cq w outcome contract"
proof -
  have "native_wake cq' = native_wake cq"
    using assms(2) by (cases "implementation cq"; cases "implementation cq'")
      (auto simp: retains_def owned_def native_wake_def fun_eq_iff split: signal.splits)
  then have "issue cq' = issue cq" by (simp add: issue_def fun_eq_iff)
  with assms show ?thesis by (auto simp: refined_def retains_def)
qed

text \<open>After a wait the contract starts again, with one waiter less; or the wait failed.\<close>

definition spec_enqueue_resume ::
  "bool \<Rightarrow> bool \<Rightarrow> addr \<Rightarrow> abs_queue
     \<Rightarrow> ConcurrentTaskQueueResult progress \<times> signal list \<times> abs_queue" where
  "spec_enqueue_resume ok ts t A = (let A' = A\<lparr>producers := producers A - 1\<rparr> in
     if ok then spec_enqueue ts t A' else (Returned CONCURRENT_TASK_QUEUE_ERROR_SYSTEM, [], A'))"

definition spec_dequeue_resume ::
  "bool \<Rightarrow> bool \<Rightarrow> abs_queue
     \<Rightarrow> (ConcurrentTaskQueueResult \<times> task_ptr) progress \<times> signal list \<times> abs_queue" where
  "spec_dequeue_resume ok ts A = (let A' = A\<lparr>consumers := consumers A - 1\<rparr> in
     if ok then spec_dequeue ts A'
     else (Returned (CONCURRENT_TASK_QUEUE_ERROR_SYSTEM, None), [], A'))"

lemma enqueue_resume_refined:
  assumes "cq_ok cq w" "implementation cq = Some impl"
  shows "refined cq (w\<lparr>fate := tl (fate w)\<rparr>)
      (run_state (concurrent_task_queue_enqueue_resume ts cq impl t) w)
      (spec_enqueue_resume (next_answer w) ts t (cq_view cq))"
proof -
  obtain m where m: "mutex_impl (mutex impl) = Some m" "m \<in> sections w"
    using assms by (auto elim!: cq_okE)
  let ?w = "w\<lparr>fate := tl (fate w)\<rparr>"
  let ?impl = "impl\<lparr>waiting_producers := waiting_producers impl - 1\<rparr>"
  let ?cq = "cq\<lparr>implementation := Some ?impl\<rparr>"
  have ok: "cq_ok cq ?w" using assms(1) by simp
  note set = set_producers [OF ok assms(2), of "waiting_producers impl - 1"]
  have view: "cq_view ?cq = (cq_view cq)\<lparr>producers := producers (cq_view cq) - 1\<rparr>"
    using set(2) assms(2) by (simp add: cq_view_def)
  show ?thesis
  proof (cases "next_answer w")
    case True
    have "cq_ok ?cq ?w" using set(1) by (simp add: retains_def)
    from enqueue_loop_refined [OF this, of ?impl m ts t] m
    have "refined ?cq ?w (run_state (enqueue_loop ts ?cq ?impl t) (?w\<lparr>held := m # held w\<rparr>))
        (spec_enqueue ts t (cq_view ?cq))" by simp
    from refined_owned [OF this set(1)] True m view show ?thesis
      by (simp add: concurrent_task_queue_enqueue_resume_def sync_simps spec_enqueue_resume_def Let_def
        fate_held)
  next
    case False
    with m set view show ?thesis
      by (auto simp: concurrent_task_queue_enqueue_resume_def sync_simps spec_enqueue_resume_def
        refined_def Let_def)
  qed
qed

lemma dequeue_resume_refined:
  assumes "cq_ok cq w" "implementation cq = Some impl"
  shows "refined cq (w\<lparr>fate := tl (fate w)\<rparr>)
      (run_state (concurrent_task_queue_dequeue_resume ts cq impl) w)
      (spec_dequeue_resume (next_answer w) ts (cq_view cq))"
proof -
  obtain m where m: "mutex_impl (mutex impl) = Some m" "m \<in> sections w"
    using assms by (auto elim!: cq_okE)
  let ?w = "w\<lparr>fate := tl (fate w)\<rparr>"
  let ?impl = "impl\<lparr>waiting_consumers := waiting_consumers impl - 1\<rparr>"
  let ?cq = "cq\<lparr>implementation := Some ?impl\<rparr>"
  have ok: "cq_ok cq ?w" using assms(1) by simp
  note set = set_consumers [OF ok assms(2), of "waiting_consumers impl - 1"]
  have view: "cq_view ?cq = (cq_view cq)\<lparr>consumers := consumers (cq_view cq) - 1\<rparr>"
    using set(2) assms(2) by (simp add: cq_view_def)
  show ?thesis
  proof (cases "next_answer w")
    case True
    have "cq_ok ?cq ?w" using set(1) by (simp add: retains_def)
    from dequeue_loop_refined [OF this, of ?impl m ts] m
    have "refined ?cq ?w (run_state (dequeue_loop ts ?cq ?impl) (?w\<lparr>held := m # held w\<rparr>))
        (spec_dequeue ts (cq_view ?cq))" by simp
    from refined_owned [OF this set(1)] True m view show ?thesis
      by (simp add: concurrent_task_queue_dequeue_resume_def sync_simps spec_dequeue_resume_def Let_def
        fate_held)
  next
    case False
    with m set view show ?thesis
      by (auto simp: concurrent_task_queue_dequeue_resume_def sync_simps spec_dequeue_resume_def
        refined_def Let_def)
  qed
qed

subsection \<open>Shutdown, peek and the queries\<close>

lemma shutdown_refined:
  assumes "cq_ok cq w"
  shows "refined cq w (run_state (concurrent_task_queue_shutdown (Some cq)) w)
    (CONCURRENT_TASK_QUEUE_OK, [All_consumers, All_producers], (cq_view cq)\<lparr>closed := True\<rparr>)"
  using assms by (auto elim!: cq_okE simp: concurrent_task_queue_shutdown_def sync_simps issue_def
      native_wake_def intro!: refinedI set_shutdown [OF assms])

lemma try_peek_spec:
  assumes "cq_ok cq w"
  shows "run_state (concurrent_task_queue_try_peek (Some cq) True) w = (spec_try_peek (cq_view cq), w)"
proof -
  obtain impl m where impl: "implementation cq = Some impl" "mutex_impl (mutex impl) = Some m"
    "m \<in> sections w" "queue_wf (queue cq)" using assms by (auto elim: cq_okE)
  then show ?thesis
    using is_empty_view [OF assms] peek_item [OF impl(4)] contents_empty_iff [OF impl(4)]
    by (auto simp: concurrent_task_queue_try_peek_def sync_simps spec_try_peek_def cq_view_def
        split: prod.splits)
qed

lemma locked_query_spec:
  assumes "cq_ok cq w"
  shows "run_state (locked_query d query (Some cq)) w = (query (Some (queue cq)), w)"
  using assms by (auto elim!: cq_okE simp: locked_query_def sync_simps)


section \<open>Acquiring and releasing a whole queue\<close>

lemma wp_task_queue_init:
  assumes own: "owns w0 w B S H" and cap: "cap \<noteq> 0" "cap \<le> SIZE_MAX div SIZEOF_TASK_PTR"
    and bad: "\<And>w'. owns w0 w' B S H \<Longrightarrow> P (TASK_QUEUE_ERROR_ALLOCATION, Some raw) w'"
    and good: "\<And>a q w'. a \<notin> B \<Longrightarrow> a \<notin> S \<Longrightarrow> owns w0 w' (insert a B) S H \<Longrightarrow> queue_wf q \<Longrightarrow>
      contents q = [] \<Longrightarrow> capacity q = cap \<Longrightarrow> qsize q = 0 \<Longrightarrow> (\<exists>xs. items q = Some (a, xs))
        \<Longrightarrow> P (TASK_QUEUE_OK, Some q) w'"
  shows "wp (task_queue_init (Some raw) cap) P w"
  using cap init_wf [OF cap] bad good owns_sections_blocks [OF own]
  by (auto simp: task_queue_init_def intro!: wp_allocate [OF own])

lemma wp_task_queue_destroy:
  assumes own: "owns w0 w B S H" "\<exists>xs. items q = Some (a, xs)" "a \<in> B" "a \<notin> S"
    and "\<And>w'. owns w0 w' (B - {a}) S H \<Longrightarrow> P (Some zero_queue) w'"
  shows "wp (task_queue_destroy (Some q)) P w"
proof -
  have "q\<lparr>items := None, capacity := 0, qsize := 0, head := 0, tail := 0\<rparr> = zero_queue"
    by (simp add: zero_queue_def)
  with assms show ?thesis by (auto simp: task_queue_destroy_def intro!: wp_free [OF own(1)])
qed

lemma wp_concurrent_init:
  assumes own: "owns w0 w B S H" and cap: "cap \<noteq> 0" "cap \<le> SIZE_MAX div SIZEOF_TASK_PTR"
    and bad: "\<And>r w'. owns w0 w' B S H \<Longrightarrow> r \<noteq> CONCURRENT_TASK_QUEUE_OK \<Longrightarrow> P (r, Some raw) w'"
    and good: "\<And>a i m e f cq w'. {a, i, m, e, f} \<inter> B = {} \<Longrightarrow> distinct [a, i, m, e, f]
      \<Longrightarrow> owns w0 w' (insert f (insert e (insert m (insert i (insert a B))))) (insert m S) H
      \<Longrightarrow> cq_ok cq w' \<Longrightarrow> owned cq = (Some a, Some (i, \<lparr>mutex_impl = Some m\<rparr>, \<lparr>cond_impl = Some e\<rparr>, \<lparr>cond_impl = Some f\<rparr>))
      \<Longrightarrow> cq_view cq = \<lparr>elems = [], bound = unat cap, closed = False, consumers = 0, producers = 0, high = 0\<rparr>
        \<Longrightarrow> P (CONCURRENT_TASK_QUEUE_OK, Some cq) w'"
  shows "wp (concurrent_task_queue_init (Some raw) cap) P w"
proof -
  have guard: "\<not> (cap = 0 \<or> cap > SIZE_MAX div SIZEOF_TASK_PTR)" using cap by (simp add: not_less)
  note sub = owns_sections_blocks [OF own]
  have drop1: "wp (task_queue_destroy (Some q)) (\<lambda>_. P (r, Some raw)) w'"
    if "owns w0 w' (insert a B) S H" "a \<notin> B" "\<exists>xs. items q = Some (a, xs)"
      "r \<noteq> CONCURRENT_TASK_QUEUE_OK" for a q w' r
    using that bad sub by (intro wp_task_queue_destroy [OF that(1,3)]) auto
  have drop2: "wp (free (Some i)) (\<lambda>_. wp (task_queue_destroy (Some q)) (\<lambda>_. P (r, Some raw))) w'"
    if "owns w0 w' (insert i (insert a B)) S H" "a \<notin> B" "i \<notin> insert a B"
      "\<exists>xs. items q = Some (a, xs)" "r \<noteq> CONCURRENT_TASK_QUEUE_OK" for a i q w' r
    using that sub by (intro wp_free [OF that(1)] drop1) auto
  have drop3: "wp (sched_mutex_destroy (Some m)) (\<lambda>_. wp (free (Some i))
      (\<lambda>_. wp (task_queue_destroy (Some q)) (\<lambda>_. P (r, Some raw)))) w'"
    if "owns w0 w' (insert b (insert i (insert a B))) (insert b S) H" "a \<notin> B" "i \<notin> insert a B"
      "b \<notin> insert i (insert a B)" "mutex_impl m = Some b" "\<exists>xs. items q = Some (a, xs)"
      "r \<noteq> CONCURRENT_TASK_QUEUE_OK" for a i b m q w' r
    using that sub by (intro wp_mutex_destroy [OF that(1,5)] drop2) auto
  have drop4: "wp (sched_condition_destroy (Some e)) (\<lambda>_. wp (sched_mutex_destroy (Some m))
      (\<lambda>_. wp (free (Some i)) (\<lambda>_. wp (task_queue_destroy (Some q)) (\<lambda>_. P (r, Some raw))))) w'"
    if "owns w0 w' (insert c (insert b (insert i (insert a B)))) (insert b S) H" "a \<notin> B"
      "i \<notin> insert a B" "b \<notin> insert i (insert a B)" "c \<notin> insert b (insert i (insert a B))"
      "cond_impl e = Some c" "mutex_impl m = Some b" "\<exists>xs. items q = Some (a, xs)"
      "r \<noteq> CONCURRENT_TASK_QUEUE_OK" for a i b c e m q w' r
    using that sub by (intro wp_condition_destroy [OF that(1,6)] drop3) auto
  show ?thesis
    unfolding concurrent_task_queue_init_def option.case
    apply (simp only: guard if_False wp_bind)
    apply (rule wp_task_queue_init [OF own cap])
     apply (simp add: bad map_task_queue_result_def)
    apply simp
    apply (rule wp_allocate, assumption)
     apply simp
     apply (rule drop1, assumption, assumption, assumption, simp)
    apply simp
    apply (rule wp_mutex_init, assumption)
     apply (simp add: map_sync_result_def)
     apply (rule drop2, assumption, assumption, simp, assumption, simp)
    apply (simp add: map_sync_result_def)
    apply (rule wp_condition_init, assumption)
     apply simp
     apply (rule drop3, assumption, assumption, simp, simp, simp, assumption, simp add: map_sync_result_def)
    apply simp
    apply (rule wp_condition_init, assumption)
     apply simp
     apply (rule drop4, assumption, assumption, simp, simp, simp, simp, simp, assumption, simp add: map_sync_result_def)
    apply simp
    subgoal for a q _ i _ m _ e _ f w'
      using owns_not_held [of w0 w' "insert f (insert e (insert m (insert i (insert a B))))" "insert m S" H m]
      by (intro good [of a i m e f])
        (auto simp: cq_ok_def impl_ok_def owned_def zero_implementation_def owns_def cq_view_def)
    done
qed

lemma wp_concurrent_destroy:
  assumes own: "owns w0 w B S H"
    and cq: "owned cq = (Some a, Some (i, \<lparr>mutex_impl = Some m\<rparr>, \<lparr>cond_impl = Some e\<rparr>, \<lparr>cond_impl = Some f\<rparr>))"
      "distinct [a, i, m, e, f]" "{a, i, m, e, f} \<subseteq> B" "m \<in> S" "{a, i, e, f} \<inter> S = {}"
    and fin: "\<And>w'. owns w0 w' (B - {a, i, m, e, f}) (S - {m}) H \<Longrightarrow> P (Some zero_concurrent_queue) w'"
  shows "wp (concurrent_task_queue_destroy (Some cq)) P w"
proof -
  obtain impl where impl: "implementation cq = Some impl" "impl_block impl = i"
    "mutex impl = \<lparr>mutex_impl = Some m\<rparr>" "not_empty impl = \<lparr>cond_impl = Some e\<rparr>"
    "not_full impl = \<lparr>cond_impl = Some f\<rparr>" "\<exists>xs. items (queue cq) = Some (a, xs)"
    using cq(1) by (auto simp: owned_def)
  have zero: "cq\<lparr>queue := zero_queue, implementation := None\<rparr> = zero_concurrent_queue"
    by (simp add: zero_concurrent_queue_def)
  have sets: "B - {f} - {e} - {m} - {i} - {a} = B - {a, i, m, e, f}" by auto
  show ?thesis
    unfolding concurrent_task_queue_destroy_def using impl cq(2-5)
    apply simp
    apply (rule wp_condition_destroy [OF own], simp, simp, simp)
    apply (rule wp_condition_destroy, assumption, simp, simp, simp)
    apply (rule wp_mutex_destroy, assumption, simp, simp, simp)
    apply (rule wp_free, assumption, simp, simp)
    apply (rule wp_task_queue_destroy, assumption, simp, simp, simp)
    apply (simp add: zero sets fin)
    done
qed


section \<open>Blocking calls among other threads\<close>

text \<open>
  What the rest of the program may do while a call sleeps: anything that leaves the wrapper in
  order and the waits without native failures.
\<close>

definition polite :: "interference \<Rightarrow> bool" where
  "polite f \<longleftrightarrow> (\<forall>cq w. cq_ok cq w \<longrightarrow>
     (case f (cq, w) of (cq', w') \<Rightarrow> cq_ok cq' w' \<and> fate w' = []))"

lemma politeD: "polite f \<Longrightarrow> cq_ok cq w \<Longrightarrow> f (cq, w) = (cq', w') \<Longrightarrow> cq_ok cq' w' \<and> fate w' = []"
  by (fastforce simp: polite_def)

text \<open>It makes the condition \<open>ready\<close> true.\<close>

definition delivers :: "(abs_queue \<Rightarrow> bool) \<Rightarrow> interference \<Rightarrow> bool" where
  "delivers ready f \<longleftrightarrow> (\<forall>cq w. cq_ok cq w \<longrightarrow> ready (cq_view (fst (f (cq, w)))))"

lemma deliversD: "delivers ready f \<Longrightarrow> cq_ok cq w \<Longrightarrow> f (cq, w) = (cq', w') \<Longrightarrow> ready (cq_view cq')"
  by (metis delivers_def fst_conv)

text \<open>
  The contract of a blocking call: each part ends with the wrapper in order; a part that falls
  asleep again found its condition false, and one that returns satisfies \<open>post\<close>.
\<close>

locale blocking_call =
  fixes resume :: "ConcurrentTaskQueue \<Rightarrow> ConcurrentTaskQueueImplementation
      \<Rightarrow> ('r progress \<times> ConcurrentTaskQueue option) native"
    and ready :: "abs_queue \<Rightarrow> bool"
    and post :: "'r \<Rightarrow> abs_queue \<Rightarrow> bool"
  assumes resume_part: "cq_ok cq w \<Longrightarrow> implementation cq = Some impl \<Longrightarrow> fate w = [] \<Longrightarrow>
      \<exists>p cq' w'. run_state (resume cq impl) w = ((p, Some cq'), w') \<and> cq_ok cq' w'
        \<and> (case p of Asleep \<Rightarrow> \<not> ready (cq_view cq) | Returned r \<Rightarrow> post r (cq_view cq'))"
begin

lemma returns:
  assumes "cq_ok cq w" "\<forall>f \<in> set others. polite f"
    and "case p of Asleep \<Rightarrow> \<exists>f \<in> set others. delivers ready f | Returned r \<Rightarrow> post r (cq_view cq)"
  shows "\<exists>r cq' w'. finish_call resume others ((p, Some cq), w) = Some (r, Some cq', w')
    \<and> cq_ok cq' w' \<and> post r (cq_view cq')"
  using assms
proof (induction others arbitrary: p cq w)
  case Nil
  then show ?case by (cases p) auto
next
  case (Cons f others)
  show ?case
  proof (cases p)
    case Asleep
    obtain cq1 w1 where f: "f (cq, w) = (cq1, w1)" by fastforce
    with Cons.prems(1,2) have ok: "cq_ok cq1 w1" and fate: "fate w1 = []"
      by (auto dest: politeD)
    then obtain impl where impl: "implementation cq1 = Some impl" by (auto elim: cq_okE)
    obtain p2 cq2 w2 where part: "run_state (resume cq1 impl) w1 = ((p2, Some cq2), w2)"
      "cq_ok cq2 w2" "case p2 of Asleep \<Rightarrow> \<not> ready (cq_view cq1) | Returned r \<Rightarrow> post r (cq_view cq2)"
      using resume_part [OF ok impl fate] by blast
    have "\<exists>f \<in> set others. delivers ready f" if "p2 = Asleep"
    proof -
      have "\<not> delivers ready f" using that part(3) deliversD [of ready f cq w cq1 w1] Cons.prems(1) f by auto
      with Cons.prems(3) Asleep show ?thesis by auto
    qed
    with part have "case p2 of Asleep \<Rightarrow> \<exists>f \<in> set others. delivers ready f
        | Returned r \<Rightarrow> post r (cq_view cq2)" by (cases p2) auto
    from Cons.IH [OF part(2) _ this] Cons.prems(2) show ?thesis
      using Asleep f impl part(1) by simp
  qed (use Cons.prems in auto)
qed

end

definition enqueue_ready :: "abs_queue \<Rightarrow> bool" where
  "enqueue_ready A \<longleftrightarrow> closed A \<or> length (elems A) \<noteq> bound A"

definition enqueue_post :: "addr \<Rightarrow> ConcurrentTaskQueueResult \<Rightarrow> abs_queue \<Rightarrow> bool" where
  "enqueue_post t r A \<longleftrightarrow>
     (r = CONCURRENT_TASK_QUEUE_OK \<and> \<not> closed A \<and> elems A \<noteq> [] \<and> last (elems A) = t)
     \<or> (r = CONCURRENT_TASK_QUEUE_ERROR_SHUTDOWN \<and> closed A)"

definition dequeue_ready :: "abs_queue \<Rightarrow> bool" where
  "dequeue_ready A \<longleftrightarrow> closed A \<or> elems A \<noteq> []"

definition dequeue_post :: "ConcurrentTaskQueueResult \<times> task_ptr \<Rightarrow> abs_queue \<Rightarrow> bool" where
  "dequeue_post r A \<longleftrightarrow>
     (fst r = CONCURRENT_TASK_QUEUE_OK \<and> snd r \<noteq> None \<and> length (elems A) < bound A)
     \<or> (r = (CONCURRENT_TASK_QUEUE_ERROR_SHUTDOWN, None) \<and> closed A \<and> elems A = [])"

lemma ready_updates [simp]:
  "enqueue_ready (A\<lparr>producers := n\<rparr>) = enqueue_ready A" "dequeue_ready (A\<lparr>consumers := n\<rparr>) = dequeue_ready A"
  by (simp_all add: enqueue_ready_def dequeue_ready_def)

lemma next_answer_empty: "fate w = [] \<Longrightarrow> next_answer w"
  by (simp add: next_answer_def)

lemma spec_enqueue_part:
  assumes "refined cq w outcome (spec_enqueue ts t A)"
  shows "\<exists>p cq' w'. outcome = ((p, Some cq'), w') \<and> cq_ok cq' w'
    \<and> (case p of Asleep \<Rightarrow> \<not> enqueue_ready A | Returned r \<Rightarrow> enqueue_post t r (cq_view cq'))"
  using assms by (auto simp: spec_enqueue_def refined_def retains_def spec_insert_def enqueue_ready_def
      enqueue_post_def split: if_splits)

lemma spec_dequeue_part:
  assumes "refined cq w outcome (spec_dequeue ts A)" "length (elems A) \<le> bound A"
  shows "\<exists>p cq' w'. outcome = ((p, Some cq'), w') \<and> cq_ok cq' w'
    \<and> (case p of Asleep \<Rightarrow> \<not> dequeue_ready A | Returned r \<Rightarrow> dequeue_post r (cq_view cq'))"
  using assms(1) assms(2)
  by (cases "elems A") (auto simp: spec_dequeue_def refined_def retains_def spec_remove_def dequeue_ready_def
      dequeue_post_def split: if_splits)

lemma view_bounded: "cq_ok cq w \<Longrightarrow> length (elems (cq_view cq)) \<le> bound (cq_view cq)"
  using array.bounded by (auto simp: cq_view_def cq_ok_def)

interpretation enq: blocking_call "\<lambda>cq impl. concurrent_task_queue_enqueue_resume ts cq impl t"
  enqueue_ready "enqueue_post t" for ts t
proof
  fix cq w impl assume *: "cq_ok cq w" "implementation cq = Some impl" "fate w = []"
  have "refined cq (w\<lparr>fate := tl (fate w)\<rparr>)
      (run_state (concurrent_task_queue_enqueue_resume ts cq impl t) w)
      (spec_enqueue ts t ((cq_view cq)\<lparr>producers := producers (cq_view cq) - 1\<rparr>))"
    using enqueue_resume_refined [OF *(1,2), of ts t] next_answer_empty [OF *(3)]
    by (simp add: spec_enqueue_resume_def)
  from spec_enqueue_part [OF this] show "\<exists>p cq' w'.
      run_state (concurrent_task_queue_enqueue_resume ts cq impl t) w = ((p, Some cq'), w')
      \<and> cq_ok cq' w' \<and> (case p of Asleep \<Rightarrow> \<not> enqueue_ready (cq_view cq)
          | Returned r \<Rightarrow> enqueue_post t r (cq_view cq'))"
    unfolding ready_updates .
qed

interpretation deq: blocking_call "\<lambda>cq impl. concurrent_task_queue_dequeue_resume ts cq impl"
  dequeue_ready dequeue_post for ts
proof
  fix cq w impl assume *: "cq_ok cq w" "implementation cq = Some impl" "fate w = []"
  have "refined cq (w\<lparr>fate := tl (fate w)\<rparr>)
      (run_state (concurrent_task_queue_dequeue_resume ts cq impl) w)
      (spec_dequeue ts ((cq_view cq)\<lparr>consumers := consumers (cq_view cq) - 1\<rparr>))"
    using dequeue_resume_refined [OF *(1,2), of ts] next_answer_empty [OF *(3)]
    by (simp add: spec_dequeue_resume_def)
  from spec_dequeue_part [OF this] view_bounded [OF *(1)] show "\<exists>p cq' w'.
      run_state (concurrent_task_queue_dequeue_resume ts cq impl) w = ((p, Some cq'), w')
      \<and> cq_ok cq' w' \<and> (case p of Asleep \<Rightarrow> \<not> dequeue_ready (cq_view cq)
          | Returned r \<Rightarrow> dequeue_post r (cq_view cq'))"
    by (simp cong: progress.case_cong)
qed

section \<open>The non-blocking calls are a bounded FIFO\<close>

definition sync_enq ::
  "bool \<Rightarrow> ConcurrentTaskQueue \<times> world \<Rightarrow> addr \<Rightarrow> bool \<times> ConcurrentTaskQueue \<times> world" where
  "sync_enq ts s x =
     (case run_state (concurrent_task_queue_try_enqueue ts (Some (fst s)) (Some x)) (snd s) of
        ((r, out), w') \<Rightarrow> (r = CONCURRENT_TASK_QUEUE_OK, the out, w'))"

definition sync_deq ::
  "bool \<Rightarrow> ConcurrentTaskQueue \<times> world \<Rightarrow> addr option \<times> ConcurrentTaskQueue \<times> world" where
  "sync_deq ts s =
     (case run_state (concurrent_task_queue_try_dequeue ts (Some (fst s)) True) (snd s) of
        (((r, p), out), w') \<Rightarrow> (if r = CONCURRENT_TASK_QUEUE_OK then p else None, the out, w'))"

definition sync_open :: "ConcurrentTaskQueue \<times> world \<Rightarrow> bool" where
  "sync_open s \<longleftrightarrow> cq_ok (fst s) (snd s) \<and> \<not> closed (cq_view (fst s))"

lemma sync_enq_view:
  assumes "sync_open s"
  shows "sync_open (snd (sync_enq ts s x)) \<and> cq_view (fst (snd (sync_enq ts s x)))
      = snd (snd (spec_try_enqueue ts x (cq_view (fst s))))
    \<and> (fst (sync_enq ts s x) \<longleftrightarrow> length (elems (cq_view (fst s))) \<noteq> bound (cq_view (fst s)))"
  using try_enqueue_refined [of "fst s" "snd s" ts x] assms
  by (auto simp: sync_open_def sync_enq_def refined_def retains_def spec_try_enqueue_def
      spec_insert_def split: if_splits)

lemma sync_deq_view:
  assumes "sync_open s"
  shows "sync_open (snd (sync_deq ts s)) \<and> cq_view (fst (snd (sync_deq ts s)))
      = snd (snd (spec_try_dequeue ts (cq_view (fst s))))
    \<and> fst (sync_deq ts s) = (case elems (cq_view (fst s)) of [] \<Rightarrow> None | x # xs \<Rightarrow> Some x)"
  using try_dequeue_refined [of "fst s" "snd s" ts] assms
  by (auto simp: sync_open_def sync_deq_def refined_def retains_def spec_try_dequeue_def
      spec_remove_def neq_Nil_conv split: if_splits list.splits)

interpretation sync: bounded_fifo sync_open "\<lambda>s. elems (cq_view (fst s))"
  "\<lambda>s. bound (cq_view (fst s))" "sync_enq ts" "sync_deq ts" for ts
proof unfold_locales
  fix s x assume s: "sync_open s"
  note enq = sync_enq_view [OF s, of ts x] and deq = sync_deq_view [OF s, of ts]
  show "length (elems (cq_view (fst s))) \<le> bound (cq_view (fst s))"
    using s view_bounded by (auto simp: sync_open_def)
  show "length (elems (cq_view (fst s))) < bound (cq_view (fst s)) \<Longrightarrow> fst (sync_enq ts s x)
      \<and> elems (cq_view (fst (snd (sync_enq ts s x)))) = elems (cq_view (fst s)) @ [x]"
    using enq s by (simp add: spec_try_enqueue_def spec_insert_def sync_open_def)
  show "length (elems (cq_view (fst s))) = bound (cq_view (fst s)) \<Longrightarrow> \<not> fst (sync_enq ts s x)
      \<and> elems (cq_view (fst (snd (sync_enq ts s x)))) = elems (cq_view (fst s))"
    using enq by (simp add: spec_try_enqueue_def)
  show "sync_open (snd (sync_enq ts s x))
      \<and> bound (cq_view (fst (snd (sync_enq ts s x)))) = bound (cq_view (fst s))"
    using enq by (simp add: spec_try_enqueue_def spec_insert_def)
  show "elems (cq_view (fst s)) \<noteq> [] \<Longrightarrow> fst (sync_deq ts s) = Some (hd (elems (cq_view (fst s))))
      \<and> elems (cq_view (fst (snd (sync_deq ts s)))) = tl (elems (cq_view (fst s)))"
    using deq by (simp add: spec_try_dequeue_def spec_remove_def split: list.splits)
  show "elems (cq_view (fst s)) = [] \<Longrightarrow> fst (sync_deq ts s) = None
      \<and> elems (cq_view (fst (snd (sync_deq ts s)))) = []"
    using deq by (simp add: spec_try_dequeue_def)
  show "sync_open (snd (sync_deq ts s))
      \<and> bound (cq_view (fst (snd (sync_deq ts s)))) = bound (cq_view (fst s))"
    using deq by (simp add: spec_try_dequeue_def spec_remove_def)
qed

text \<open>The largest number of pointers queued at any moment of a run.\<close>

fun peak_run :: "bool \<Rightarrow> addr fifo_call list \<Rightarrow> ConcurrentTaskQueue \<times> world \<Rightarrow> nat" where
  "peak_run ts [] s = length (elems (cq_view (fst s)))"
| "peak_run ts (Enq x # cs) s =
     max (length (elems (cq_view (fst s)))) (peak_run ts cs (snd (sync_enq ts s x)))"
| "peak_run ts (Deq # cs) s =
     max (length (elems (cq_view (fst s)))) (peak_run ts cs (snd (sync_deq ts s)))"

lemma sync_high:
  assumes "sync_open s"
  shows "high (cq_view (fst (snd (sync_enq ts s x))))
      = max (high (cq_view (fst s))) (length (elems (cq_view (fst (snd (sync_enq ts s x))))))
    \<and> high (cq_view (fst (snd (sync_deq ts s)))) = high (cq_view (fst s))
    \<and> length (elems (cq_view (fst (snd (sync_deq ts s))))) \<le> length (elems (cq_view (fst s)))
    \<and> length (elems (cq_view (fst s))) \<le> high (cq_view (fst s))"
proof -
  have "qsize (queue (fst s)) \<le> high_water_mark (the (implementation (fst s)))" "queue_wf (queue (fst s))"
    using assms by (auto simp: sync_open_def elim!: cq_okE)
  then have low: "length (elems (cq_view (fst s))) \<le> high (cq_view (fst s))"
    by (simp add: cq_view_def length_contents unat_mono_le)
  then show ?thesis
    using sync_enq_view [OF assms, of ts x] sync_deq_view [OF assms, of ts]
    by (auto simp: spec_try_enqueue_def spec_insert_def spec_try_dequeue_def spec_remove_def
      split: if_splits)
qed

lemma peak_run_start: "length (elems (cq_view (fst s))) \<le> peak_run ts cs s"
  by (cases "(ts, cs, s)" rule: peak_run.cases) simp_all

lemma peak_run_high:
  "sync_open s \<Longrightarrow> fifo_run (sync_enq ts) (sync_deq ts) cs s = (ins, outs, s')
     \<Longrightarrow> high (cq_view (fst s')) = max (high (cq_view (fst s))) (peak_run ts cs s)"
proof (induction cs arbitrary: s ins outs)
  case Nil
  then show ?case using sync_high [of s] by simp
next
  case (Cons c cs)
  note high = sync_high [OF Cons.prems(1), of ts]
  show ?case
  proof (cases c)
    case (Enq x)
    with Cons.prems obtain ins' where run: "fifo_run (sync_enq ts) (sync_deq ts) cs (snd (sync_enq ts s x))
        = (ins', outs, s')" by (auto simp: Let_def split: prod.splits)
    have "sync_open (snd (sync_enq ts s x))" using sync_enq_view [OF Cons.prems(1)] by simp
    from Cons.IH [OF this run] high [of x] peak_run_start [of "snd (sync_enq ts s x)" ts cs] Enq
    show ?thesis by (auto simp: max_def)
  next
    case Deq
    with Cons.prems obtain outs' where run: "fifo_run (sync_enq ts) (sync_deq ts) cs (snd (sync_deq ts s))
        = (ins, outs', s')" by (auto simp: Let_def split: prod.splits)
    have "sync_open (snd (sync_deq ts s))" using sync_deq_view [OF Cons.prems(1)] by simp
    from Cons.IH [OF this run] high [of 0] Deq show ?thesis by (auto simp: max_def)
  qed
qed

section \<open>A small queue to try things on\<close>

definition sample_world :: world where
  "sample_world = \<lparr>next_block = 5, live = {0, 1, 2, 3, 4}, sections = {2}, held = [], handles = {},
     wakes = [], fate = [], misuse = False\<rparr>"

definition sample_impl :: ConcurrentTaskQueueImplementation where
  "sample_impl = \<lparr>impl_block = 1, mutex = \<lparr>mutex_impl = Some 2\<rparr>, not_empty = \<lparr>cond_impl = Some 3\<rparr>,
     not_full = \<lparr>cond_impl = Some 4\<rparr>, shutdown_requested = False, waiting_consumers = 0,
     waiting_producers = 0, high_water_mark = 1\<rparr>"

text \<open>It holds the pointer 7 and is full.\<close>

definition full_sample :: ConcurrentTaskQueue where
  "full_sample = \<lparr>queue = \<lparr>items = Some (0, [Some 7]), capacity = 1, qsize = 1, head = 0, tail = 0\<rparr>,
     implementation = Some sample_impl\<rparr>"

lemma full_sample_ok: "cq_ok full_sample sample_world"
  by (simp add: full_sample_def sample_world_def sample_impl_def cq_ok_def impl_ok_def queue_wf_def
      ring_def)

lemma full_sample_view: "cq_view full_sample = \<lparr>elems = [7], bound = 1, closed = False, consumers = 0,
    producers = 0, high = 1\<rparr>"
  by (simp add: full_sample_def sample_impl_def cq_view_def contents_def ring_def)

definition empty_sample :: ConcurrentTaskQueue where
  "empty_sample = \<lparr>queue = \<lparr>items = Some (0, [None]), capacity = 1, qsize = 0, head = 0, tail = 0\<rparr>,
     implementation = Some (sample_impl\<lparr>high_water_mark := 0\<rparr>)\<rparr>"

lemma empty_sample_ok: "cq_ok empty_sample sample_world"
  by (simp add: empty_sample_def sample_world_def sample_impl_def cq_ok_def impl_ok_def queue_wf_def
      ring_def)

lemma empty_sample_view: "cq_view empty_sample = \<lparr>elems = [], bound = 1, closed = False, consumers = 0,
    producers = 0, high = 0\<rparr>"
  by (simp add: empty_sample_def sample_impl_def cq_view_def contents_def ring_def)



section \<open>Properties\<close>

text \<open>
  C31. Whatever allocation or native call fails, an init that does not succeed leaves the
  wrapper and every resource as they were; one that succeeds takes five heap blocks, sets up an
  empty open queue of the requested bound, and destroy gives everything back and zeroes the
  wrapper. Nothing is freed twice and no section is deleted while it is held.
\<close>

theorem concurrent_queue_init_destroy:
  assumes "ledger_ok w" "set (held w) \<subseteq> sections w"
    and "run_state (concurrent_task_queue_init (Some raw) cap) w = ((r, out), w')"
  shows "(r \<noteq> CONCURRENT_TASK_QUEUE_OK \<and> out = Some raw \<and> same_resources w w')
    \<or> (r = CONCURRENT_TASK_QUEUE_OK \<and> cap \<noteq> 0 \<and> card (live w' - live w) = 5
       \<and> (\<exists>cq w''. out = Some cq \<and> cq_ok cq w'
            \<and> cq_view cq = \<lparr>elems = [], bound = unat cap, closed = False, consumers = 0,
                 producers = 0, high = 0\<rparr>
            \<and> run_state (concurrent_task_queue_destroy (Some cq)) w' = (Some zero_concurrent_queue, w'')
            \<and> same_resources w w''))"
proof (cases "cap = 0 \<or> cap > SIZE_MAX div SIZEOF_TASK_PTR")
  case True
  then show ?thesis using assms(3) by (auto simp: concurrent_task_queue_init_def)
next
  case False
  then have cap: "cap \<noteq> 0" "cap \<le> SIZE_MAX div SIZEOF_TASK_PTR" by (auto simp: not_less)
  have "wp (concurrent_task_queue_init (Some raw) cap) (\<lambda>(r, out) w'.
      (r \<noteq> CONCURRENT_TASK_QUEUE_OK \<and> out = Some raw \<and> same_resources w w')
    \<or> (r = CONCURRENT_TASK_QUEUE_OK \<and> cap \<noteq> 0 \<and> card (live w' - live w) = 5
       \<and> (\<exists>cq w''. out = Some cq \<and> cq_ok cq w'
            \<and> cq_view cq = \<lparr>elems = [], bound = unat cap, closed = False, consumers = 0,
                 producers = 0, high = 0\<rparr>
            \<and> run_state (concurrent_task_queue_destroy (Some cq)) w' = (Some zero_concurrent_queue, w'')
            \<and> same_resources w w''))) w"
  proof (rule wp_concurrent_init [OF owns_start [OF assms(1,2)] cap], goal_cases)
    case (1 r w')
    then show ?case by (simp add: owns_done)
  next
    case (2 a i m e f cq w')
    from 2(2) have "wp (concurrent_task_queue_destroy (Some cq))
        (\<lambda>out w''. out = Some zero_concurrent_queue \<and> owns w w'' {} {} {}) w'"
      by (intro wp_concurrent_destroy [OF 2(3,5,2)]) auto
    then obtain w'' where "run_state (concurrent_task_queue_destroy (Some cq)) w'
        = (Some zero_concurrent_queue, w'')" "same_resources w w''"
      by (auto simp: wp_def prod_eq_iff dest: owns_done)
    moreover have "live w' - live w = {f, e, m, i, a}" using 2(3) by (auto simp: owns_def)
    ultimately show ?case using 2 cap by auto
  qed
  from wp_run [OF this assms(3)] show ?thesis by simp
qed

theorem concurrent_queue_init_destroy_witness:
  "ledger_ok sample_world \<and> (\<exists>r w'. run_state (concurrent_task_queue_init
      (Some zero_concurrent_queue) 3) (sample_world\<lparr>fate := [True, True, True, True, False]\<rparr>)
        = ((r, Some zero_concurrent_queue), w')
      \<and> r = CONCURRENT_TASK_QUEUE_ERROR_SYSTEM \<and> live w' = live sample_world)"
proof -
  let ?w = "sample_world\<lparr>fate := [True, True, True, True, False]\<rparr>"
  let ?run = "run_state (concurrent_task_queue_init (Some zero_concurrent_queue) 3) ?w"
  have ok: "ledger_ok ?w" "set (held ?w) \<subseteq> sections ?w" "ledger_ok sample_world"
    by (simp_all add: sample_world_def ledger_ok_def)
  have "fst (fst ?run) = CONCURRENT_TASK_QUEUE_ERROR_SYSTEM"
    by (simp add: sample_world_def concurrent_task_queue_init_def task_queue_init_def
        allocate_def run_ask InitializeCriticalSectionEx_def sched_mutex_init_def
        sched_condition_init_def map_sync_result_def zero_implementation_def
        split: prod.splits)
  moreover obtain r out w' where run: "?run = ((r, out), w')" by (metis prod.collapse)
  ultimately have "r = CONCURRENT_TASK_QUEUE_ERROR_SYSTEM" "out = Some zero_concurrent_queue"
    "same_resources ?w w'"
    using concurrent_queue_init_destroy [OF ok(1,2) run] by auto
  with run ok(3) show ?thesis by (auto simp: same_resources_def)
qed

text \<open>
  C27. The synchronized queue implements its contract: on a wrapper in order, each call returns
  what the contract returns for the list of queued pointers, issues exactly the contract's
  wake-ups, changes nothing else in the world (the mutex is released on every path) and leaves
  a wrapper in order that shows the contract's queue. The blocking calls do so up to their
  first sleep and from each wake-up on.
\<close>

theorem concurrent_queue_refines_contract:
  assumes "cq_ok cq w" "implementation cq = Some impl"
  shows "refined cq w (run_state (concurrent_task_queue_try_enqueue ts (Some cq) (Some t)) w)
      (spec_try_enqueue ts t (cq_view cq))
    \<and> refined cq w (run_state (concurrent_task_queue_try_dequeue ts (Some cq) True) w)
      (spec_try_dequeue ts (cq_view cq))
    \<and> refined cq w (run_state (concurrent_task_queue_enqueue_begin ts (Some cq) (Some t)) w)
      (spec_enqueue ts t (cq_view cq))
    \<and> refined cq w (run_state (concurrent_task_queue_dequeue_begin ts (Some cq) True) w)
      (spec_dequeue ts (cq_view cq))
    \<and> refined cq (w\<lparr>fate := tl (fate w)\<rparr>)
      (run_state (concurrent_task_queue_enqueue_resume ts cq impl t) w)
      (spec_enqueue_resume (next_answer w) ts t (cq_view cq))
    \<and> refined cq (w\<lparr>fate := tl (fate w)\<rparr>)
      (run_state (concurrent_task_queue_dequeue_resume ts cq impl) w)
      (spec_dequeue_resume (next_answer w) ts (cq_view cq))
    \<and> refined cq w (run_state (concurrent_task_queue_shutdown (Some cq)) w)
      (CONCURRENT_TASK_QUEUE_OK, [All_consumers, All_producers], (cq_view cq)\<lparr>closed := True\<rparr>)
    \<and> run_state (concurrent_task_queue_try_peek (Some cq) True) w = (spec_try_peek (cq_view cq), w)"
  using assms by (intro conjI try_enqueue_refined try_dequeue_refined enqueue_begin_refined
      dequeue_begin_refined enqueue_resume_refined dequeue_resume_refined shutdown_refined try_peek_spec)

theorem concurrent_queue_refines_contract_witness:
  "run_state (concurrent_task_queue_try_peek (Some full_sample) True) sample_world
     = ((CONCURRENT_TASK_QUEUE_OK, Some 7), sample_world)"
proof -
  have impl: "implementation full_sample = Some sample_impl" by (simp add: full_sample_def)
  from concurrent_queue_refines_contract [OF full_sample_ok impl] show ?thesis
    by (simp add: spec_try_peek_def full_sample_view)
qed

text \<open>
  C30. First in, first out through the mutex: on a queue that init set up, for every sequence
  of non-blocking enqueues and dequeues, the pointers handed out followed by the pointers still
  queued are the pointers accepted, in order; the wrapper stays in order, the bound stays, and
  the high-water mark is the largest number of pointers the queue held at once since init.
\<close>

theorem concurrent_queue_fifo:
  assumes "sync_open s" "elems (cq_view (fst s)) = []" "high (cq_view (fst s)) = 0"
    and "fifo_run (sync_enq ts) (sync_deq ts) cs s = (ins, outs, s')"
  shows "outs @ elems (cq_view (fst s')) = ins \<and> sync_open s'
    \<and> bound (cq_view (fst s')) = bound (cq_view (fst s))
    \<and> high (cq_view (fst s')) = peak_run ts cs s"
  using sync.run_fifo [OF assms(1,4)] sync.run_keeps [OF assms(1,4)] peak_run_high [OF assms(1,4)]
    assms(2,3) by simp

theorem concurrent_queue_fifo_witness:
  "\<exists>ins outs s'. fifo_run (sync_enq True) (sync_deq True) [Enq 8, Enq 9, Deq] (empty_sample, sample_world)
     = (ins, outs, s') \<and> ins = [8] \<and> outs = [8] \<and> high (cq_view (fst s')) = 1"
proof -
  let ?s = "(empty_sample, sample_world)"
  let ?cs = "[Enq 8, Enq 9, Deq]"
  have ok: "sync_open ?s" "elems (cq_view (fst ?s)) = []" "high (cq_view (fst ?s)) = 0"
    using empty_sample_ok by (simp_all add: sync_open_def empty_sample_view)
  note defs = sync_enq_def sync_deq_def concurrent_task_queue_try_enqueue_def
    concurrent_task_queue_try_dequeue_def enqueue_body_def enqueue_epilogue_def dequeue_body_def
    dequeue_epilogue_def raise_high_water_def queue_op_defs sync_simps empty_sample_def
    sample_impl_def sample_world_def
  have run: "\<exists>s'. fifo_run (sync_enq True) (sync_deq True) ?cs ?s = ([8], [8], s')"
    by (simp add: defs)
  have peak: "peak_run True ?cs ?s = 1"
    by (simp add: defs cq_view_def contents_def ring_def)
  from run obtain s' where run': "fifo_run (sync_enq True) (sync_deq True) ?cs ?s = ([8], [8], s')" ..
  from concurrent_queue_fifo [OF ok run'] run' peak show ?thesis by simp
qed





end
