(* ===== verification/Queue_System.thy ===== *)
theory Queue_System
  imports Concurrent_Queue_Contract
begin

text \<open>
  Threads that share one synchronized queue. The mutex makes every part of a call between two
  waits one step, so a run is a list of actions: a thread starts a call, a thread that was
  woken takes the mutex again and goes on, a wait returns without a wake-up (Windows condition
  variables allow spurious wake-ups) or fails. A \<open>WakeConditionVariable\<close> wakes one thread that
  sleeps on the condition variable, if there is one; the action names which. The threads are
  numbered by their position in a list. \<open>accepted\<close> and \<open>taken\<close> record the pointers that
  enqueues inserted and dequeues handed out, over all threads and in the order of the steps.
\<close>

section \<open>Threads and wake-ups\<close>

datatype pc = Idle | EnqAsleep addr | EnqNotified addr | DeqAsleep | DeqNotified

fun notify :: "pc \<Rightarrow> pc" where
  "notify (EnqAsleep t) = EnqNotified t"
| "notify DeqAsleep = DeqNotified"
| "notify p = p"

text \<open>The condition variable a sleeping thread waits for.\<close>

fun sleeps_on :: "ConcurrentTaskQueue \<Rightarrow> addr \<Rightarrow> pc \<Rightarrow> bool" where
  "sleeps_on cq a (EnqAsleep t) \<longleftrightarrow> cond_impl (not_full (the (implementation cq))) = Some a"
| "sleeps_on cq a DeqAsleep \<longleftrightarrow> cond_impl (not_empty (the (implementation cq))) = Some a"
| "sleeps_on cq a p \<longleftrightarrow> False"

fun deliver ::
  "ConcurrentTaskQueue \<Rightarrow> wake list \<Rightarrow> nat option \<Rightarrow> pc list \<Rightarrow> pc list option" where
  "deliver cq [] choice ps = (if choice = None then Some ps else None)"
| "deliver cq (Wake a # ks) choice ps =
     (if list_ex (sleeps_on cq a) ps
      then (case choice of
          None \<Rightarrow> None
        | Some i \<Rightarrow> if i < length ps \<and> sleeps_on cq a (ps ! i)
            then deliver cq ks None (ps[i := notify (ps ! i)]) else None)
      else deliver cq ks choice ps)"
| "deliver cq (WakeAll a # ks) choice ps =
     deliver cq ks choice (map (\<lambda>p. if sleeps_on cq a p then notify p else p) ps)"

section \<open>The system\<close>

record sys =
  cq :: ConcurrentTaskQueue
  wld :: world
  pcs :: "pc list"
  accepted :: "addr list"
  taken :: "addr list"

datatype action =
    Enqueue nat addr "nat option"
  | TryEnqueue nat addr "nat option"
  | Dequeue nat "nat option"
  | TryDequeue nat "nat option"
  | Shutdown nat
  | Resume nat "nat option"
  | Spurious nat
  | Fail nat

abbreviation idle :: "nat \<Rightarrow> pc list \<Rightarrow> bool" where
  "idle i ps \<equiv> i < length ps \<and> ps ! i = Idle"

text \<open>The end of a step of thread \<open>i\<close>: where it is now, and the wake-ups it issued.\<close>

definition settle ::
  "nat option \<Rightarrow> nat \<Rightarrow> pc \<Rightarrow> ConcurrentTaskQueue option \<Rightarrow> world \<Rightarrow> sys \<Rightarrow> sys option" where
  "settle choice i p out w s = (case out of
      None \<Rightarrow> None
    | Some cq' \<Rightarrow> (case deliver cq' (wakes w) choice ((pcs s)[i := p]) of
        None \<Rightarrow> None
      | Some ps \<Rightarrow> Some (s\<lparr>cq := cq', wld := w\<lparr>wakes := []\<rparr>, pcs := ps\<rparr>)))"

definition enqueue_end ::
  "nat option \<Rightarrow> nat \<Rightarrow> addr
     \<Rightarrow> (ConcurrentTaskQueueResult progress \<times> ConcurrentTaskQueue option) \<times> world
     \<Rightarrow> sys \<Rightarrow> sys option" where
  "enqueue_end choice i t outcome s = (case outcome of ((p, out), w) \<Rightarrow> (case p of
      Asleep \<Rightarrow> settle choice i (EnqAsleep t) out w s
    | Returned r \<Rightarrow> settle choice i Idle out w
        (if r = CONCURRENT_TASK_QUEUE_OK then s\<lparr>accepted := accepted s @ [t]\<rparr> else s)))"

definition dequeue_end ::
  "nat option \<Rightarrow> nat
     \<Rightarrow> ((ConcurrentTaskQueueResult \<times> task_ptr) progress \<times> ConcurrentTaskQueue option) \<times> world
     \<Rightarrow> sys \<Rightarrow> sys option" where
  "dequeue_end choice i outcome s = (case outcome of ((p, out), w) \<Rightarrow> (case p of
      Asleep \<Rightarrow> settle choice i DeqAsleep out w s
    | Returned (r, x) \<Rightarrow> settle choice i Idle out w (case x of
          None \<Rightarrow> s
        | Some t \<Rightarrow> s\<lparr>taken := taken s @ [t]\<rparr>)))"

definition returned :: "('r \<times> 'c) \<times> world \<Rightarrow> ('r progress \<times> 'c) \<times> world" where
  "returned outcome = (case outcome of ((r, out), w) \<Rightarrow> ((Returned r, out), w))"

text \<open>A woken thread goes on; \<open>ok\<close> is the answer of its wait.\<close>

definition resume_enqueue :: "bool \<Rightarrow> bool \<Rightarrow> nat option \<Rightarrow> nat \<Rightarrow> addr \<Rightarrow> sys \<Rightarrow> sys option" where
  "resume_enqueue ts ok choice i t s = enqueue_end choice i t
     (run_state (concurrent_task_queue_enqueue_resume ts (cq s) (the (implementation (cq s))) t)
       ((wld s)\<lparr>fate := [ok]\<rparr>)) s"

definition resume_dequeue :: "bool \<Rightarrow> bool \<Rightarrow> nat option \<Rightarrow> nat \<Rightarrow> sys \<Rightarrow> sys option" where
  "resume_dequeue ts ok choice i s = dequeue_end choice i
     (run_state (concurrent_task_queue_dequeue_resume ts (cq s) (the (implementation (cq s))))
       ((wld s)\<lparr>fate := [ok]\<rparr>)) s"

definition step :: "bool \<Rightarrow> action \<Rightarrow> sys \<Rightarrow> sys option" where
  "step ts a s = (case a of
      Enqueue i t choice \<Rightarrow>
        if idle i (pcs s) then enqueue_end choice i t
          (run_state (concurrent_task_queue_enqueue_begin ts (Some (cq s)) (Some t)) (wld s)) s
        else None
    | TryEnqueue i t choice \<Rightarrow>
        if idle i (pcs s) then enqueue_end choice i t (returned
          (run_state (concurrent_task_queue_try_enqueue ts (Some (cq s)) (Some t)) (wld s))) s
        else None
    | Dequeue i choice \<Rightarrow>
        if idle i (pcs s) then dequeue_end choice i
          (run_state (concurrent_task_queue_dequeue_begin ts (Some (cq s)) True) (wld s)) s
        else None
    | TryDequeue i choice \<Rightarrow>
        if idle i (pcs s) then dequeue_end choice i (returned
          (run_state (concurrent_task_queue_try_dequeue ts (Some (cq s)) True) (wld s))) s
        else None
    | Shutdown i \<Rightarrow>
        if idle i (pcs s)
        then (case run_state (concurrent_task_queue_shutdown (Some (cq s))) (wld s) of
            ((r, out), w) \<Rightarrow> settle None i Idle out w s)
        else None
    | Resume i choice \<Rightarrow>
        if i < length (pcs s) then (case pcs s ! i of
            EnqNotified t \<Rightarrow> resume_enqueue ts True choice i t s
          | DeqNotified \<Rightarrow> resume_dequeue ts True choice i s
          | _ \<Rightarrow> None)
        else None
    | Spurious i \<Rightarrow>
        if i < length (pcs s) \<and> notify (pcs s ! i) \<noteq> pcs s ! i
        then Some (s\<lparr>pcs := (pcs s)[i := notify (pcs s ! i)]\<rparr>) else None
    | Fail i \<Rightarrow>
        if i < length (pcs s) then (case pcs s ! i of
            EnqAsleep t \<Rightarrow> resume_enqueue ts False None i t s
          | DeqAsleep \<Rightarrow> resume_dequeue ts False None i s
          | _ \<Rightarrow> None)
        else None)"

section \<open>The same system over the contract\<close>

record asys =
  aq :: abs_queue
  apcs :: "pc list"
  aaccepted :: "addr list"
  ataken :: "addr list"

definition sys_view :: "sys \<Rightarrow> asys" where
  "sys_view s = \<lparr>aq = cq_view (cq s), apcs = pcs s, aaccepted = accepted s, ataken = taken s\<rparr>"

fun wakes_up :: "signal \<Rightarrow> pc \<Rightarrow> bool" where
  "wakes_up One_producer (EnqAsleep t) \<longleftrightarrow> True"
| "wakes_up All_producers (EnqAsleep t) \<longleftrightarrow> True"
| "wakes_up One_consumer DeqAsleep \<longleftrightarrow> True"
| "wakes_up All_consumers DeqAsleep \<longleftrightarrow> True"
| "wakes_up k p \<longleftrightarrow> False"

fun rouse :: "signal list \<Rightarrow> nat option \<Rightarrow> pc list \<Rightarrow> pc list option" where
  "rouse [] choice ps = (if choice = None then Some ps else None)"
| "rouse (k # ks) choice ps =
     (if k = All_consumers \<or> k = All_producers
      then rouse ks choice (map (\<lambda>p. if wakes_up k p then notify p else p) ps)
      else if list_ex (wakes_up k) ps
      then (case choice of
          None \<Rightarrow> None
        | Some i \<Rightarrow> if i < length ps \<and> wakes_up k (ps ! i)
            then rouse ks None (ps[i := notify (ps ! i)]) else None)
      else rouse ks choice ps)"

definition asettle ::
  "nat option \<Rightarrow> nat \<Rightarrow> pc \<Rightarrow> signal list \<Rightarrow> abs_queue \<Rightarrow> asys \<Rightarrow> asys option" where
  "asettle choice i p ks A S =
     map_option (\<lambda>ps. S\<lparr>aq := A, apcs := ps\<rparr>) (rouse ks choice ((apcs S)[i := p]))"

definition aenqueue_end ::
  "nat option \<Rightarrow> nat \<Rightarrow> addr \<Rightarrow> ConcurrentTaskQueueResult progress \<times> signal list \<times> abs_queue
     \<Rightarrow> asys \<Rightarrow> asys option" where
  "aenqueue_end choice i t contract S = (case contract of (p, ks, A) \<Rightarrow> (case p of
      Asleep \<Rightarrow> asettle choice i (EnqAsleep t) ks A S
    | Returned r \<Rightarrow> asettle choice i Idle ks A
        (if r = CONCURRENT_TASK_QUEUE_OK then S\<lparr>aaccepted := aaccepted S @ [t]\<rparr> else S)))"

definition adequeue_end ::
  "nat option \<Rightarrow> nat
     \<Rightarrow> (ConcurrentTaskQueueResult \<times> task_ptr) progress \<times> signal list \<times> abs_queue
     \<Rightarrow> asys \<Rightarrow> asys option" where
  "adequeue_end choice i contract S = (case contract of (p, ks, A) \<Rightarrow> (case p of
      Asleep \<Rightarrow> asettle choice i DeqAsleep ks A S
    | Returned (r, x) \<Rightarrow> asettle choice i Idle ks A (case x of
          None \<Rightarrow> S
        | Some t \<Rightarrow> S\<lparr>ataken := ataken S @ [t]\<rparr>)))"

definition at_once :: "'r \<times> signal list \<times> abs_queue \<Rightarrow> 'r progress \<times> signal list \<times> abs_queue" where
  "at_once contract = (case contract of (r, ks, A) \<Rightarrow> (Returned r, ks, A))"

definition astep :: "bool \<Rightarrow> action \<Rightarrow> asys \<Rightarrow> asys option" where
  "astep ts a S = (case a of
      Enqueue i t choice \<Rightarrow>
        if idle i (apcs S) then aenqueue_end choice i t (spec_enqueue ts t (aq S)) S else None
    | TryEnqueue i t choice \<Rightarrow>
        if idle i (apcs S) then aenqueue_end choice i t (at_once (spec_try_enqueue ts t (aq S))) S
        else None
    | Dequeue i choice \<Rightarrow>
        if idle i (apcs S) then adequeue_end choice i (spec_dequeue ts (aq S)) S else None
    | TryDequeue i choice \<Rightarrow>
        if idle i (apcs S) then adequeue_end choice i (at_once (spec_try_dequeue ts (aq S))) S
        else None
    | Shutdown i \<Rightarrow>
        if idle i (apcs S)
        then asettle None i Idle [All_consumers, All_producers] ((aq S)\<lparr>closed := True\<rparr>) S
        else None
    | Resume i choice \<Rightarrow>
        if i < length (apcs S) then (case apcs S ! i of
            EnqNotified t \<Rightarrow> aenqueue_end choice i t (spec_enqueue_resume True ts t (aq S)) S
          | DeqNotified \<Rightarrow> adequeue_end choice i (spec_dequeue_resume True ts (aq S)) S
          | _ \<Rightarrow> None)
        else None
    | Spurious i \<Rightarrow>
        if i < length (apcs S) \<and> notify (apcs S ! i) \<noteq> apcs S ! i
        then Some (S\<lparr>apcs := (apcs S)[i := notify (apcs S ! i)]\<rparr>) else None
    | Fail i \<Rightarrow>
        if i < length (apcs S) then (case apcs S ! i of
            EnqAsleep t \<Rightarrow> aenqueue_end None i t (spec_enqueue_resume False ts t (aq S)) S
          | DeqAsleep \<Rightarrow> adequeue_end None i (spec_dequeue_resume False ts (aq S)) S
          | _ \<Rightarrow> None)
        else None)"

section \<open>The program's system refines the contract's system\<close>

definition sys_ok :: "sys \<Rightarrow> bool" where
  "sys_ok s \<longleftrightarrow> cq_ok (cq s) (wld s) \<and> wakes (wld s) = []"

lemma deliver_rouse:
  assumes "cq_ok c w" "native_wake c' = native_wake c"
  shows "deliver c (map (native_wake c') ks) choice ps = rouse ks choice ps"
proof -
  obtain impl m e f where c: "implementation c = Some impl" "cond_impl (not_empty impl) = Some e"
    "cond_impl (not_full impl) = Some f" "e \<noteq> f" using assms(1) by (auto elim: cq_okE)
  have sleep: "sleeps_on c e = wakes_up One_consumer" "sleeps_on c f = wakes_up One_producer"
    "wakes_up All_consumers = wakes_up One_consumer" "wakes_up All_producers = wakes_up One_producer"
    using c by (auto simp: fun_eq_iff elim!: wakes_up.elims sleeps_on.elims)
  have native: "native_wake c' One_consumer = Wake e" "native_wake c' One_producer = Wake f"
    "native_wake c' All_consumers = WakeAll e" "native_wake c' All_producers = WakeAll f"
    using c assms(2) by (simp_all add: native_wake_def)
  show ?thesis
  proof (induction ks arbitrary: choice ps)
    case (Cons k ks)
    then show ?case by (cases k) (simp_all add: sleep native split: option.splits)
  qed simp
qed


lemma issue_wakes:
  assumes "wakes w = []"
  shows "wakes (issue c ks w) = map (native_wake c) ks" "(issue c ks w)\<lparr>wakes := []\<rparr> = w"
  using assms by (simp_all add: issue_def)

lemma native_wake_owned:
  assumes "owned c' = owned c"
  shows "native_wake c' = native_wake c"
  using assms by (cases "implementation c"; cases "implementation c'")
    (auto simp: owned_def native_wake_def fun_eq_iff split: signal.splits)

lemma settle_refined:
  assumes "cq_ok cq' w" "owned cq' = owned c" "wakes w = []" "cq_view cq' = A"
  shows "map_option sys_view (settle choice i p (Some cq') (issue c ks w) s)
      = asettle choice i p ks A (sys_view s)
    \<and> (\<forall>s'. settle choice i p (Some cq') (issue c ks w) s = Some s' \<longrightarrow>
         sys_ok s' \<and> owned (cq s') = owned c)"
proof -
  have "deliver cq' (wakes (issue c ks w)) choice ((pcs s)[i := p])
      = rouse ks choice ((apcs (sys_view s))[i := p])"
    using deliver_rouse [OF assms(1) sym [OF native_wake_owned [OF assms(2)]]] issue_wakes [OF assms(3)]
    by (simp add: sys_view_def)
  then show ?thesis using assms issue_wakes [OF assms(3)]
    by (auto simp: settle_def asettle_def sys_view_def sys_ok_def split: option.splits)
qed

lemma enqueue_end_refined:
  assumes "refined c w outcome contract" "wakes w = []"
  shows "map_option sys_view (enqueue_end choice i t outcome s)
      = aenqueue_end choice i t contract (sys_view s)
    \<and> (\<forall>s'. enqueue_end choice i t outcome s = Some s' \<longrightarrow> sys_ok s' \<and> owned (cq s') = owned c)"
proof -
  obtain p ks A where contract: "contract = (p, ks, A)" by (cases contract)
  with assms(1) obtain cq' where cq': "outcome = ((p, Some cq'), issue c ks w)" "cq_ok cq' w"
    "owned cq' = owned c" "cq_view cq' = A" by (auto elim!: refinedE)
  note settled = settle_refined [OF cq'(2,3) assms(2) cq'(4)]
  show ?thesis
  proof (cases p)
    case Asleep
    then show ?thesis using settled contract cq'(1) by (simp add: enqueue_end_def aenqueue_end_def)
  next
    case (Returned r)
    have "sys_view (s\<lparr>accepted := x\<rparr>) = (sys_view s)\<lparr>aaccepted := x\<rparr>" for x
      by (simp add: sys_view_def)
    with Returned show ?thesis using settled contract cq'(1)
      by (simp add: enqueue_end_def aenqueue_end_def) (simp add: sys_view_def)
  qed
qed

lemma dequeue_end_refined:
  assumes "refined c w outcome contract" "wakes w = []"
  shows "map_option sys_view (dequeue_end choice i outcome s)
      = adequeue_end choice i contract (sys_view s)
    \<and> (\<forall>s'. dequeue_end choice i outcome s = Some s' \<longrightarrow> sys_ok s' \<and> owned (cq s') = owned c)"
proof -
  obtain p ks A where contract: "contract = (p, ks, A)" by (cases contract)
  with assms(1) obtain cq' where cq': "outcome = ((p, Some cq'), issue c ks w)" "cq_ok cq' w"
    "owned cq' = owned c" "cq_view cq' = A" by (auto elim!: refinedE)
  note settled = settle_refined [OF cq'(2,3) assms(2) cq'(4)]
  show ?thesis
  proof (cases p)
    case Asleep
    then show ?thesis using settled contract cq'(1) by (simp add: dequeue_end_def adequeue_end_def)
  next
    case (Returned r)
    obtain q x where r: "r = (q, x)" by (cases r)
    have "sys_view (s\<lparr>taken := x\<rparr>) = (sys_view s)\<lparr>ataken := x\<rparr>" for x
      by (simp add: sys_view_def)
    with Returned r show ?thesis using settled contract cq'(1)
      by (cases x) (simp_all add: dequeue_end_def adequeue_end_def, simp add: sys_view_def)
  qed
qed

lemma refined_returned: "refined c w outcome contract \<Longrightarrow> refined c w (returned outcome) (at_once contract)"
  by (auto simp: refined_def returned_def at_once_def split: prod.splits)

text \<open>
  One step of the program is one step of the contract, with the same choice of who wakes up;
  one is possible exactly when the other is.
\<close>

lemma step_refined:
  assumes "sys_ok s"
  shows "map_option sys_view (step ts a s) = astep ts a (sys_view s)
    \<and> (\<forall>s'. step ts a s = Some s' \<longrightarrow> sys_ok s' \<and> owned (cq s') = owned (cq s))"
proof -
  have ok: "cq_ok (cq s) (wld s)" and no: "wakes (wld s) = []" using assms by (auto simp: sys_ok_def)
  obtain impl where impl: "implementation (cq s) = Some impl" using ok by (auto elim: cq_okE)
  have ok': "cq_ok (cq s) ((wld s)\<lparr>fate := [b]\<rparr>)" for b using ok by simp
  have resume_e: "refined (cq s) ((wld s)\<lparr>fate := []\<rparr>) (run_state
      (concurrent_task_queue_enqueue_resume ts (cq s) (the (implementation (cq s))) t) ((wld s)\<lparr>fate := [b]\<rparr>))
      (spec_enqueue_resume b ts t (cq_view (cq s)))" for b t
    using enqueue_resume_refined [OF ok' impl, of b ts t] impl by (simp add: next_answer_def)
  have resume_d: "refined (cq s) ((wld s)\<lparr>fate := []\<rparr>) (run_state
      (concurrent_task_queue_dequeue_resume ts (cq s) (the (implementation (cq s)))) ((wld s)\<lparr>fate := [b]\<rparr>))
      (spec_dequeue_resume b ts (cq_view (cq s)))" for b
    using dequeue_resume_refined [OF ok' impl, of b ts] impl by (simp add: next_answer_def)
  have no': "wakes ((wld s)\<lparr>fate := []\<rparr>) = []" using no by simp
  note e = enqueue_end_refined [OF _ no] enqueue_end_refined [OF resume_e no']
  note d = dequeue_end_refined [OF _ no] dequeue_end_refined [OF resume_d no']
  have view: "apcs (sys_view s) = pcs s" "aq (sys_view s) = cq_view (cq s)" by (simp_all add: sys_view_def)
  show ?thesis
  proof (cases a)
    case (Enqueue i t choice)
    then show ?thesis using e(1) [OF enqueue_begin_refined [OF ok]] by (simp add: step_def astep_def view)
  next
    case (TryEnqueue i t choice)
    then show ?thesis using e(1) [OF refined_returned [OF try_enqueue_refined [OF ok]]]
      by (simp add: step_def astep_def view)
  next
    case (Dequeue i choice)
    then show ?thesis using d(1) [OF dequeue_begin_refined [OF ok]] by (simp add: step_def astep_def view)
  next
    case (TryDequeue i choice)
    then show ?thesis using d(1) [OF refined_returned [OF try_dequeue_refined [OF ok]]]
      by (simp add: step_def astep_def view)
  next
    case (Shutdown i)
    obtain cq' where "run_state (concurrent_task_queue_shutdown (Some (cq s))) (wld s)
        = ((CONCURRENT_TASK_QUEUE_OK, Some cq'), issue (cq s) [All_consumers, All_producers] (wld s))"
      "cq_ok cq' (wld s)" "owned cq' = owned (cq s)" "cq_view cq' = (cq_view (cq s))\<lparr>closed := True\<rparr>"
      using shutdown_refined [OF ok] by (auto elim!: refinedE)
    with Shutdown show ?thesis using settle_refined [of cq' "wld s" "cq s"] no
      by (simp add: step_def astep_def view)
  next
    case (Resume i choice)
    then show ?thesis using e(2) [of choice i] d(2) [of choice i]
      by (simp add: step_def astep_def view resume_enqueue_def resume_dequeue_def split: pc.splits)
  next
    case (Spurious i)
    then show ?thesis using assms by (simp add: step_def astep_def view) (simp add: sys_view_def sys_ok_def)
  next
    case (Fail i)
    then show ?thesis using e(2) [of None i] d(2) [of None i]
      by (simp add: step_def astep_def view resume_enqueue_def resume_dequeue_def split: pc.splits)
  qed
qed


section \<open>Counting threads\<close>

definition num :: "(pc \<Rightarrow> bool) \<Rightarrow> pc list \<Rightarrow> nat" where
  "num P ps = length (filter P ps)"

fun deq_asleep :: "pc \<Rightarrow> bool" where
  "deq_asleep DeqAsleep \<longleftrightarrow> True" | "deq_asleep p \<longleftrightarrow> False"

fun deq_notified :: "pc \<Rightarrow> bool" where
  "deq_notified DeqNotified \<longleftrightarrow> True" | "deq_notified p \<longleftrightarrow> False"

fun enq_asleep :: "pc \<Rightarrow> bool" where
  "enq_asleep (EnqAsleep t) \<longleftrightarrow> True" | "enq_asleep p \<longleftrightarrow> False"

fun enq_notified :: "pc \<Rightarrow> bool" where
  "enq_notified (EnqNotified t) \<longleftrightarrow> True" | "enq_notified p \<longleftrightarrow> False"

lemma num_update:
  "i < length ps \<Longrightarrow> num P (ps[i := p]) + of_bool (P (ps ! i)) = num P ps + of_bool (P p)"
proof (induction ps arbitrary: i)
  case (Cons q ps)
  then show ?case by (cases i) (auto simp: num_def)
qed simp

lemma num_updated:
  "i < length ps \<Longrightarrow> num P (ps[i := p]) = num P ps + of_bool (P p) - of_bool (P (ps ! i))"
  using num_update [of i ps P p] by linarith

lemma num_less: "i < length ps \<Longrightarrow> \<not> P (ps ! i) \<Longrightarrow> num P ps < length ps"
  by (metis length_filter_less nth_mem num_def)

lemma num_pos: "i < length ps \<Longrightarrow> P (ps ! i) \<Longrightarrow> 0 < num P ps"
  by (metis (mono_tags) filter_empty_conv length_greater_0_conv nth_mem num_def)

lemma num_zero: "num P ps = 0 \<longleftrightarrow> \<not> list_ex P ps"
  by (auto simp: num_def filter_empty_conv list_ex_iff)

text \<open>A thread that does not wait leaves room for one more waiter.\<close>

lemma num_waiting_less:
  assumes "i < length ps" "ps ! i = Idle"
  shows "num deq_asleep ps + num deq_notified ps < length ps" "num enq_asleep ps + num enq_notified ps < length ps"
proof -
  have "num deq_asleep qs + num deq_notified qs = num (\<lambda>p. deq_asleep p \<or> deq_notified p) qs
      \<and> num enq_asleep qs + num enq_notified qs = num (\<lambda>p. enq_asleep p \<or> enq_notified p) qs" for qs
  proof (induction qs)
    case (Cons p qs)
    then show ?case by (cases p) (simp_all add: num_def)
  qed (simp add: num_def)
  then show "num deq_asleep ps + num deq_notified ps < length ps"
    "num enq_asleep ps + num enq_notified ps < length ps"
    using num_less [OF assms(1), of "\<lambda>p. deq_asleep p \<or> deq_notified p"]
      num_less [OF assms(1), of "\<lambda>p. enq_asleep p \<or> enq_notified p"] assms(2) by simp_all
qed

text \<open>The four numbers that matter, as one tuple.\<close>

definition tally :: "pc list \<Rightarrow> nat \<times> nat \<times> nat \<times> nat" where
  "tally ps = (num deq_asleep ps, num deq_notified ps, num enq_asleep ps, num enq_notified ps)"

lemma wakes_up_eq: "wakes_up One_consumer = deq_asleep" "wakes_up All_consumers = deq_asleep"
  "wakes_up One_producer = enq_asleep" "wakes_up All_producers = enq_asleep"
  by (auto simp: fun_eq_iff elim!: wakes_up.elims deq_asleep.elims enq_asleep.elims)

lemma notify_kind:
  "deq_asleep p \<Longrightarrow> deq_notified (notify p) \<and> \<not> deq_asleep (notify p) \<and> \<not> deq_notified p
     \<and> \<not> enq_asleep p \<and> \<not> enq_notified p \<and> \<not> enq_asleep (notify p) \<and> \<not> enq_notified (notify p)"
  "enq_asleep p \<Longrightarrow> enq_notified (notify p) \<and> \<not> enq_asleep (notify p) \<and> \<not> enq_notified p
     \<and> \<not> deq_asleep p \<and> \<not> deq_notified p \<and> \<not> deq_asleep (notify p) \<and> \<not> deq_notified (notify p)"
  by (cases p; simp)+

lemma rouse_none: "rouse [] choice ps = Some ps' \<Longrightarrow> ps' = ps"
  by (simp split: if_splits)

lemma rouse_consumer:
  assumes "rouse [One_consumer] choice ps = Some ps'"
  shows "length ps' = length ps \<and> tally ps' = (if num deq_asleep ps = 0 then tally ps
    else (num deq_asleep ps - 1, num deq_notified ps + 1, num enq_asleep ps, num enq_notified ps))"
proof (cases "num deq_asleep ps = 0")
  case True
  then show ?thesis using assms by (auto simp: num_zero wakes_up_eq split: if_splits)
next
  case False
  then obtain i where i: "i < length ps" "deq_asleep (ps ! i)" "ps' = ps[i := notify (ps ! i)]"
    using assms by (auto simp: num_zero wakes_up_eq split: if_splits option.splits)
  with False notify_kind(1) [OF i(2)] show ?thesis
    using num_update [OF i(1), of deq_asleep "notify (ps ! i)"] num_update [OF i(1), of deq_notified "notify (ps ! i)"]
      num_update [OF i(1), of enq_asleep "notify (ps ! i)"] num_update [OF i(1), of enq_notified "notify (ps ! i)"]
    by (simp add: tally_def)
qed

lemma rouse_producer:
  assumes "rouse [One_producer] choice ps = Some ps'"
  shows "length ps' = length ps \<and> tally ps' = (if num enq_asleep ps = 0 then tally ps
    else (num deq_asleep ps, num deq_notified ps, num enq_asleep ps - 1, num enq_notified ps + 1))"
proof (cases "num enq_asleep ps = 0")
  case True
  then show ?thesis using assms by (auto simp: num_zero wakes_up_eq split: if_splits)
next
  case False
  then obtain i where i: "i < length ps" "enq_asleep (ps ! i)" "ps' = ps[i := notify (ps ! i)]"
    using assms by (auto simp: num_zero wakes_up_eq split: if_splits option.splits)
  with False notify_kind(2) [OF i(2)] show ?thesis
    using num_update [OF i(1), of deq_asleep "notify (ps ! i)"] num_update [OF i(1), of deq_notified "notify (ps ! i)"]
      num_update [OF i(1), of enq_asleep "notify (ps ! i)"] num_update [OF i(1), of enq_notified "notify (ps ! i)"]
    by (simp add: tally_def)
qed

lemma rouse_all:
  assumes "rouse [All_consumers, All_producers] None ps = Some ps'"
  shows "length ps' = length ps \<and> tally ps' = (0, num deq_asleep ps + num deq_notified ps, 0,
     num enq_asleep ps + num enq_notified ps)"
proof -
  have ps': "ps' = map notify ps"
  proof -
    have "(if enq_asleep (if deq_asleep p then notify p else p)
        then notify (if deq_asleep p then notify p else p) else if deq_asleep p then notify p else p) = notify p" for p
      by (cases p) simp_all
    with assms show ?thesis by (simp add: wakes_up_eq comp_def)
  qed
  have "num deq_asleep (map notify ps) = 0 \<and> num enq_asleep (map notify ps) = 0
      \<and> num deq_notified (map notify ps) = num deq_asleep ps + num deq_notified ps
      \<and> num enq_notified (map notify ps) = num enq_asleep ps + num enq_notified ps"
  proof (induction ps)
    case (Cons p ps)
    then show ?case by (cases p) (simp_all add: num_def)
  qed (simp add: num_def)
  with ps' show ?thesis by (simp add: tally_def)
qed

section \<open>The invariant\<close>

text \<open>
  The waiter counts count the waiters, nothing is lost or reordered, and no wake-up is lost:
  while a consumer sleeps, there is a woken consumer for every queued pointer; while a producer
  sleeps, there is a woken producer for every free slot; after shutdown nobody sleeps.
\<close>

definition ainv :: "asys \<Rightarrow> bool" where
  "ainv S \<longleftrightarrow> length (apcs S) < 2 ^ 64
     \<and> unat (consumers (aq S)) = num deq_asleep (apcs S) + num deq_notified (apcs S)
     \<and> unat (producers (aq S)) = num enq_asleep (apcs S) + num enq_notified (apcs S)
     \<and> ataken S @ elems (aq S) = aaccepted S
     \<and> length (elems (aq S)) \<le> bound (aq S) \<and> 0 < bound (aq S)
     \<and> (num deq_asleep (apcs S) \<noteq> 0 \<longrightarrow>
          \<not> closed (aq S) \<and> length (elems (aq S)) \<le> num deq_notified (apcs S))
     \<and> (num enq_asleep (apcs S) \<noteq> 0 \<longrightarrow>
          \<not> closed (aq S) \<and> bound (aq S) - length (elems (aq S)) \<le> num enq_notified (apcs S))"

text \<open>The part of the invariant that is about numbers only.\<close>

definition counts_ok :: "nat \<times> nat \<times> nat \<times> nat \<Rightarrow> abs_queue \<Rightarrow> bool" where
  "counts_ok n A \<longleftrightarrow> (case n of (c0, c1, p0, p1) \<Rightarrow>
     unat (consumers A) = c0 + c1 \<and> unat (producers A) = p0 + p1
     \<and> length (elems A) \<le> bound A \<and> 0 < bound A
     \<and> (c0 \<noteq> 0 \<longrightarrow> \<not> closed A \<and> length (elems A) \<le> c1)
     \<and> (p0 \<noteq> 0 \<longrightarrow> \<not> closed A \<and> bound A - length (elems A) \<le> p1))"

lemma ainv_counts:
  "ainv S \<longleftrightarrow> length (apcs S) < 2 ^ 64 \<and> ataken S @ elems (aq S) = aaccepted S
     \<and> counts_ok (tally (apcs S)) (aq S)"
  by (auto simp: ainv_def counts_ok_def tally_def)

lemma asettleE:
  assumes "asettle choice i p ks A S = Some S'"
  obtains ps' where "rouse ks choice ((apcs S)[i := p]) = Some ps'" "S' = S\<lparr>aq := A, apcs := ps'\<rparr>"
  using assms by (auto simp: asettle_def)

text \<open>
  The invariant around an insertion and a removal. A woken producer that inserts is no longer
  counted as woken, so just before the insertion the producers' clause holds for one slot less;
  likewise for a woken consumer that removes.
\<close>

lemma insert_counts:
  assumes "unat (consumers A) = num deq_asleep ps + num deq_notified ps"
    "unat (producers A) = num enq_asleep ps + num enq_notified ps"
    "length (elems A) < bound A"
    "num deq_asleep ps \<noteq> 0 \<Longrightarrow> \<not> closed A \<and> length (elems A) \<le> num deq_notified ps"
    "num enq_asleep ps \<noteq> 0 \<Longrightarrow> \<not> closed A \<and> bound A - Suc (length (elems A)) \<le> num enq_notified ps"
    and "rouse (fst (spec_insert ts t A)) choice ps = Some ps'"
  shows "length ps' = length ps \<and> counts_ok (tally ps') (snd (spec_insert ts t A))"
proof -
  have "0 < consumers A" if "num deq_asleep ps \<noteq> 0"
    using that assms(1) by (auto simp: word_pos_iff unat_0_iff)
  then show ?thesis
    using assms rouse_consumer [of choice ps ps'] rouse_none [of choice ps ps']
    by (auto simp: spec_insert_def counts_ok_def tally_def split: if_splits)
qed

lemma remove_counts:
  assumes "unat (consumers A) = num deq_asleep ps + num deq_notified ps"
    "unat (producers A) = num enq_asleep ps + num enq_notified ps"
    "length (elems A) \<le> bound A" "elems A \<noteq> []"
    "num deq_asleep ps \<noteq> 0 \<Longrightarrow> \<not> closed A \<and> length (elems A) \<le> Suc (num deq_notified ps)"
    "num enq_asleep ps \<noteq> 0 \<Longrightarrow> \<not> closed A \<and> bound A - length (elems A) \<le> num enq_notified ps"
    and "rouse (fst (spec_remove ts A)) choice ps = Some ps'"
  shows "length ps' = length ps \<and> counts_ok (tally ps') (snd (spec_remove ts A))"
proof -
  have "0 < producers A" if "num enq_asleep ps \<noteq> 0"
    using that assms(2) by (auto simp: word_pos_iff unat_0_iff)
  moreover obtain x xs where "elems A = x # xs" using assms(4) by (cases "elems A") auto
  ultimately show ?thesis
    using assms rouse_producer [of choice ps ps'] rouse_none [of choice ps ps']
    by (auto simp: spec_remove_def counts_ok_def tally_def split: if_splits)
qed

lemma tally_update:
  assumes "i < length ps"
  shows "tally (ps[i := p]) =
    (num deq_asleep ps + of_bool (deq_asleep p) - of_bool (deq_asleep (ps ! i)),
     num deq_notified ps + of_bool (deq_notified p) - of_bool (deq_notified (ps ! i)),
     num enq_asleep ps + of_bool (enq_asleep p) - of_bool (enq_asleep (ps ! i)),
     num enq_notified ps + of_bool (enq_notified p) - of_bool (enq_notified (ps ! i)))"
  by (simp add: tally_def num_updated [OF assms])

text \<open>One more and one less waiter in the program's 64-bit counts.\<close>

lemma unat_more: "unat x + 1 < 2 ^ 64 \<Longrightarrow> unat (x + 1) = unat x + 1" for x :: size_t
  by (simp add: unat_word_ariths)

lemma unat_less: "unat x \<noteq> 0 \<Longrightarrow> unat (x - 1) = unat x - 1" for x :: size_t
  by (simp add: unat_0_iff)

subsection \<open>Every step keeps it\<close>

text \<open>
  What holds when thread \<open>i\<close>, no longer counted as a waiter, is about to test its condition:
  the invariant up to the one pointer or slot that this thread may have been woken for.
\<close>

definition about_to :: "nat \<Rightarrow> nat \<Rightarrow> nat \<Rightarrow> abs_queue \<Rightarrow> asys \<Rightarrow> bool" where
  "about_to d e i A S \<longleftrightarrow> i < length (apcs S) \<and> length (apcs S) < 2 ^ 64
     \<and> ataken S @ elems A = aaccepted S \<and> length (elems A) \<le> bound A \<and> 0 < bound A
     \<and> (let ps = (apcs S)[i := Idle] in
         unat (consumers A) = num deq_asleep ps + num deq_notified ps
       \<and> unat (producers A) = num enq_asleep ps + num enq_notified ps
       \<and> (num deq_asleep ps \<noteq> 0 \<longrightarrow> \<not> closed A \<and> length (elems A) \<le> num deq_notified ps + d)
       \<and> (num enq_asleep ps \<noteq> 0 \<longrightarrow> \<not> closed A \<and> bound A - length (elems A) \<le> num enq_notified ps + e))"

lemma about_to_start: "ainv S \<Longrightarrow> idle i (apcs S) \<Longrightarrow> about_to 0 0 i (aq S) S"
  by (simp add: ainv_def about_to_def Let_def num_updated)

lemma about_to_more: "about_to 0 0 i A S \<Longrightarrow> about_to d e i A S"
  by (auto simp: about_to_def Let_def)

lemma about_to_resume:
  assumes "ainv S" "i < length (apcs S)"
  shows "apcs S ! i = EnqNotified t \<Longrightarrow>
      about_to 0 1 i ((aq S)\<lparr>producers := producers (aq S) - 1\<rparr>) S"
    "apcs S ! i = DeqNotified \<Longrightarrow>
      about_to 1 0 i ((aq S)\<lparr>consumers := consumers (aq S) - 1\<rparr>) S"
    "apcs S ! i = EnqAsleep t \<Longrightarrow>
      about_to 0 0 i ((aq S)\<lparr>producers := producers (aq S) - 1\<rparr>) S"
    "apcs S ! i = DeqAsleep \<Longrightarrow>
      about_to 0 0 i ((aq S)\<lparr>consumers := consumers (aq S) - 1\<rparr>) S"
proof -
  note pos = num_pos [OF assms(2)]
  show "about_to 0 1 i ((aq S)\<lparr>producers := producers (aq S) - 1\<rparr>) S" if "apcs S ! i = EnqNotified t"
    using assms that pos [of enq_notified]
    by (auto simp: ainv_def about_to_def Let_def num_updated unat_less)
  show "about_to 1 0 i ((aq S)\<lparr>consumers := consumers (aq S) - 1\<rparr>) S" if "apcs S ! i = DeqNotified"
    using assms that pos [of deq_notified]
    by (auto simp: ainv_def about_to_def Let_def num_updated unat_less)
  show "about_to 0 0 i ((aq S)\<lparr>producers := producers (aq S) - 1\<rparr>) S" if "apcs S ! i = EnqAsleep t"
    using assms that pos [of enq_asleep]
    by (auto simp: ainv_def about_to_def Let_def num_updated unat_less)
  show "about_to 0 0 i ((aq S)\<lparr>consumers := consumers (aq S) - 1\<rparr>) S" if "apcs S ! i = DeqAsleep"
    using assms that pos [of deq_asleep]
    by (auto simp: ainv_def about_to_def Let_def num_updated unat_less)
qed

text \<open>Returning without touching the queue, inserting, removing, and going to sleep.\<close>

lemma give_up_inv:
  assumes "about_to 0 0 i A S" "asettle choice i Idle [] A S = Some S'"
  shows "ainv S'"
  using assms by (auto simp: about_to_def ainv_def Let_def elim!: asettleE dest!: rouse_none)

lemma insert_inv:
  assumes "about_to 0 1 i A S" "length (elems A) \<noteq> bound A" "spec_insert ts t A = (ks, A')"
    and "asettle choice i Idle ks A' (S\<lparr>aaccepted := aaccepted S @ [t]\<rparr>) = Some S'"
  shows "ainv S'"
proof -
  obtain ps' where ps': "rouse (fst (spec_insert ts t A)) choice ((apcs S)[i := Idle]) = Some ps'"
    "S' = S\<lparr>aaccepted := aaccepted S @ [t], aq := A', apcs := ps'\<rparr>"
    using assms(3,4) by (auto elim!: asettleE)
  have "length ps' = length ((apcs S)[i := Idle]) \<and> counts_ok (tally ps') (snd (spec_insert ts t A))"
    by (rule insert_counts [OF _ _ _ _ _ ps'(1)]) (use assms(1,2) in \<open>auto simp: about_to_def Let_def\<close>)
  with ps'(2) assms(1,3) show ?thesis by (auto simp: ainv_counts about_to_def spec_insert_def)
qed

lemma remove_inv:
  assumes "about_to 1 0 i A S" "elems A \<noteq> []" "spec_remove ts A = (ks, A')"
    and "asettle choice i Idle ks A' (S\<lparr>ataken := ataken S @ [hd (elems A)]\<rparr>) = Some S'"
  shows "ainv S'"
proof -
  obtain ps' where ps': "rouse (fst (spec_remove ts A)) choice ((apcs S)[i := Idle]) = Some ps'"
    "S' = S\<lparr>ataken := ataken S @ [hd (elems A)], aq := A', apcs := ps'\<rparr>"
    using assms(3,4) by (auto elim!: asettleE)
  have "length ps' = length ((apcs S)[i := Idle]) \<and> counts_ok (tally ps') (snd (spec_remove ts A))"
    by (rule remove_counts [OF _ _ _ _ _ _ ps'(1)]) (use assms(1,2) in \<open>auto simp: about_to_def Let_def\<close>)
  with ps'(2) assms show ?thesis by (auto simp: ainv_counts about_to_def spec_remove_def)
qed

lemma room_for_waiter:
  assumes "about_to d e i A S"
  shows "unat (producers A + 1) = unat (producers A) + 1" "unat (consumers A + 1) = unat (consumers A) + 1"
proof -
  have "idle i ((apcs S)[i := Idle])" using assms by (simp add: about_to_def)
  then have "num deq_asleep ((apcs S)[i := Idle]) + num deq_notified ((apcs S)[i := Idle]) < length (apcs S)"
    "num enq_asleep ((apcs S)[i := Idle]) + num enq_notified ((apcs S)[i := Idle]) < length (apcs S)"
    using num_waiting_less [of i "(apcs S)[i := Idle]"] by simp_all
  with assms have "unat (producers A) + 1 < 2 ^ 64" "unat (consumers A) + 1 < 2 ^ 64"
    by (simp_all add: about_to_def Let_def)
  then show "unat (producers A + 1) = unat (producers A) + 1"
    "unat (consumers A + 1) = unat (consumers A) + 1"
    by (simp_all only: unat_more)
qed

lemma num_from_idle:
  "i < length ps \<Longrightarrow> \<not> P Idle \<Longrightarrow> num P (ps[i := p]) = num P (ps[i := Idle]) + of_bool (P p)"
  using num_updated [of i "ps[i := Idle]" P p] by simp

lemma tally_from_idle:
  assumes "i < length ps"
  shows "num deq_asleep (ps[i := p]) = num deq_asleep (ps[i := Idle]) + of_bool (deq_asleep p)"
    "num deq_notified (ps[i := p]) = num deq_notified (ps[i := Idle]) + of_bool (deq_notified p)"
    "num enq_asleep (ps[i := p]) = num enq_asleep (ps[i := Idle]) + of_bool (enq_asleep p)"
    "num enq_notified (ps[i := p]) = num enq_notified (ps[i := Idle]) + of_bool (enq_notified p)"
  by (rule num_from_idle [OF assms], simp)+

lemma producer_sleep_inv:
  assumes "about_to 0 e i A S" "length (elems A) = bound A" "\<not> closed A"
    and "asettle choice i (EnqAsleep t) [] (A\<lparr>producers := producers A + 1\<rparr>) S = Some S'"
  shows "ainv S'"
proof -
  have i: "i < length (apcs S)" using assms(1) by (simp add: about_to_def)
  have "S' = S\<lparr>aq := A\<lparr>producers := producers A + 1\<rparr>, apcs := (apcs S)[i := EnqAsleep t]\<rparr>"
    using assms(4) by (auto elim!: asettleE dest!: rouse_none)
  then show ?thesis
    using assms(1-3) room_for_waiter(1) [OF assms(1)] tally_from_idle [OF i, of "EnqAsleep t"]
    by (simp add: about_to_def ainv_def Let_def)
qed

lemma consumer_sleep_inv:
  assumes "about_to d 0 i A S" "elems A = []" "\<not> closed A"
    and "asettle choice i DeqAsleep [] (A\<lparr>consumers := consumers A + 1\<rparr>) S = Some S'"
  shows "ainv S'"
proof -
  have i: "i < length (apcs S)" using assms(1) by (simp add: about_to_def)
  have "S' = S\<lparr>aq := A\<lparr>consumers := consumers A + 1\<rparr>, apcs := (apcs S)[i := DeqAsleep]\<rparr>"
    using assms(4) by (auto elim!: asettleE dest!: rouse_none)
  then show ?thesis
    using assms(1-3) room_for_waiter(2) [OF assms(1)] tally_from_idle [OF i, of DeqAsleep]
    by (simp add: about_to_def ainv_def Let_def)
qed

lemma closed_awake: "about_to d e i A S \<Longrightarrow> closed A \<Longrightarrow> about_to 0 0 i A S"
  by (auto simp: about_to_def Let_def)

lemma enqueue_part_inv:
  assumes "about_to 0 1 i A S" "aenqueue_end choice i t (spec_enqueue ts t A) S = Some S'"
  shows "ainv S'"
proof -
  obtain ks A' where ins: "spec_insert ts t A = (ks, A')" by fastforce
  consider "closed A" | "\<not> closed A" "length (elems A) = bound A"
    | "\<not> closed A" "length (elems A) \<noteq> bound A" by blast
  then show ?thesis
  proof cases
    case 1
    with assms(2) show ?thesis using give_up_inv [OF closed_awake [OF assms(1) 1]]
      by (simp add: aenqueue_end_def spec_enqueue_def)
  next
    case 2
    with assms(2) show ?thesis using producer_sleep_inv [OF assms(1) 2(2,1)]
      by (simp add: aenqueue_end_def spec_enqueue_def)
  next
    case 3
    with assms(2) show ?thesis using insert_inv [OF assms(1) 3(2) ins] ins
      by (simp add: aenqueue_end_def spec_enqueue_def)
  qed
qed

lemma dequeue_part_inv:
  assumes "about_to 1 0 i A S" "adequeue_end choice i (spec_dequeue ts A) S = Some S'"
  shows "ainv S'"
proof -
  obtain ks A' where rem: "spec_remove ts A = (ks, A')" by fastforce
  consider "elems A = []" "closed A" | "elems A = []" "\<not> closed A" | "elems A \<noteq> []" by blast
  then show ?thesis
  proof cases
    case 1
    with assms(2) show ?thesis using give_up_inv [OF closed_awake [OF assms(1) 1(2)]]
      by (simp add: adequeue_end_def spec_dequeue_def)
  next
    case 2
    with assms(2) show ?thesis using consumer_sleep_inv [OF assms(1) 2]
      by (simp add: adequeue_end_def spec_dequeue_def)
  next
    case 3
    with assms(2) show ?thesis using remove_inv [OF assms(1) 3 rem] rem
      by (simp add: adequeue_end_def spec_dequeue_def)
  qed
qed

text \<open>Every action keeps the invariant.\<close>

lemma astep_inv:
  assumes inv: "ainv S" and step: "astep ts a S = Some S'"
  shows "ainv S'"
proof (cases a)
  case (Enqueue i t choice)
  then have "about_to 0 1 i (aq S) S" using about_to_start [OF inv] about_to_more step
    by (auto simp: astep_def split: if_splits)
  with Enqueue step enqueue_part_inv show ?thesis by (auto simp: astep_def split: if_splits)
next
  case (TryEnqueue i t choice)
  then have i: "idle i (apcs S)" and e: "aenqueue_end choice i t (at_once (spec_try_enqueue ts t (aq S))) S = Some S'"
    using step by (auto simp: astep_def split: if_splits)
  show ?thesis
  proof (cases "\<not> closed (aq S) \<and> length (elems (aq S)) = bound (aq S)")
    case True
    with e give_up_inv [OF about_to_start [OF inv i]] show ?thesis
      by (simp add: at_once_def spec_try_enqueue_def aenqueue_end_def)
  next
    case False
    then have "at_once (spec_try_enqueue ts t (aq S)) = spec_enqueue ts t (aq S)"
      by (auto simp: at_once_def spec_try_enqueue_def spec_enqueue_def split: prod.splits)
    with e enqueue_part_inv [OF about_to_more [OF about_to_start [OF inv i]]] show ?thesis by simp
  qed
next
  case (Dequeue i choice)
  then have "about_to 1 0 i (aq S) S" using about_to_start [OF inv] about_to_more step
    by (auto simp: astep_def split: if_splits)
  with Dequeue step dequeue_part_inv show ?thesis by (auto simp: astep_def split: if_splits)
next
  case (TryDequeue i choice)
  then have i: "idle i (apcs S)" and e: "adequeue_end choice i (at_once (spec_try_dequeue ts (aq S))) S = Some S'"
    using step by (auto simp: astep_def split: if_splits)
  show ?thesis
  proof (cases "\<not> closed (aq S) \<and> elems (aq S) = []")
    case True
    with e give_up_inv [OF about_to_start [OF inv i]] show ?thesis
      by (simp add: at_once_def spec_try_dequeue_def adequeue_end_def)
  next
    case False
    then have "at_once (spec_try_dequeue ts (aq S)) = spec_dequeue ts (aq S)"
      by (auto simp: at_once_def spec_try_dequeue_def spec_dequeue_def split: prod.splits)
    with e dequeue_part_inv [OF about_to_more [OF about_to_start [OF inv i]]] show ?thesis by simp
  qed
next
  case (Shutdown i)
  then have i: "idle i (apcs S)"
    and e: "asettle None i Idle [All_consumers, All_producers] ((aq S)\<lparr>closed := True\<rparr>) S = Some S'"
    using step by (auto simp: astep_def split: if_splits)
  from i have "(apcs S)[i := Idle] = apcs S" by (metis list_update_id)
  with e rouse_all [of "apcs S"] obtain ps' where "S' = S\<lparr>aq := (aq S)\<lparr>closed := True\<rparr>, apcs := ps'\<rparr>"
    "length ps' = length (apcs S)" "tally ps' = (0, num deq_asleep (apcs S) + num deq_notified (apcs S), 0,
       num enq_asleep (apcs S) + num enq_notified (apcs S))" by (auto elim!: asettleE)
  with inv show ?thesis by (simp add: ainv_def tally_def)
next
  case (Resume i choice)
  with step inv about_to_resume [OF inv] enqueue_part_inv dequeue_part_inv show ?thesis
    by (fastforce simp: astep_def spec_enqueue_resume_def spec_dequeue_resume_def Let_def
        split: if_splits pc.splits)
next
  case (Spurious i)
  then have i: "i < length (apcs S)" and S': "S' = S\<lparr>apcs := (apcs S)[i := notify (apcs S ! i)]\<rparr>"
    using step by (auto simp: astep_def split: if_splits)
  with inv num_pos [OF i, of deq_asleep] num_pos [OF i, of enq_asleep] show ?thesis
    by (cases "apcs S ! i") (auto simp: ainv_def num_updated)
next
  case (Fail i)
  with step give_up_inv [OF about_to_resume(3) [OF inv]] give_up_inv [OF about_to_resume(4) [OF inv]]
  show ?thesis
    by (auto simp: astep_def spec_enqueue_resume_def spec_dequeue_resume_def aenqueue_end_def
        adequeue_end_def split: if_splits pc.splits)
qed


section \<open>Runs\<close>

interpretation contract: invariant_system "astep ts" ainv for ts
  by unfold_locales (rule astep_inv)

definition sys_inv :: "sys \<Rightarrow> bool" where
  "sys_inv s \<longleftrightarrow> sys_ok s \<and> ainv (sys_view s)"

lemma step_view: "sys_ok s \<Longrightarrow> step ts a s = Some s' \<Longrightarrow> astep ts a (sys_view s) = Some (sys_view s')"
  using step_refined [of s ts a] by (metis option.simps(9))

interpretation program: invariant_system "step ts" sys_inv for ts
proof
  fix s a s' assume "sys_inv s" "step ts a s = Some s'"
  then show "sys_inv s'"
    using step_refined [of s ts a] step_view [of s ts a s'] astep_inv by (auto simp: sys_inv_def)
qed

text \<open>The start: \<open>n\<close> threads, none of them in a call, and a queue as init leaves it.\<close>

definition start_sys :: "ConcurrentTaskQueue \<Rightarrow> world \<Rightarrow> nat \<Rightarrow> sys" where
  "start_sys c w n = \<lparr>cq = c, wld = w\<lparr>wakes := []\<rparr>, pcs = replicate n Idle, accepted = [], taken = []\<rparr>"

lemma num_replicate: "\<not> P p \<Longrightarrow> num P (replicate n p) = 0"
  by (simp add: num_def)

definition fresh_queue :: "ConcurrentTaskQueue \<Rightarrow> world \<Rightarrow> bool" where
  "fresh_queue c w \<longleftrightarrow> cq_ok c w \<and> elems (cq_view c) = [] \<and> \<not> closed (cq_view c)
     \<and> consumers (cq_view c) = 0 \<and> producers (cq_view c) = 0"

lemma cq_bound_pos: "cq_ok c w \<Longrightarrow> 0 < bound (cq_view c)"
  by (auto simp: cq_ok_def cq_view_def elim!: queue_wfE)

lemma start_inv: "fresh_queue c w \<Longrightarrow> n < 2 ^ 64 \<Longrightarrow> sys_inv (start_sys c w n)"
  using cq_bound_pos [of c w]
  by (simp add: sys_inv_def sys_ok_def start_sys_def fresh_queue_def ainv_def sys_view_def num_replicate)

lemma init_fresh:
  assumes "ledger_ok w" "set (held w) \<subseteq> sections w"
    "run_state (concurrent_task_queue_init (Some raw) cap) w = ((CONCURRENT_TASK_QUEUE_OK, Some c), w')"
  shows "fresh_queue c w'"
proof -
  have cap: "\<not> (cap = 0 \<or> cap > SIZE_MAX div SIZEOF_TASK_PTR)"
    using assms(3) by (auto simp: concurrent_task_queue_init_def)
  then have "cap \<noteq> 0" "cap \<le> SIZE_MAX div SIZEOF_TASK_PTR" by (auto simp: not_less)
  then have "wp (concurrent_task_queue_init (Some raw) cap) (\<lambda>(r, out) w'.
      r = CONCURRENT_TASK_QUEUE_OK \<longrightarrow> (\<exists>c. out = Some c \<and> fresh_queue c w')) w"
    by (rule wp_concurrent_init [OF owns_start [OF assms(1,2)]]) (simp_all add: fresh_queue_def)
  from wp_run [OF this assms(3)] show ?thesis by simp
qed

text \<open>A run of the program is a run of the contract.\<close>

lemma run_view:
  "sys_inv s \<Longrightarrow> map_option sys_view (run_actions (step ts) as s) = run_actions (astep ts) as (sys_view s)"
proof (induction as arbitrary: s)
  case (Cons a as)
  have ok: "sys_ok s" using Cons.prems by (simp add: sys_inv_def)
  note one = conjunct1 [OF step_refined [OF ok, of ts a]]
  show ?case
  proof (cases "step ts a s")
    case None
    with one show ?thesis by (simp split: option.splits)
  next
    case (Some s')
    with one have "astep ts a (sys_view s) = Some (sys_view s')" by simp
    with Some Cons.IH [OF program.step_inv [OF Cons.prems Some]] show ?thesis by simp
  qed
qed simp

section \<open>Signalling only on transitions\<close>

lemma insert_signals:
  assumes "about_to d e i A S" "apcs T = apcs S"
  shows "asettle choice i Idle (fst (spec_insert True t A)) (snd (spec_insert True t A)) T
      = asettle choice i Idle (fst (spec_insert False t A)) (snd (spec_insert False t A)) T"
proof -
  have "\<not> list_ex (wakes_up One_consumer) ((apcs S)[i := Idle])" if "\<not> 0 < consumers A"
    using assms(1) that by (auto simp: about_to_def Let_def word_pos_iff num_zero wakes_up_eq)
  with assms(2) show ?thesis by (auto simp: spec_insert_def asettle_def)
qed

lemma remove_signals:
  assumes "about_to d e i A S" "apcs T = apcs S"
  shows "asettle choice i Idle (fst (spec_remove True A)) (snd (spec_remove True A)) T
      = asettle choice i Idle (fst (spec_remove False A)) (snd (spec_remove False A)) T"
proof -
  have "\<not> list_ex (wakes_up One_producer) ((apcs S)[i := Idle])" if "\<not> 0 < producers A"
    using assms(1) that by (auto simp: about_to_def Let_def word_pos_iff num_zero wakes_up_eq)
  with assms(2) show ?thesis by (auto simp: spec_remove_def asettle_def)
qed

lemma enqueue_signals:
  assumes "about_to d e i A S"
  shows "aenqueue_end choice i t (spec_enqueue True t A) S = aenqueue_end choice i t (spec_enqueue False t A) S"
    "aenqueue_end choice i t (at_once (spec_try_enqueue True t A)) S
       = aenqueue_end choice i t (at_once (spec_try_enqueue False t A)) S"
  using insert_signals [OF assms, of "S\<lparr>aaccepted := aaccepted S @ [t]\<rparr>" choice t]
  by (auto simp: aenqueue_end_def spec_enqueue_def at_once_def spec_try_enqueue_def split: prod.splits)

lemma dequeue_signals:
  assumes "about_to d e i A S"
  shows "adequeue_end choice i (spec_dequeue True A) S = adequeue_end choice i (spec_dequeue False A) S"
    "adequeue_end choice i (at_once (spec_try_dequeue True A)) S
       = adequeue_end choice i (at_once (spec_try_dequeue False A)) S"
  using remove_signals [OF assms, of "S\<lparr>ataken := ataken S @ [hd (elems A)]\<rparr>" choice]
  by (auto simp: adequeue_end_def spec_dequeue_def at_once_def spec_try_dequeue_def split: prod.splits)

lemma astep_signals:
  assumes inv: "ainv S"
  shows "astep True a S = astep False a S"
proof (cases a)
  case (Resume i choice)
  then show ?thesis using enqueue_signals(1) [OF about_to_resume(1) [OF inv]]
      dequeue_signals(1) [OF about_to_resume(2) [OF inv]]
    by (auto simp: astep_def spec_enqueue_resume_def spec_dequeue_resume_def Let_def split: pc.splits)
next
  case (Fail i)
  then show ?thesis by (auto simp: astep_def spec_enqueue_resume_def spec_dequeue_resume_def split: pc.splits)
qed (use enqueue_signals [OF about_to_start [OF inv]] dequeue_signals [OF about_to_start [OF inv]]
      in \<open>auto simp: astep_def\<close>)

lemma run_signals: "ainv S \<Longrightarrow> run_actions (astep True) as S = run_actions (astep False) as S"
proof (induction as arbitrary: S)
  case (Cons a as)
  then show ?case using astep_signals [OF Cons.prems, of a]
    by (auto split: option.splits dest: astep_inv)
qed simp

section \<open>Progress\<close>

lemma rouse_possible: "length ks \<le> 1 \<Longrightarrow> \<exists>choice ps'. rouse ks choice ps = Some ps'"
proof (cases ks)
  case (Cons k ks')
  assume "length ks \<le> 1"
  with Cons have ks: "ks = [k]" by simp
  show ?thesis
  proof (cases "(k = All_consumers \<or> k = All_producers) \<or> \<not> list_ex (wakes_up k) ps")
    case True
    then show ?thesis using ks by (intro exI [of _ None]) auto
  next
    case False
    then obtain i where "i < length ps" "wakes_up k (ps ! i)" by (auto simp: list_ex_length)
    then show ?thesis using ks False by (intro exI [of _ "Some i"]) auto
  qed
qed auto

lemma signals_few: "length (fst (spec_insert ts t A)) \<le> 1" "length (fst (spec_remove ts A)) \<le> 1"
  by (simp_all add: spec_insert_def spec_remove_def)

lemma settle_possible: "length ks \<le> 1 \<Longrightarrow> \<exists>choice S'. asettle choice i p ks A S = Some S'"
  using rouse_possible [of ks "(apcs S)[i := p]"] by (auto simp: asettle_def)

lemma enqueue_possible: "\<exists>choice S'. aenqueue_end choice i t (spec_enqueue ts t A) S = Some S'"
  using signals_few(1) [of ts t A]
  by (cases "spec_insert ts t A") (auto simp: aenqueue_end_def spec_enqueue_def intro!: settle_possible)

lemma dequeue_possible: "\<exists>choice S'. adequeue_end choice i (spec_dequeue ts A) S = Some S'"
  using signals_few(2) [of ts A]
  by (cases "spec_remove ts A") (auto simp: adequeue_end_def spec_dequeue_def intro!: settle_possible)

abbreviation notified :: "pc \<Rightarrow> bool" where
  "notified p \<equiv> enq_notified p \<or> deq_notified p"

lemma resume_possible:
  assumes "sys_ok s" "i < length (pcs s)" "notified (pcs s ! i)"
  shows "\<exists>choice s'. step ts (Resume i choice) s = Some s'"
proof -
  have view: "apcs (sys_view s) = pcs s" by (simp add: sys_view_def)
  have "\<exists>choice S'. astep ts (Resume i choice) (sys_view s) = Some S'"
    using assms(2,3) enqueue_possible dequeue_possible
    by (cases "pcs s ! i") (auto simp: astep_def view spec_enqueue_resume_def spec_dequeue_resume_def)
  then obtain choice where "astep ts (Resume i choice) (sys_view s) \<noteq> None" by auto
  with step_refined [OF assms(1), of ts "Resume i choice"] have "step ts (Resume i choice) s \<noteq> None" by auto
  then show ?thesis by blast
qed


section \<open>After shutdown\<close>

definition waiting :: "pc list \<Rightarrow> nat" where
  "waiting ps = num enq_asleep ps + num enq_notified ps + num deq_asleep ps + num deq_notified ps"

lemma waiting_idle: "waiting ps = 0 \<longleftrightarrow> (\<forall>p \<in> set ps. p = Idle)"
proof (induction ps)
  case (Cons p ps)
  then show ?case by (cases p) (auto simp: waiting_def num_def)
qed (simp add: waiting_def num_def)

definition progresses :: "action \<Rightarrow> bool" where
  "progresses a \<longleftrightarrow> (case a of Resume i c \<Rightarrow> True | _ \<Rightarrow> False)"

text \<open>
  Once the queue is closed: it stays closed, nothing is inserted, nobody falls asleep, and each
  step of a woken thread ends that thread's call.
\<close>

lemma waiting_update:
  assumes "i < length ps" "p = Idle"
  shows "waiting (ps[i := p]) = waiting ps - of_bool (ps ! i \<noteq> Idle)"
proof -
  have pos: "P (ps ! i) \<Longrightarrow> 0 < num P ps" for P using num_pos [OF assms(1)] .
  show ?thesis using assms pos [of enq_asleep] pos [of enq_notified] pos [of deq_asleep] pos [of deq_notified]
    by (cases "ps ! i") (simp_all add: waiting_def num_updated)
qed

lemma asettle_closed:
  assumes "asettle choice i Idle ks A S = Some S'" "num enq_asleep (apcs S) = 0" "num deq_asleep (apcs S) = 0"
    "i < length (apcs S)" "length ks \<le> 1" "\<not> list_ex (\<lambda>k. k = All_consumers \<or> k = All_producers) ks"
  shows "aq S' = A \<and> apcs S' = (apcs S)[i := Idle] \<and> aaccepted S' = aaccepted S"
proof -
  have none: "\<not> list_ex (wakes_up k) ((apcs S)[i := Idle])" for k
  proof -
    have "num enq_asleep ((apcs S)[i := Idle]) = 0" "num deq_asleep ((apcs S)[i := Idle]) = 0"
      using assms(2-4) by (simp_all add: num_updated)
    then show ?thesis by (cases k) (simp_all add: num_zero wakes_up_eq)
  qed
  obtain ps' where ps': "rouse ks choice ((apcs S)[i := Idle]) = Some ps'" "S' = S\<lparr>aq := A, apcs := ps'\<rparr>"
    using assms(1) by (auto elim!: asettleE)
  have "ps' = (apcs S)[i := Idle]"
    using ps'(1) assms(5,6) none by (cases ks) (auto split: if_splits)
  with ps'(2) show ?thesis by simp
qed

lemma closed_enqueue:
  assumes "about_to 0 1 i A S" "closed A" "num enq_asleep (apcs S) = 0" "num deq_asleep (apcs S) = 0"
    and "aenqueue_end choice i t (spec_enqueue ts t A) S = Some S'"
  shows "closed (aq S') \<and> apcs S' = (apcs S)[i := Idle] \<and> aaccepted S' = aaccepted S"
  using assms(2,5) asettle_closed [of choice i "[]" A S S'] assms(1,3,4)
  by (auto simp: aenqueue_end_def spec_enqueue_def about_to_def)

lemma closed_dequeue:
  assumes "about_to 1 0 i A S" "closed A" "num enq_asleep (apcs S) = 0" "num deq_asleep (apcs S) = 0"
    and "adequeue_end choice i (spec_dequeue ts A) S = Some S'"
  shows "closed (aq S') \<and> apcs S' = (apcs S)[i := Idle] \<and> aaccepted S' = aaccepted S"
proof -
  have i: "i < length (apcs S)" using assms(1) by (simp add: about_to_def)
  obtain ks A' where rem: "spec_remove ts A = (ks, A')" by fastforce
  then have ks: "length ks \<le> 1" "\<not> list_ex (\<lambda>k. k = All_consumers \<or> k = All_producers) ks" "closed A' = closed A"
    by (auto simp: spec_remove_def split: if_splits)
  show ?thesis
  proof (cases "elems A = []")
    case True
    with assms i asettle_closed [of choice i "[]" A S S'] show ?thesis
      by (auto simp: adequeue_end_def spec_dequeue_def)
  next
    case False
    with assms(5) rem have "asettle choice i Idle ks A' (S\<lparr>ataken := ataken S @ [hd (elems A)]\<rparr>) = Some S'"
      by (simp add: adequeue_end_def spec_dequeue_def)
    from asettle_closed [OF this _ _ _ ks(1,2)] assms(2-4) i ks(3) show ?thesis by simp
  qed
qed

lemma astep_closed:
  assumes inv: "ainv S" and closed: "closed (aq S)" and step: "astep ts a S = Some S'"
  shows "closed (aq S') \<and> aaccepted S' = aaccepted S
    \<and> waiting (apcs S') + of_bool (progresses a) = waiting (apcs S)"
proof -
  have awake: "num enq_asleep (apcs S) = 0" "num deq_asleep (apcs S) = 0"
    using inv closed by (auto simp: ainv_def)
  have asleep: False if "i < length (apcs S)" "deq_asleep (apcs S ! i) \<or> enq_asleep (apcs S ! i)" for i
    using that(2)
  proof
    assume "deq_asleep (apcs S ! i)"
    then have "0 < num deq_asleep (apcs S)" by (rule num_pos [OF that(1)])
    then show False using awake(2) by simp
  next
    assume "enq_asleep (apcs S ! i)"
    then have "0 < num enq_asleep (apcs S)" by (rule num_pos [OF that(1)])
    then show False using awake(1) by simp
  qed
  note w = waiting_update [OF _ refl, of _ "apcs S"]
  note enq = closed_enqueue [OF _ _ awake] and deq = closed_dequeue [OF _ _ awake]
  note start = about_to_more [OF about_to_start [OF inv]]
  show ?thesis
  proof (cases a)
    case (Enqueue i t choice)
    then have i: "idle i (apcs S)" and e: "aenqueue_end choice i t (spec_enqueue ts t (aq S)) S = Some S'"
      using step by (simp_all add: astep_def split: if_splits)
    with enq [OF start [OF i] closed e] w [of i] Enqueue show ?thesis by (simp add: progresses_def)
  next
    case (TryEnqueue i t choice)
    have "at_once (spec_try_enqueue ts t (aq S)) = spec_enqueue ts t (aq S)"
      using closed by (simp add: at_once_def spec_try_enqueue_def spec_enqueue_def)
    with TryEnqueue have i: "idle i (apcs S)"
      and e: "aenqueue_end choice i t (spec_enqueue ts t (aq S)) S = Some S'"
      using step by (simp_all add: astep_def split: if_splits)
    with enq [OF start [OF i] closed e] w [of i] TryEnqueue show ?thesis by (simp add: progresses_def)
  next
    case (Dequeue i choice)
    then have i: "idle i (apcs S)" and e: "adequeue_end choice i (spec_dequeue ts (aq S)) S = Some S'"
      using step by (simp_all add: astep_def split: if_splits)
    with deq [OF start [OF i] closed e] w [of i] Dequeue show ?thesis by (simp add: progresses_def)
  next
    case (TryDequeue i choice)
    have "at_once (spec_try_dequeue ts (aq S)) = spec_dequeue ts (aq S)"
      using closed by (auto simp: at_once_def spec_try_dequeue_def spec_dequeue_def split: prod.splits)
    with TryDequeue have i: "idle i (apcs S)"
      and e: "adequeue_end choice i (spec_dequeue ts (aq S)) S = Some S'"
      using step by (simp_all add: astep_def split: if_splits)
    with deq [OF start [OF i] closed e] w [of i] TryDequeue show ?thesis by (simp add: progresses_def)
  next
    case (Shutdown i)
    then have i: "idle i (apcs S)"
      and e: "asettle None i Idle [All_consumers, All_producers] ((aq S)\<lparr>closed := True\<rparr>) S = Some S'"
      using step by (auto simp: astep_def split: if_splits)
    from i have "(apcs S)[i := Idle] = apcs S" by (metis list_update_id)
    with e rouse_all [of "apcs S"] obtain ps' where "S' = S\<lparr>aq := (aq S)\<lparr>closed := True\<rparr>, apcs := ps'\<rparr>"
      "tally ps' = (0, num deq_asleep (apcs S) + num deq_notified (apcs S), 0,
         num enq_asleep (apcs S) + num enq_notified (apcs S))" by (auto elim!: asettleE)
    with Shutdown show ?thesis by (simp add: waiting_def tally_def progresses_def)
  next
    case (Resume i choice)
    then have i: "i < length (apcs S)" using step by (auto simp: astep_def split: if_splits)
    have pos: "0 < waiting (apcs S)" if "apcs S ! i \<noteq> Idle"
      using that waiting_idle [of "apcs S"] nth_mem [OF i] by fastforce
    consider t where "apcs S ! i = EnqNotified t" | "apcs S ! i = DeqNotified"
      using step i Resume by (auto simp: astep_def split: pc.splits)
    then show ?thesis
    proof cases
      case (1 t)
      with step i Resume have "aenqueue_end choice i t (spec_enqueue ts t
          ((aq S)\<lparr>producers := producers (aq S) - 1\<rparr>)) S = Some S'"
        by (simp add: astep_def spec_enqueue_resume_def)
      from enq [OF about_to_resume(1) [OF inv i 1] _ this] closed w [OF i] pos 1 Resume show ?thesis
        by (simp add: progresses_def)
    next
      case 2
      with step i Resume have "adequeue_end choice i (spec_dequeue ts
          ((aq S)\<lparr>consumers := consumers (aq S) - 1\<rparr>)) S = Some S'"
        by (simp add: astep_def spec_dequeue_resume_def)
      from deq [OF about_to_resume(2) [OF inv i 2] _ this] closed w [OF i] pos 2 Resume show ?thesis
        by (simp add: progresses_def)
    qed
  next
    case (Spurious i)
    then have "i < length (apcs S)" "deq_asleep (apcs S ! i) \<or> enq_asleep (apcs S ! i)"
      using step by (cases "apcs S ! i"; auto simp: astep_def split: if_splits)+
    then show ?thesis using asleep by blast
  next
    case (Fail i)
    then have "i < length (apcs S)" "deq_asleep (apcs S ! i) \<or> enq_asleep (apcs S ! i)"
      using step by (cases "apcs S ! i"; auto simp: astep_def split: if_splits)+
    then show ?thesis using asleep by blast
  qed
qed

text \<open>The number of steps of woken threads in a run.\<close>

definition resumptions :: "action list \<Rightarrow> nat" where
  "resumptions as = length (filter progresses as)"

lemma run_closed:
  "ainv S \<Longrightarrow> closed (aq S) \<Longrightarrow> run_actions (astep ts) as S = Some S' \<Longrightarrow>
     closed (aq S') \<and> aaccepted S' = aaccepted S \<and> waiting (apcs S') + resumptions as = waiting (apcs S)"
proof (induction as arbitrary: S)
  case (Cons a as)
  then obtain T where T: "astep ts a S = Some T" "run_actions (astep ts) as T = Some S'"
    by (auto split: option.splits)
  with Cons.IH [OF astep_inv [OF Cons.prems(1) T(1)] _ T(2)] astep_closed [OF Cons.prems(1,2) T(1)]
  show ?case by (auto simp: resumptions_def)
qed (simp add: resumptions_def)

lemma run_append: "run_actions f (as @ bs) s = Option.bind (run_actions f as s) (run_actions f bs)"
  by (induction as arbitrary: s) (auto split: option.splits)

lemma shutdown_closes: "astep ts (Shutdown i) S = Some S' \<Longrightarrow> closed (aq S')"
  by (auto simp: astep_def elim!: asettleE split: if_splits)


lemma asleep_num:
  "DeqAsleep \<in> set ps \<Longrightarrow> num deq_asleep ps \<noteq> 0" "EnqAsleep t \<in> set ps \<Longrightarrow> num enq_asleep ps \<noteq> 0"
  by (auto simp: num_zero list_ex_iff intro!: bexI)

lemma notified_num:
  assumes "num deq_notified ps \<noteq> 0 \<or> num enq_notified ps \<noteq> 0"
  obtains i where "i < length ps" "notified (ps ! i)"
  using assms by (auto simp: num_zero list_ex_length)

lemma reachable_inv:
  assumes "fresh_queue c w" "n < 2 ^ 64" "run_actions (step ts) as (start_sys c w n) = Some s"
  shows "sys_inv s"
  using program.run_inv [OF start_inv [OF assms(1,2)] assms(3)] .

text \<open>A consumer falls asleep, a producer inserts and wakes it, and the consumer goes on.\<close>

definition sample_actions :: "action list" where
  "sample_actions = [Dequeue 0 None, Enqueue 1 7 (Some 0), Enqueue 1 8 None, Resume 0 (Some 1)]"

lemma sample_fresh: "fresh_queue empty_sample sample_world"
  by (simp add: fresh_queue_def empty_sample_ok empty_sample_view)

lemma sample_view: "sys_view (start_sys empty_sample sample_world 2)
    = \<lparr>aq = \<lparr>elems = [], bound = 1, closed = False, consumers = 0, producers = 0, high = 0\<rparr>,
       apcs = [Idle, Idle], aaccepted = [], ataken = []\<rparr>"
  by (simp add: sys_view_def start_sys_def empty_sample_view numeral_2_eq_2)

lemmas astep_eval = astep_def spec_defs aenqueue_end_def adequeue_end_def asettle_def at_once_def
  spec_enqueue_resume_def spec_dequeue_resume_def

lemma sample_prefix: "run_actions (astep True) (take 3 sample_actions) (sys_view (start_sys empty_sample sample_world 2))
    = Some \<lparr>aq = \<lparr>elems = [7], bound = 1, closed = False, consumers = 1, producers = 1, high = 1\<rparr>,
       apcs = [DeqNotified, EnqAsleep 8], aaccepted = [7], ataken = []\<rparr>"
  by (simp add: sample_view sample_actions_def astep_eval)

lemma sample_run: "run_actions (astep True) sample_actions (sys_view (start_sys empty_sample sample_world 2))
    = Some \<lparr>aq = \<lparr>elems = [], bound = 1, closed = False, consumers = 0, producers = 1, high = 1\<rparr>,
       apcs = [Idle, EnqNotified 8], aaccepted = [7], ataken = [7]\<rparr>"
  by (simp add: sample_view sample_actions_def astep_eval)

text \<open>Two consumers fall asleep and a producer wakes one of them.\<close>

definition crowd_actions :: "action list" where
  "crowd_actions = [Dequeue 0 None, Dequeue 1 None, Enqueue 2 7 (Some 1)]"

lemma crowd_run: "run_actions (astep True) crowd_actions (sys_view (start_sys empty_sample sample_world 3))
    = Some \<lparr>aq = \<lparr>elems = [7], bound = 1, closed = False, consumers = 2, producers = 0, high = 1\<rparr>,
       apcs = [DeqAsleep, DeqNotified, Idle], aaccepted = [7], ataken = []\<rparr>"
proof -
  have three: "replicate 3 Idle = [Idle, Idle, Idle]" by (simp add: numeral_3_eq_3)
  have "sys_view (start_sys empty_sample sample_world 3)
      = \<lparr>aq = \<lparr>elems = [], bound = 1, closed = False, consumers = 0, producers = 0, high = 0\<rparr>,
         apcs = [Idle, Idle, Idle], aaccepted = [], ataken = []\<rparr>"
    by (simp add: sys_view_def start_sys_def empty_sample_view three)
  then show ?thesis by (simp add: crowd_actions_def astep_eval)
qed

lemma program_run:
  assumes "run_actions (astep ts) as (sys_view (start_sys empty_sample sample_world n)) = Some S" "n < 2 ^ 64"
  obtains s where "run_actions (step ts) as (start_sys empty_sample sample_world n) = Some s" "sys_view s = S"
  using run_view [OF start_inv [OF sample_fresh assms(2)], of ts as] assms(1) by auto

lemma program_step:
  assumes "astep ts a (sys_view s) = Some S" "sys_ok s"
  obtains s' where "step ts a s = Some s'" "sys_view s' = S"
  using step_refined [OF assms(2), of ts a] assms(1) by auto

section \<open>Properties\<close>

text \<open>
  C8. Any number of threads, any interleaving: in every state that is reached by blocking and
  non-blocking calls of all threads, spurious wake-ups and failing waits included, the pointers
  handed out followed by those still queued are exactly the pointers accepted, in the order in
  which they were accepted; the queue is within its bound, the two waiter counts are the numbers
  of threads inside a wait, and the mutex is free.
\<close>

theorem queue_system_exact:
  assumes "fresh_queue c w" "n < 2 ^ 64" "run_actions (step ts) as (start_sys c w n) = Some s"
  shows "taken s @ contents (queue (cq s)) = accepted s \<and> cq_ok (cq s) (wld s)
    \<and> unat (waiting_consumers (the (implementation (cq s)))) = num deq_asleep (pcs s) + num deq_notified (pcs s)
    \<and> unat (waiting_producers (the (implementation (cq s)))) = num enq_asleep (pcs s) + num enq_notified (pcs s)
    \<and> length (contents (queue (cq s))) \<le> unat (capacity (queue (cq s)))"
  using reachable_inv [OF assms] by (auto simp: sys_inv_def sys_ok_def ainv_def sys_view_def cq_view_def)

theorem queue_system_exact_witness:
  "\<exists>s. run_actions (step True) sample_actions (start_sys empty_sample sample_world 2) = Some s
     \<and> taken s @ contents (queue (cq s)) = [7] \<and> accepted s = [7]"
proof -
  obtain s where s: "run_actions (step True) sample_actions (start_sys empty_sample sample_world 2) = Some s"
    "accepted s = [7]"
    by (rule program_run [OF sample_run]) (simp_all add: sys_view_def)
  with queue_system_exact [OF sample_fresh _ s(1)] show ?thesis by auto
qed

text \<open>
  C9. No wake-up is lost, also when the queue signals on transitions only: in every reachable
  state, if a consumer sleeps then the queue is open and there are at least as many woken
  consumers as queued pointers; if a producer sleeps then the queue is open and there are at
  least as many woken producers as free slots.
\<close>

theorem no_lost_wakeup:
  assumes "fresh_queue c w" "n < 2 ^ 64" "run_actions (step ts) as (start_sys c w n) = Some s"
  shows "(DeqAsleep \<in> set (pcs s) \<longrightarrow> \<not> shutdown_requested (the (implementation (cq s)))
        \<and> length (contents (queue (cq s))) \<le> num deq_notified (pcs s))
    \<and> (\<forall>t. EnqAsleep t \<in> set (pcs s) \<longrightarrow> \<not> shutdown_requested (the (implementation (cq s)))
        \<and> unat (capacity (queue (cq s))) - length (contents (queue (cq s))) \<le> num enq_notified (pcs s))"
  using reachable_inv [OF assms] asleep_num(1) [of "pcs s"] asleep_num(2) [of _ "pcs s"]
  by (auto simp: sys_inv_def ainv_def sys_view_def cq_view_def)

theorem no_lost_wakeup_witness:
  "\<exists>s. run_actions (step True) (take 3 sample_actions) (start_sys empty_sample sample_world 2) = Some s
     \<and> pcs s = [DeqNotified, EnqAsleep 8] \<and> \<not> shutdown_requested (the (implementation (cq s)))"
proof -
  obtain s where s: "run_actions (step True) (take 3 sample_actions) (start_sys empty_sample sample_world 2) = Some s"
    "pcs s = [DeqNotified, EnqAsleep 8]"
    by (rule program_run [OF sample_prefix]) (simp_all add: sys_view_def)
  with no_lost_wakeup [OF sample_fresh _ s(1)] show ?thesis by auto
qed

text \<open>
  C10. No deadlock in the queue: in every reachable state in which a sleeping thread has a
  reason to run (a consumer while a pointer is queued or a producer sleeps too, a producer while
  a slot is free), some thread was woken already and can take its next step.
\<close>

theorem queue_deadlock_free:
  assumes "fresh_queue c w" "n < 2 ^ 64" "run_actions (step ts) as (start_sys c w n) = Some s"
    and "(DeqAsleep \<in> set (pcs s) \<and> (contents (queue (cq s)) \<noteq> [] \<or> EnqAsleep t \<in> set (pcs s)))
      \<or> (EnqAsleep t \<in> set (pcs s)
          \<and> length (contents (queue (cq s))) \<noteq> unat (capacity (queue (cq s))))"
  shows "\<exists>i choice s'. i < length (pcs s) \<and> notified (pcs s ! i) \<and> step ts (Resume i choice) s = Some s'"
proof -
  have inv: "sys_inv s" by (rule reachable_inv [OF assms(1-3)])
  let ?l = "length (contents (queue (cq s)))" and ?c = "unat (capacity (queue (cq s)))"
  have facts: "DeqAsleep \<in> set (pcs s) \<Longrightarrow> ?l \<le> num deq_notified (pcs s)"
    "EnqAsleep t \<in> set (pcs s) \<Longrightarrow> ?c - ?l \<le> num enq_notified (pcs s)" "?l \<le> ?c" "0 < ?c"
    using inv asleep_num(1) [of "pcs s"] asleep_num(2) [of t "pcs s"]
    by (auto simp: sys_inv_def ainv_def sys_view_def cq_view_def)
  have reason: "(DeqAsleep \<in> set (pcs s) \<and> (?l \<noteq> 0 \<or> EnqAsleep t \<in> set (pcs s)))
      \<or> (EnqAsleep t \<in> set (pcs s) \<and> ?l \<noteq> ?c)" using assms(4) by (simp only: length_0_conv)
  then have "num deq_notified (pcs s) \<noteq> 0 \<or> num enq_notified (pcs s) \<noteq> 0"
    using facts by (elim disjE conjE) linarith+
  then obtain i where "i < length (pcs s)" "notified (pcs s ! i)" by (rule notified_num)
  with resume_possible [of s i ts] inv show ?thesis by (auto simp: sys_inv_def)
qed

theorem queue_deadlock_free_witness:
  "\<exists>s i choice s'. run_actions (step True) crowd_actions (start_sys empty_sample sample_world 3) = Some s
     \<and> notified (pcs s ! i) \<and> step True (Resume i choice) s = Some s'"
proof -
  obtain s where s: "run_actions (step True) crowd_actions (start_sys empty_sample sample_world 3) = Some s"
    "pcs s = [DeqAsleep, DeqNotified, Idle]" "elems (cq_view (cq s)) = [7]"
    by (rule program_run [OF crowd_run]) (simp_all add: sys_view_def)
  from s(3) have "contents (queue (cq s)) \<noteq> []" by (simp add: cq_view_def)
  with s queue_deadlock_free [OF sample_fresh _ s(1), of 0] show ?thesis by auto
qed

text \<open>
  C12. Signalling on transitions only (the macro
  \<open>CONCURRENT_SCHEDULER_USE_TRANSITION_SIGNALING\<close>) is unobservable: every sequence of actions is
  possible in one build exactly when it is possible in the other, and then the queue, the
  position of every thread and both histories are the same.
\<close>

theorem transition_signaling_equivalent:
  assumes "fresh_queue c w" "n < 2 ^ 64"
  shows "map_option sys_view (run_actions (step True) as (start_sys c w n))
    = map_option sys_view (run_actions (step False) as (start_sys c w n))"
proof -
  note inv = start_inv [OF assms]
  have "ainv (sys_view (start_sys c w n))" using inv by (simp add: sys_inv_def)
  then show ?thesis using run_view [OF inv] run_signals by simp
qed

theorem transition_signaling_equivalent_witness:
  "\<exists>s. run_actions (step False) sample_actions (start_sys empty_sample sample_world 2) = Some s
     \<and> taken s = [7]"
proof -
  have "map_option sys_view (run_actions (step False) sample_actions (start_sys empty_sample sample_world 2))
      = Some \<lparr>aq = \<lparr>elems = [], bound = 1, closed = False, consumers = 0, producers = 1, high = 1\<rparr>,
       apcs = [Idle, EnqNotified 8], aaccepted = [7], ataken = [7]\<rparr>"
    using transition_signaling_equivalent [OF sample_fresh, of 2 sample_actions]
      run_view [OF start_inv [OF sample_fresh], of 2 True sample_actions] sample_run by simp
  then show ?thesis by (auto simp: sys_view_def)
qed

text \<open>
  C11. Shutdown is final and sets everyone free: after a shutdown nothing is accepted any more,
  no thread sleeps, each further step of a woken thread ends its call, so that after as many
  such steps as threads were waiting all calls have returned, and as long as a thread is left
  waiting one of these steps is possible.
\<close>

theorem shutdown_final:
  assumes "fresh_queue c w" "n < 2 ^ 64" "run_actions (step ts) as (start_sys c w n) = Some s1"
    and "step ts (Shutdown i) s1 = Some s2" "run_actions (step ts) bs s2 = Some s3"
  shows "accepted s3 = accepted s1 \<and> num deq_asleep (pcs s3) = 0 \<and> num enq_asleep (pcs s3) = 0
    \<and> waiting (pcs s3) + resumptions bs = waiting (pcs s2)
    \<and> (waiting (pcs s3) = 0
        \<or> (\<exists>j choice s4. step ts (Resume j choice) s3 = Some s4))"
proof -
  have inv1: "sys_inv s1" by (rule reachable_inv [OF assms(1-3)])
  have inv2: "sys_inv s2" by (rule program.step_inv [OF inv1 assms(4)])
  have inv3: "sys_inv s3" by (rule program.run_inv [OF inv2 assms(5)])
  have sd: "astep ts (Shutdown i) (sys_view s1) = Some (sys_view s2)"
    using step_view [OF _ assms(4)] inv1 by (simp add: sys_inv_def)
  have acc: "aaccepted (sys_view s2) = aaccepted (sys_view s1)"
    using sd by (auto simp: astep_def elim!: asettleE split: if_splits)
  have "run_actions (astep ts) bs (sys_view s2) = Some (sys_view s3)"
    using run_view [OF inv2, of ts bs] assms(5) by simp
  from run_closed [OF _ shutdown_closes [OF sd] this] inv2 acc
  have fin: "closed (aq (sys_view s3))" "accepted s3 = accepted s1"
    "waiting (pcs s3) + resumptions bs = waiting (pcs s2)"
    by (simp_all add: sys_inv_def) (simp_all add: sys_view_def)
  have awake: "num deq_asleep (pcs s3) = 0" "num enq_asleep (pcs s3) = 0"
    using inv3 fin(1) by (auto simp: sys_inv_def ainv_def sys_view_def)
  have "\<exists>j choice s4. step ts (Resume j choice) s3 = Some s4" if "waiting (pcs s3) \<noteq> 0"
  proof -
    have "num deq_notified (pcs s3) \<noteq> 0 \<or> num enq_notified (pcs s3) \<noteq> 0"
      using that awake by (auto simp: waiting_def)
    then obtain j where "j < length (pcs s3)" "notified (pcs s3 ! j)" by (rule notified_num)
    with resume_possible [of s3 j ts] inv3 show ?thesis by (auto simp: sys_inv_def)
  qed
  with fin awake show ?thesis by blast
qed


theorem shutdown_final_witness:
  "\<exists>s1 s2 s3. run_actions (step True) crowd_actions (start_sys empty_sample sample_world 3) = Some s1
     \<and> step True (Shutdown 2) s1 = Some s2 \<and> run_actions (step True) [] s2 = Some s3
     \<and> waiting (pcs s2) = 2 \<and> num deq_asleep (pcs s3) = 0
     \<and> (\<exists>j choice s4. step True (Resume j choice) s3 = Some s4)"
proof -
  obtain s1 where s1: "run_actions (step True) crowd_actions (start_sys empty_sample sample_world 3) = Some s1"
    "sys_view s1 = \<lparr>aq = \<lparr>elems = [7], bound = 1, closed = False, consumers = 2, producers = 0, high = 1\<rparr>,
       apcs = [DeqAsleep, DeqNotified, Idle], aaccepted = [7], ataken = []\<rparr>"
    by (rule program_run [OF crowd_run]) simp_all
  have ok: "sys_ok s1" using reachable_inv [OF sample_fresh _ s1(1)] by (simp add: sys_inv_def)
  have "astep True (Shutdown 2) (sys_view s1) = Some \<lparr>aq = \<lparr>elems = [7], bound = 1, closed = True,
      consumers = 2, producers = 0, high = 1\<rparr>, apcs = [DeqNotified, DeqNotified, Idle],
      aaccepted = [7], ataken = []\<rparr>"
    by (simp add: s1(2) astep_eval)
  then obtain s2 where s2: "step True (Shutdown 2) s1 = Some s2" "pcs s2 = [DeqNotified, DeqNotified, Idle]"
    by (rule program_step [OF _ ok]) (simp_all add: sys_view_def)
  have two: "waiting (pcs s2) = 2" by (simp add: s2(2) waiting_def num_def)
  have nil: "run_actions (step True) [] s2 = Some s2" by simp
  from shutdown_final [OF sample_fresh _ s1(1) s2(1) nil] two s1(1) s2(1) show ?thesis by auto
qed

text \<open>
  C13. The threads of the program refine the threads of the contract: for every sequence of
  actions, the program can perform it exactly when a system whose calls are the contract's
  operations on a list can, and then the queue, the position of every thread and both histories
  agree.
\<close>

theorem queue_system_refines_contract:
  assumes "fresh_queue c w" "n < 2 ^ 64"
  shows "map_option sys_view (run_actions (step ts) as (start_sys c w n))
    = run_actions (astep ts) as (sys_view (start_sys c w n))"
  by (rule run_view [OF start_inv [OF assms]])

theorem queue_system_refines_contract_witness:
  "\<exists>s. run_actions (step True) crowd_actions (start_sys empty_sample sample_world 3) = Some s
     \<and> pcs s = [DeqAsleep, DeqNotified, Idle]"
  using queue_system_refines_contract [OF sample_fresh, of 3 True crowd_actions] crowd_run
  by (auto simp: sys_view_def)

end
