(* ===== verification/Observability.thy ===== *)
theory Observability
  imports Prelude
begin

text \<open>
  Runtime snapshots and their counters (\<open>src/internal/scheduler_observability.h\<close>, and the
  helpers of \<open>src/scheduler.c\<close> and \<open>src/scheduler_validation.c\<close> that work on plain numbers).
  An enumeration value outside its declared constants is the constructor \<open>OUTSIDE\<close>.
\<close>

section \<open>Data\<close>

datatype SchedulerSnapshotState =
    SCHEDULER_SNAPSHOT_STATE_INITIALIZED
  | SCHEDULER_SNAPSHOT_STATE_STARTING
  | SCHEDULER_SNAPSHOT_STATE_RUNNING
  | SCHEDULER_SNAPSHOT_STATE_SHUTTING_DOWN
  | SCHEDULER_SNAPSHOT_STATE_STOPPED
  | SCHEDULER_SNAPSHOT_STATE_FAILED
  | SCHEDULER_SNAPSHOT_STATE_OUTSIDE int

text \<open>The conversion of the enumeration to \<open>uint64_t\<close>.\<close>

fun snapshot_state_u64 :: "SchedulerSnapshotState \<Rightarrow> u64" where
  "snapshot_state_u64 SCHEDULER_SNAPSHOT_STATE_INITIALIZED = 0"
| "snapshot_state_u64 SCHEDULER_SNAPSHOT_STATE_STARTING = 1"
| "snapshot_state_u64 SCHEDULER_SNAPSHOT_STATE_RUNNING = 2"
| "snapshot_state_u64 SCHEDULER_SNAPSHOT_STATE_SHUTTING_DOWN = 3"
| "snapshot_state_u64 SCHEDULER_SNAPSHOT_STATE_STOPPED = 4"
| "snapshot_state_u64 SCHEDULER_SNAPSHOT_STATE_FAILED = 5"
| "snapshot_state_u64 (SCHEDULER_SNAPSHOT_STATE_OUTSIDE i) = word_of_int i"

abbreviation CONCURRENT_SCHEDULER_SNAPSHOT_VERSION :: u32 where
  "CONCURRENT_SCHEDULER_SNAPSHOT_VERSION \<equiv> 1"

abbreviation SCHEDULER_SNAPSHOT_CONSISTENCY_DOMAIN_EXACT :: int where
  "SCHEDULER_SNAPSHOT_CONSISTENCY_DOMAIN_EXACT \<equiv> 1"

record SchedulerSnapshot =
  ss_version :: u32
  ss_consistency :: int
  ss_overflow_detected :: bool
  ss_state :: SchedulerSnapshotState
  ss_submissions_open :: bool
  ss_shutdown_started :: bool
  ss_configured_worker_count :: size_t
  ss_submitted_count :: u64
  ss_accepted_count :: u64
  ss_rejected_count :: u64
  ss_created_worker_count :: size_t
  ss_ready_worker_count :: size_t
  ss_active_worker_count :: size_t
  ss_joined_worker_count :: size_t
  ss_dequeued_count :: u64
  ss_callback_started_count :: u64
  ss_callback_succeeded_count :: u64
  ss_callback_failed_count :: u64
  ss_currently_running_count :: u64
  ss_queue_capacity :: size_t
  ss_queue_current_size :: size_t
  ss_queue_high_water_mark :: size_t
  ss_worker_startup_failure_count :: u64
  ss_worker_runtime_failure_count :: u64
  ss_join_failure_count :: u64

section \<open>Saturating counters\<close>

text \<open>A counter with its sticky overflow flag. A null pointer is \<^term>\<open>None\<close>.\<close>

definition scheduler_observability_increment_saturating ::
  "u64 option \<Rightarrow> bool option \<Rightarrow> u64 option \<times> bool option" where
  "scheduler_observability_increment_saturating counter overflow_detected =
     (case (counter, overflow_detected) of
        (Some c, Some v) \<Rightarrow> if c = UINT64_MAX then (Some c, Some True) else (Some (c + 1), Some v)
      | _ \<Rightarrow> (counter, overflow_detected))"

text \<open>The single-writer variant also says whether it counted.\<close>

definition scheduler_observability_increment_single_writer_atomic ::
  "u64 option \<Rightarrow> bool option \<Rightarrow> bool \<times> u64 option \<times> bool option" where
  "scheduler_observability_increment_single_writer_atomic counter overflow_detected =
     (case (counter, overflow_detected) of
        (Some c, Some v) \<Rightarrow> if c = UINT64_MAX then (False, Some c, Some True)
          else (True, Some (c + 1), Some v)
      | _ \<Rightarrow> (False, counter, overflow_detected))"

definition add_saturating :: "u64 \<Rightarrow> u64 \<Rightarrow> bool \<Rightarrow> u64 \<times> bool" where
  "add_saturating target value overflow_detected =
     (if UINT64_MAX - target < value then (UINT64_MAX, True) else (target + value, overflow_detected))"

text \<open>The two increments on existing counters, as their callers use them.\<close>

definition bump :: "u64 \<Rightarrow> bool \<Rightarrow> u64 \<times> bool" where
  "bump c v = (case scheduler_observability_increment_saturating (Some c) (Some v) of
     (c', v') \<Rightarrow> (the c', the v'))"

definition bump_atomic :: "u64 \<Rightarrow> bool \<Rightarrow> bool \<times> u64 \<times> bool" where
  "bump_atomic c v = (case scheduler_observability_increment_single_writer_atomic (Some c) (Some v) of
     (b, c', v') \<Rightarrow> (b, the c', the v'))"

lemma bump_eq: "bump c v = (if c = UINT64_MAX then (c, True) else (c + 1, v))"
  by (simp add: bump_def scheduler_observability_increment_saturating_def)

lemma bump_atomic_eq:
  "bump_atomic c v = (if c = UINT64_MAX then (False, c, True) else (True, c + 1, v))"
  by (simp add: bump_atomic_def scheduler_observability_increment_single_writer_atomic_def)

section \<open>Counting never wraps\<close>

lemma unat_max64: "unat UINT64_MAX = 2 ^ 64 - 1"
  by (simp add: unsigned_minus_1_eq_mask mask_eq_exp_minus_1)

lemma unat_le_max: "unat x \<le> 2 ^ 64 - 1" for x :: u64
proof -
  have "unat x < 2 ^ 64" by (rule order_less_le_trans [OF unsigned_less]) simp
  then show ?thesis by simp
qed

lemma add_saturating_unat:
  "add_saturating x y v = (z, v') \<Longrightarrow>
     unat z = min (unat x + unat y) (2 ^ 64 - 1) \<and> v' = (v \<or> 2 ^ 64 - 1 < unat x + unat y)"
proof -
  assume run: "add_saturating x y v = (z, v')"
  have gap: "unat (UINT64_MAX - x) = 2 ^ 64 - 1 - unat x"
    by (simp add: unat_sub word_order.extremum unat_max64)
  have over: "UINT64_MAX - x < y \<longleftrightarrow> 2 ^ 64 - 1 < unat x + unat y"
    using gap unat_le_max [of x] by (simp add: word_less_nat_alt) arith
  have sum: "unat (x + y) = unat x + unat y" if "\<not> 2 ^ 64 - 1 < unat x + unat y"
    using that by (simp add: unat_word_ariths)
  show ?thesis
  proof (cases "2 ^ 64 - 1 < unat x + unat y")
    case True
    with run over unat_max64 show ?thesis by (simp add: add_saturating_def)
  next
    case False
    with run over sum show ?thesis by (simp add: add_saturating_def)
  qed
qed

lemma bump_unat:
  "bump c v = (c', v') \<Longrightarrow> unat c' = min (Suc (unat c)) (2 ^ 64 - 1) \<and> v' = (v \<or> unat c = 2 ^ 64 - 1)"
proof -
  assume run: "bump c v = (c', v')"
  show ?thesis
  proof (cases "c = UINT64_MAX")
    case True
    with run show ?thesis by (auto simp: bump_eq unat_max64)
  next
    case False
    then have "unat c \<noteq> 2 ^ 64 - 1" using unat_eq_iff [of c UINT64_MAX] by (simp add: unat_max64)
    with False run unat_le_max [of c] show ?thesis by (auto simp: bump_eq min_def)
  qed
qed

section \<open>Properties\<close>

text \<open>
  C40. Counters saturate at \<open>UINT64_MAX\<close>, record overflow for good and never wrap: after \<open>n\<close>
  increments a counter that started at zero holds \<open>n\<close> or the maximum, whichever is smaller, and
  its overflow flag is set exactly when an increment could not be counted; adding two counters
  gives their sum or the maximum, and sets the flag exactly when the sum does not fit.
\<close>

theorem counters_saturate:
  "(case ((\<lambda>(c, v). bump c v) ^^ n) (0, False) of
      (c, v) \<Rightarrow> unat c = min n (2 ^ 64 - 1) \<and> v = (2 ^ 64 - 1 < n))
   \<and> (case add_saturating x y v0 of
      (z, v) \<Rightarrow> unat z = min (unat x + unat y) (2 ^ 64 - 1) \<and> v = (v0 \<or> 2 ^ 64 - 1 < unat x + unat y))"
proof (intro conjI)
  show "case ((\<lambda>(c, v). bump c v) ^^ n) (0, False) of
      (c, v) \<Rightarrow> unat c = min n (2 ^ 64 - 1) \<and> v = (2 ^ 64 - 1 < n)"
  proof (induction n)
    case (Suc n)
    obtain c v where cv: "((\<lambda>(c, v). bump c v) ^^ n) (0, False) = (c, v)" by fastforce
    obtain c' v' where next': "bump c v = (c', v')" by fastforce
    from Suc cv have "unat c = min n (2 ^ 64 - 1)" "v = (2 ^ 64 - 1 < n)" by simp_all
    with bump_unat [OF next'] have "unat c' = min (Suc n) (2 ^ 64 - 1)" "v' = (2 ^ 64 - 1 < Suc n)"
      by (auto simp: min_def)
    with cv next' show ?case by simp
  qed simp
  show "case add_saturating x y v0 of
      (z, v) \<Rightarrow> unat z = min (unat x + unat y) (2 ^ 64 - 1) \<and> v = (v0 \<or> 2 ^ 64 - 1 < unat x + unat y)"
    using add_saturating_unat [of x y v0] by (cases "add_saturating x y v0") simp
qed

end
