(* ===== verification/Snapshot_Validation.thy ===== *)
theory Snapshot_Validation
  imports Observability
begin

text \<open>
  Validation of snapshots (\<open>src/scheduler_validation.c\<close>, and the two boolean validators of
  \<open>src/scheduler.c\<close>): the checks in the order of the code, the bounded list of issues with its
  counts, and the health derived from them. The checks are pure, so a result is passed through
  them; a null pointer is \<^term>\<open>None\<close>.
\<close>

section \<open>Data\<close>

datatype SchedulerValidationMode =
    SCHEDULER_VALIDATION_LIVE
  | SCHEDULER_VALIDATION_QUIESCENT
  | SCHEDULER_VALIDATION_MODE_OUTSIDE int

datatype SchedulerValidationSeverity =
    SCHEDULER_VALIDATION_SEVERITY_INFORMATIONAL
  | SCHEDULER_VALIDATION_SEVERITY_ADVISORY
  | SCHEDULER_VALIDATION_SEVERITY_VIOLATION
  | SCHEDULER_VALIDATION_SEVERITY_INCOMPLETE
  | SCHEDULER_VALIDATION_SEVERITY_OUTSIDE int

datatype SchedulerValidationIssue =
    SCHEDULER_VALIDATION_ISSUE_SNAPSHOT_VERSION_UNSUPPORTED
  | SCHEDULER_VALIDATION_ISSUE_CONSISTENCY_UNSUPPORTED
  | SCHEDULER_VALIDATION_ISSUE_ACCOUNTING_OVERFLOW
  | SCHEDULER_VALIDATION_ISSUE_QUEUE_SIZE_EXCEEDS_CAPACITY
  | SCHEDULER_VALIDATION_ISSUE_QUEUE_HIGH_WATER_EXCEEDS_CAPACITY
  | SCHEDULER_VALIDATION_ISSUE_QUEUE_SIZE_EXCEEDS_HIGH_WATER
  | SCHEDULER_VALIDATION_ISSUE_CREATED_EXCEEDS_CONFIGURED
  | SCHEDULER_VALIDATION_ISSUE_READY_EXCEEDS_CREATED
  | SCHEDULER_VALIDATION_ISSUE_ACTIVE_EXCEEDS_CREATED
  | SCHEDULER_VALIDATION_ISSUE_JOINED_EXCEEDS_CREATED
  | SCHEDULER_VALIDATION_ISSUE_ACTIVE_JOINED_EXCEED_CREATED
  | SCHEDULER_VALIDATION_ISSUE_RUNNING_EXCEEDS_ACTIVE
  | SCHEDULER_VALIDATION_ISSUE_CALLBACK_OUTCOMES_EXCEED_STARTS
  | SCHEDULER_VALIDATION_ISSUE_ACCEPTED_EXCEEDS_SUBMITTED
  | SCHEDULER_VALIDATION_ISSUE_REJECTED_EXCEEDS_SUBMITTED
  | SCHEDULER_VALIDATION_ISSUE_DEQUEUED_EXCEEDS_ACCEPTED
  | SCHEDULER_VALIDATION_ISSUE_CALLBACK_STARTS_EXCEED_DEQUEUED
  | SCHEDULER_VALIDATION_ISSUE_LIFECYCLE_FLAGS_INVALID
  | SCHEDULER_VALIDATION_ISSUE_QUIESCENT_MODE_NOT_APPLICABLE
  | SCHEDULER_VALIDATION_ISSUE_SUBMISSION_BALANCE_MISMATCH
  | SCHEDULER_VALIDATION_ISSUE_ACCEPTED_DEQUEUED_MISMATCH
  | SCHEDULER_VALIDATION_ISSUE_DEQUEUED_CALLBACK_MISMATCH
  | SCHEDULER_VALIDATION_ISSUE_CALLBACK_BALANCE_MISMATCH
  | SCHEDULER_VALIDATION_ISSUE_QUIESCENT_QUEUE_NOT_EMPTY
  | SCHEDULER_VALIDATION_ISSUE_QUIESCENT_CALLBACK_RUNNING
  | SCHEDULER_VALIDATION_ISSUE_QUIESCENT_WORKER_ACTIVE
  | SCHEDULER_VALIDATION_ISSUE_STOPPED_WORKERS_NOT_JOINED
  | SCHEDULER_VALIDATION_ISSUE_STARTUP_FAILURES_EXCEED_CONFIGURED
  | SCHEDULER_VALIDATION_ISSUE_OUTSIDE int

record SchedulerValidationIssueRecord =
  rec_issue :: SchedulerValidationIssue
  rec_severity :: SchedulerValidationSeverity
  rec_observed :: u64
  rec_expected :: u64

definition SCHEDULER_VALIDATION_ISSUE_CAPACITY :: nat where
  "SCHEDULER_VALIDATION_ISSUE_CAPACITY = 16"

record SchedulerValidationResult =
  res_mode :: SchedulerValidationMode
  res_snapshot_version :: u32
  res_issue_count :: size_t
  res_violation_count :: size_t
  res_advisory_count :: size_t
  res_validation_incomplete :: bool
  res_issues_truncated :: bool
  res_issues :: "SchedulerValidationIssueRecord list"

definition zero_record :: SchedulerValidationIssueRecord where
  "zero_record = \<lparr>rec_issue = SCHEDULER_VALIDATION_ISSUE_OUTSIDE 0,
     rec_severity = SCHEDULER_VALIDATION_SEVERITY_OUTSIDE 0, rec_observed = 0, rec_expected = 0\<rparr>"

definition zero_result :: SchedulerValidationResult where
  "zero_result = \<lparr>res_mode = SCHEDULER_VALIDATION_MODE_OUTSIDE 0, res_snapshot_version = 0,
     res_issue_count = 0, res_violation_count = 0, res_advisory_count = 0,
     res_validation_incomplete = False, res_issues_truncated = False,
     res_issues = replicate SCHEDULER_VALIDATION_ISSUE_CAPACITY zero_record\<rparr>"

datatype SchedulerHealth =
    SCHEDULER_HEALTH_HEALTHY
  | SCHEDULER_HEALTH_DEGRADED
  | SCHEDULER_HEALTH_STOPPING
  | SCHEDULER_HEALTH_STOPPED
  | SCHEDULER_HEALTH_FAILED
  | SCHEDULER_HEALTH_OUTSIDE int

section \<open>Recording issues\<close>

definition record_issue ::
  "SchedulerValidationResult \<Rightarrow> SchedulerValidationIssue \<Rightarrow> SchedulerValidationSeverity
     \<Rightarrow> u64 \<Rightarrow> u64 \<Rightarrow> SchedulerValidationResult" where
  "record_issue result issue severity observed expected =
     (let result = (if res_issue_count result < of_nat SCHEDULER_VALIDATION_ISSUE_CAPACITY
        then result\<lparr>res_issues := (res_issues result)[unat (res_issue_count result) :=
               \<lparr>rec_issue = issue, rec_severity = severity, rec_observed = observed,
                rec_expected = expected\<rparr>],
             res_issue_count := res_issue_count result + 1\<rparr>
        else result\<lparr>res_issues_truncated := True\<rparr>)
      in if severity = SCHEDULER_VALIDATION_SEVERITY_VIOLATION
         then result\<lparr>res_violation_count := res_violation_count result + 1\<rparr>
         else if severity = SCHEDULER_VALIDATION_SEVERITY_ADVISORY
         then result\<lparr>res_advisory_count := res_advisory_count result + 1\<rparr>
         else if severity = SCHEDULER_VALIDATION_SEVERITY_INCOMPLETE
         then result\<lparr>res_validation_incomplete := True\<rparr> else result)"

definition size_as_u64 :: "size_t \<Rightarrow> u64" where
  "size_as_u64 v = (if v > UINT64_MAX then UINT64_MAX else v)"

definition lifecycle_flags_valid :: "SchedulerSnapshot \<Rightarrow> bool" where
  "lifecycle_flags_valid s = (case ss_state s of
      SCHEDULER_SNAPSHOT_STATE_INITIALIZED \<Rightarrow> \<not> ss_submissions_open s \<and> \<not> ss_shutdown_started s
    | SCHEDULER_SNAPSHOT_STATE_STARTING \<Rightarrow> \<not> ss_submissions_open s \<and> \<not> ss_shutdown_started s
    | SCHEDULER_SNAPSHOT_STATE_FAILED \<Rightarrow> \<not> ss_submissions_open s \<and> \<not> ss_shutdown_started s
    | SCHEDULER_SNAPSHOT_STATE_RUNNING \<Rightarrow> ss_submissions_open s \<and> \<not> ss_shutdown_started s
    | SCHEDULER_SNAPSHOT_STATE_SHUTTING_DOWN \<Rightarrow> \<not> ss_submissions_open s \<and> ss_shutdown_started s
    | SCHEDULER_SNAPSHOT_STATE_STOPPED \<Rightarrow> \<not> ss_submissions_open s \<and> ss_shutdown_started s
    | SCHEDULER_SNAPSHOT_STATE_OUTSIDE _ \<Rightarrow> False)"

definition quiescent_mode_applicable :: "SchedulerSnapshot \<Rightarrow> bool" where
  "quiescent_mode_applicable s \<longleftrightarrow>
     ss_state s = SCHEDULER_SNAPSHOT_STATE_INITIALIZED
     \<or> ss_state s = SCHEDULER_SNAPSHOT_STATE_STOPPED
     \<or> (ss_state s = SCHEDULER_SNAPSHOT_STATE_FAILED \<and> \<not> ss_submissions_open s
        \<and> ss_currently_running_count s = 0 \<and> ss_active_worker_count s = 0
        \<and> ss_queue_current_size s = 0)"

text \<open>
  A check that records a violation when its test holds; the macros \<open>CHECK_GREATER\<close>,
  \<open>CHECK_U64\<close> and \<open>CHECK_EQUAL\<close> are instances of it.
\<close>

definition check ::
  "bool \<Rightarrow> SchedulerValidationIssue \<Rightarrow> u64 \<Rightarrow> u64 \<Rightarrow> SchedulerValidationResult
     \<Rightarrow> SchedulerValidationResult" where
  "check bad issue observed expected result =
     (if bad then record_issue result issue SCHEDULER_VALIDATION_SEVERITY_VIOLATION observed expected
      else result)"

definition check_greater ::
  "size_t \<Rightarrow> size_t \<Rightarrow> SchedulerValidationIssue \<Rightarrow> SchedulerValidationResult
     \<Rightarrow> SchedulerValidationResult" where
  "check_greater left right issue = check (left > right) issue (size_as_u64 left) (size_as_u64 right)"

section \<open>The checks\<close>

definition validate_structural ::
  "SchedulerSnapshot \<Rightarrow> SchedulerValidationResult \<Rightarrow> SchedulerValidationResult" where
  "validate_structural s r =
     (let r = check_greater (ss_queue_current_size s) (ss_queue_capacity s)
            SCHEDULER_VALIDATION_ISSUE_QUEUE_SIZE_EXCEEDS_CAPACITY r;
          r = check_greater (ss_queue_high_water_mark s) (ss_queue_capacity s)
            SCHEDULER_VALIDATION_ISSUE_QUEUE_HIGH_WATER_EXCEEDS_CAPACITY r;
          r = check_greater (ss_queue_current_size s) (ss_queue_high_water_mark s)
            SCHEDULER_VALIDATION_ISSUE_QUEUE_SIZE_EXCEEDS_HIGH_WATER r;
          r = check_greater (ss_created_worker_count s) (ss_configured_worker_count s)
            SCHEDULER_VALIDATION_ISSUE_CREATED_EXCEEDS_CONFIGURED r;
          r = check_greater (ss_ready_worker_count s) (ss_created_worker_count s)
            SCHEDULER_VALIDATION_ISSUE_READY_EXCEEDS_CREATED r;
          r = check_greater (ss_active_worker_count s) (ss_created_worker_count s)
            SCHEDULER_VALIDATION_ISSUE_ACTIVE_EXCEEDS_CREATED r;
          r = check_greater (ss_joined_worker_count s) (ss_created_worker_count s)
            SCHEDULER_VALIDATION_ISSUE_JOINED_EXCEEDS_CREATED r;
          r = check (ss_active_worker_count s > ss_created_worker_count s
                - (if ss_joined_worker_count s > ss_created_worker_count s
                   then ss_created_worker_count s else ss_joined_worker_count s))
            SCHEDULER_VALIDATION_ISSUE_ACTIVE_JOINED_EXCEED_CREATED
            (size_as_u64 (ss_active_worker_count s + ss_joined_worker_count s))
            (size_as_u64 (ss_created_worker_count s)) r;
          r = check (ss_currently_running_count s > size_as_u64 (ss_active_worker_count s))
            SCHEDULER_VALIDATION_ISSUE_RUNNING_EXCEEDS_ACTIVE
            (ss_currently_running_count s) (size_as_u64 (ss_active_worker_count s)) r;
          r = check (ss_worker_startup_failure_count s > size_as_u64 (ss_configured_worker_count s))
            SCHEDULER_VALIDATION_ISSUE_STARTUP_FAILURES_EXCEED_CONFIGURED
            (ss_worker_startup_failure_count s) (size_as_u64 (ss_configured_worker_count s)) r
      in check (\<not> lifecycle_flags_valid s) SCHEDULER_VALIDATION_ISSUE_LIFECYCLE_FLAGS_INVALID
            (snapshot_state_u64 (ss_state s)) 0 r)"

definition add_exceeds :: "u64 \<Rightarrow> u64 \<Rightarrow> u64 \<Rightarrow> bool" where
  "add_exceeds left right limit \<longleftrightarrow> left > limit \<or> right > limit - left"

definition validate_accounting_bounds ::
  "SchedulerSnapshot \<Rightarrow> SchedulerValidationResult \<Rightarrow> SchedulerValidationResult" where
  "validate_accounting_bounds s r =
     (let r = check (add_exceeds (ss_callback_succeeded_count s) (ss_callback_failed_count s)
                (ss_callback_started_count s))
            SCHEDULER_VALIDATION_ISSUE_CALLBACK_OUTCOMES_EXCEED_STARTS
            (ss_callback_succeeded_count s) (ss_callback_started_count s) r;
          r = check (ss_accepted_count s > ss_submitted_count s)
            SCHEDULER_VALIDATION_ISSUE_ACCEPTED_EXCEEDS_SUBMITTED
            (ss_accepted_count s) (ss_submitted_count s) r;
          r = check (ss_rejected_count s > ss_submitted_count s)
            SCHEDULER_VALIDATION_ISSUE_REJECTED_EXCEEDS_SUBMITTED
            (ss_rejected_count s) (ss_submitted_count s) r;
          r = check (ss_dequeued_count s > ss_accepted_count s)
            SCHEDULER_VALIDATION_ISSUE_DEQUEUED_EXCEEDS_ACCEPTED
            (ss_dequeued_count s) (ss_accepted_count s) r
      in check (ss_callback_started_count s > ss_dequeued_count s)
            SCHEDULER_VALIDATION_ISSUE_CALLBACK_STARTS_EXCEED_DEQUEUED
            (ss_callback_started_count s) (ss_dequeued_count s) r)"

definition validate_quiescent ::
  "SchedulerSnapshot \<Rightarrow> SchedulerValidationResult \<Rightarrow> SchedulerValidationResult" where
  "validate_quiescent s r =
     (let r = check (ss_submitted_count s \<noteq> ss_accepted_count s + ss_rejected_count s)
            SCHEDULER_VALIDATION_ISSUE_SUBMISSION_BALANCE_MISMATCH
            (ss_submitted_count s) (ss_accepted_count s + ss_rejected_count s) r;
          r = check (ss_accepted_count s \<noteq> ss_dequeued_count s)
            SCHEDULER_VALIDATION_ISSUE_ACCEPTED_DEQUEUED_MISMATCH
            (ss_accepted_count s) (ss_dequeued_count s) r;
          r = check (ss_dequeued_count s \<noteq> ss_callback_started_count s)
            SCHEDULER_VALIDATION_ISSUE_DEQUEUED_CALLBACK_MISMATCH
            (ss_dequeued_count s) (ss_callback_started_count s) r;
          r = check (ss_callback_started_count s
                \<noteq> ss_callback_succeeded_count s + ss_callback_failed_count s)
            SCHEDULER_VALIDATION_ISSUE_CALLBACK_BALANCE_MISMATCH
            (ss_callback_started_count s) (ss_callback_succeeded_count s + ss_callback_failed_count s) r;
          r = check (ss_queue_current_size s \<noteq> 0)
            SCHEDULER_VALIDATION_ISSUE_QUIESCENT_QUEUE_NOT_EMPTY
            (size_as_u64 (ss_queue_current_size s)) 0 r;
          r = check (ss_currently_running_count s \<noteq> 0)
            SCHEDULER_VALIDATION_ISSUE_QUIESCENT_CALLBACK_RUNNING
            (ss_currently_running_count s) 0 r;
          r = check (ss_active_worker_count s \<noteq> 0)
            SCHEDULER_VALIDATION_ISSUE_QUIESCENT_WORKER_ACTIVE
            (size_as_u64 (ss_active_worker_count s)) 0 r
      in check (ss_state s = SCHEDULER_SNAPSHOT_STATE_STOPPED
                \<and> ss_joined_worker_count s \<noteq> ss_created_worker_count s)
            SCHEDULER_VALIDATION_ISSUE_STOPPED_WORKERS_NOT_JOINED
            (size_as_u64 (ss_joined_worker_count s)) (size_as_u64 (ss_created_worker_count s)) r)"

text \<open>The flag \<open>out\<close> says whether the caller passed a result to fill; the value is what was written.\<close>

definition scheduler_snapshot_validate ::
  "SchedulerSnapshot option \<Rightarrow> SchedulerValidationMode \<Rightarrow> bool \<Rightarrow> SchedulerValidationResult option" where
  "scheduler_snapshot_validate snapshot mode out = (case snapshot of
      None \<Rightarrow> None
    | Some s \<Rightarrow>
      if \<not> out \<or> (mode \<noteq> SCHEDULER_VALIDATION_LIVE \<and> mode \<noteq> SCHEDULER_VALIDATION_QUIESCENT) then None
      else Some (let
          r = zero_result\<lparr>res_mode := mode, res_snapshot_version := ss_version s\<rparr>;
          r = check (ss_version s \<noteq> CONCURRENT_SCHEDULER_SNAPSHOT_VERSION)
                SCHEDULER_VALIDATION_ISSUE_SNAPSHOT_VERSION_UNSUPPORTED
                (ucast (ss_version s)) (ucast CONCURRENT_SCHEDULER_SNAPSHOT_VERSION) r;
          r = check (ss_consistency s \<noteq> SCHEDULER_SNAPSHOT_CONSISTENCY_DOMAIN_EXACT)
                SCHEDULER_VALIDATION_ISSUE_CONSISTENCY_UNSUPPORTED
                (word_of_int (ss_consistency s)) 1 r;
          r = (if ss_overflow_detected s
               then record_issue r SCHEDULER_VALIDATION_ISSUE_ACCOUNTING_OVERFLOW
                 SCHEDULER_VALIDATION_SEVERITY_INCOMPLETE 1 0 else r);
          r = validate_structural s r;
          r = (if \<not> ss_overflow_detected s then validate_accounting_bounds s r else r)
        in if mode = SCHEDULER_VALIDATION_QUIESCENT
           then if \<not> quiescent_mode_applicable s
             then record_issue r SCHEDULER_VALIDATION_ISSUE_QUIESCENT_MODE_NOT_APPLICABLE
               SCHEDULER_VALIDATION_SEVERITY_INCOMPLETE (snapshot_state_u64 (ss_state s)) 4
             else if \<not> ss_overflow_detected s then validate_quiescent s r else r
           else r))"

section \<open>Names and health\<close>

fun issue_index :: "SchedulerValidationIssue \<Rightarrow> size_t" where
  "issue_index SCHEDULER_VALIDATION_ISSUE_SNAPSHOT_VERSION_UNSUPPORTED = 1"
| "issue_index SCHEDULER_VALIDATION_ISSUE_CONSISTENCY_UNSUPPORTED = 2"
| "issue_index SCHEDULER_VALIDATION_ISSUE_ACCOUNTING_OVERFLOW = 3"
| "issue_index SCHEDULER_VALIDATION_ISSUE_QUEUE_SIZE_EXCEEDS_CAPACITY = 4"
| "issue_index SCHEDULER_VALIDATION_ISSUE_QUEUE_HIGH_WATER_EXCEEDS_CAPACITY = 5"
| "issue_index SCHEDULER_VALIDATION_ISSUE_QUEUE_SIZE_EXCEEDS_HIGH_WATER = 6"
| "issue_index SCHEDULER_VALIDATION_ISSUE_CREATED_EXCEEDS_CONFIGURED = 7"
| "issue_index SCHEDULER_VALIDATION_ISSUE_READY_EXCEEDS_CREATED = 8"
| "issue_index SCHEDULER_VALIDATION_ISSUE_ACTIVE_EXCEEDS_CREATED = 9"
| "issue_index SCHEDULER_VALIDATION_ISSUE_JOINED_EXCEEDS_CREATED = 10"
| "issue_index SCHEDULER_VALIDATION_ISSUE_ACTIVE_JOINED_EXCEED_CREATED = 11"
| "issue_index SCHEDULER_VALIDATION_ISSUE_RUNNING_EXCEEDS_ACTIVE = 12"
| "issue_index SCHEDULER_VALIDATION_ISSUE_CALLBACK_OUTCOMES_EXCEED_STARTS = 13"
| "issue_index SCHEDULER_VALIDATION_ISSUE_ACCEPTED_EXCEEDS_SUBMITTED = 14"
| "issue_index SCHEDULER_VALIDATION_ISSUE_REJECTED_EXCEEDS_SUBMITTED = 15"
| "issue_index SCHEDULER_VALIDATION_ISSUE_DEQUEUED_EXCEEDS_ACCEPTED = 16"
| "issue_index SCHEDULER_VALIDATION_ISSUE_CALLBACK_STARTS_EXCEED_DEQUEUED = 17"
| "issue_index SCHEDULER_VALIDATION_ISSUE_LIFECYCLE_FLAGS_INVALID = 18"
| "issue_index SCHEDULER_VALIDATION_ISSUE_QUIESCENT_MODE_NOT_APPLICABLE = 19"
| "issue_index SCHEDULER_VALIDATION_ISSUE_SUBMISSION_BALANCE_MISMATCH = 20"
| "issue_index SCHEDULER_VALIDATION_ISSUE_ACCEPTED_DEQUEUED_MISMATCH = 21"
| "issue_index SCHEDULER_VALIDATION_ISSUE_DEQUEUED_CALLBACK_MISMATCH = 22"
| "issue_index SCHEDULER_VALIDATION_ISSUE_CALLBACK_BALANCE_MISMATCH = 23"
| "issue_index SCHEDULER_VALIDATION_ISSUE_QUIESCENT_QUEUE_NOT_EMPTY = 24"
| "issue_index SCHEDULER_VALIDATION_ISSUE_QUIESCENT_CALLBACK_RUNNING = 25"
| "issue_index SCHEDULER_VALIDATION_ISSUE_QUIESCENT_WORKER_ACTIVE = 26"
| "issue_index SCHEDULER_VALIDATION_ISSUE_STOPPED_WORKERS_NOT_JOINED = 27"
| "issue_index SCHEDULER_VALIDATION_ISSUE_STARTUP_FAILURES_EXCEED_CONFIGURED = 28"
| "issue_index (SCHEDULER_VALIDATION_ISSUE_OUTSIDE i) = word_of_int i"

definition issue_names :: "string list" where
  "issue_names = [
     ''UNKNOWN'', ''SNAPSHOT_VERSION_UNSUPPORTED'', ''CONSISTENCY_UNSUPPORTED'',
     ''ACCOUNTING_OVERFLOW'', ''QUEUE_SIZE_EXCEEDS_CAPACITY'',
     ''QUEUE_HIGH_WATER_EXCEEDS_CAPACITY'',
     ''QUEUE_SIZE_EXCEEDS_HIGH_WATER'', ''CREATED_EXCEEDS_CONFIGURED'',
     ''READY_EXCEEDS_CREATED'', ''ACTIVE_EXCEEDS_CREATED'',
     ''JOINED_EXCEEDS_CREATED'', ''ACTIVE_JOINED_EXCEED_CREATED'',
     ''RUNNING_EXCEEDS_ACTIVE'', ''CALLBACK_OUTCOMES_EXCEED_STARTS'',
     ''ACCEPTED_EXCEEDS_SUBMITTED'', ''REJECTED_EXCEEDS_SUBMITTED'',
     ''DEQUEUED_EXCEEDS_ACCEPTED'', ''CALLBACK_STARTS_EXCEED_DEQUEUED'',
     ''LIFECYCLE_FLAGS_INVALID'', ''QUIESCENT_MODE_NOT_APPLICABLE'',
     ''SUBMISSION_BALANCE_MISMATCH'', ''ACCEPTED_DEQUEUED_MISMATCH'',
     ''DEQUEUED_CALLBACK_MISMATCH'', ''CALLBACK_BALANCE_MISMATCH'',
     ''QUIESCENT_QUEUE_NOT_EMPTY'', ''QUIESCENT_CALLBACK_RUNNING'',
     ''QUIESCENT_WORKER_ACTIVE'', ''STOPPED_WORKERS_NOT_JOINED'',
     ''STARTUP_FAILURES_EXCEED_CONFIGURED'']"

definition scheduler_validation_issue_name :: "SchedulerValidationIssue \<Rightarrow> string" where
  "scheduler_validation_issue_name issue =
     (let index = unat (issue_index issue)
      in if index < length issue_names then issue_names ! index else issue_names ! 0)"

definition scheduler_health_name :: "SchedulerHealth \<Rightarrow> string" where
  "scheduler_health_name health = (case health of
      SCHEDULER_HEALTH_HEALTHY \<Rightarrow> ''HEALTHY''
    | SCHEDULER_HEALTH_DEGRADED \<Rightarrow> ''DEGRADED''
    | SCHEDULER_HEALTH_STOPPING \<Rightarrow> ''STOPPING''
    | SCHEDULER_HEALTH_STOPPED \<Rightarrow> ''STOPPED''
    | SCHEDULER_HEALTH_FAILED \<Rightarrow> ''FAILED''
    | SCHEDULER_HEALTH_OUTSIDE _ \<Rightarrow> ''UNKNOWN'')"

definition scheduler_snapshot_derive_health ::
  "SchedulerSnapshot option \<Rightarrow> SchedulerValidationResult option \<Rightarrow> bool \<Rightarrow> SchedulerHealth option" where
  "scheduler_snapshot_derive_health snapshot result out = (case (snapshot, result) of
      (Some s, Some r) \<Rightarrow>
        if \<not> out \<or> res_snapshot_version r \<noteq> ss_version s then None
        else Some (
          if ss_state s = SCHEDULER_SNAPSHOT_STATE_FAILED \<or> res_violation_count r \<noteq> 0
          then SCHEDULER_HEALTH_FAILED
          else if ss_state s = SCHEDULER_SNAPSHOT_STATE_SHUTTING_DOWN then SCHEDULER_HEALTH_STOPPING
          else if ss_state s = SCHEDULER_SNAPSHOT_STATE_STOPPED then SCHEDULER_HEALTH_STOPPED
          else if res_validation_incomplete r \<or> res_advisory_count r \<noteq> 0
            \<or> ss_callback_failed_count s \<noteq> 0 \<or> ss_worker_startup_failure_count s \<noteq> 0
            \<or> ss_worker_runtime_failure_count s \<noteq> 0 \<or> ss_join_failure_count s \<noteq> 0
          then SCHEDULER_HEALTH_DEGRADED
          else SCHEDULER_HEALTH_HEALTHY)
    | _ \<Rightarrow> None)"

section \<open>The boolean validators of the scheduler\<close>




section \<open>A result is a summary of the issues raised\<close>

definition put :: "SchedulerValidationIssueRecord \<Rightarrow> SchedulerValidationResult \<Rightarrow> SchedulerValidationResult" where
  "put x r = record_issue r (rec_issue x) (rec_severity x) (rec_observed x) (rec_expected x)"

definition violation :: "bool \<Rightarrow> SchedulerValidationIssue \<Rightarrow> u64 \<Rightarrow> u64 \<Rightarrow> SchedulerValidationIssueRecord list" where
  "violation bad i a b = (if bad then [\<lparr>rec_issue = i,
     rec_severity = SCHEDULER_VALIDATION_SEVERITY_VIOLATION, rec_observed = a, rec_expected = b\<rparr>] else [])"

definition incomplete :: "bool \<Rightarrow> SchedulerValidationIssue \<Rightarrow> u64 \<Rightarrow> u64 \<Rightarrow> SchedulerValidationIssueRecord list" where
  "incomplete bad i a b = (if bad then [\<lparr>rec_issue = i,
     rec_severity = SCHEDULER_VALIDATION_SEVERITY_INCOMPLETE, rec_observed = a, rec_expected = b\<rparr>] else [])"

lemma check_put: "check bad i a b r = fold put (violation bad i a b) r"
  by (simp add: check_def violation_def put_def)

lemma check_greater_put: "check_greater l g i r = fold put (violation (l > g) i (size_as_u64 l) (size_as_u64 g)) r"
  by (simp add: check_greater_def check_put)

text \<open>The issues of a snapshot, in the order in which the code meets them.\<close>

definition structural_issues :: "SchedulerSnapshot \<Rightarrow> SchedulerValidationIssueRecord list" where
  "structural_issues s = concat [
     violation (ss_queue_current_size s > ss_queue_capacity s)
       SCHEDULER_VALIDATION_ISSUE_QUEUE_SIZE_EXCEEDS_CAPACITY
       (size_as_u64 (ss_queue_current_size s)) (size_as_u64 (ss_queue_capacity s)),
     violation (ss_queue_high_water_mark s > ss_queue_capacity s)
       SCHEDULER_VALIDATION_ISSUE_QUEUE_HIGH_WATER_EXCEEDS_CAPACITY
       (size_as_u64 (ss_queue_high_water_mark s)) (size_as_u64 (ss_queue_capacity s)),
     violation (ss_queue_current_size s > ss_queue_high_water_mark s)
       SCHEDULER_VALIDATION_ISSUE_QUEUE_SIZE_EXCEEDS_HIGH_WATER
       (size_as_u64 (ss_queue_current_size s)) (size_as_u64 (ss_queue_high_water_mark s)),
     violation (ss_created_worker_count s > ss_configured_worker_count s)
       SCHEDULER_VALIDATION_ISSUE_CREATED_EXCEEDS_CONFIGURED
       (size_as_u64 (ss_created_worker_count s)) (size_as_u64 (ss_configured_worker_count s)),
     violation (ss_ready_worker_count s > ss_created_worker_count s)
       SCHEDULER_VALIDATION_ISSUE_READY_EXCEEDS_CREATED
       (size_as_u64 (ss_ready_worker_count s)) (size_as_u64 (ss_created_worker_count s)),
     violation (ss_active_worker_count s > ss_created_worker_count s)
       SCHEDULER_VALIDATION_ISSUE_ACTIVE_EXCEEDS_CREATED
       (size_as_u64 (ss_active_worker_count s)) (size_as_u64 (ss_created_worker_count s)),
     violation (ss_joined_worker_count s > ss_created_worker_count s)
       SCHEDULER_VALIDATION_ISSUE_JOINED_EXCEEDS_CREATED
       (size_as_u64 (ss_joined_worker_count s)) (size_as_u64 (ss_created_worker_count s)),
     violation (ss_active_worker_count s > ss_created_worker_count s
         - (if ss_joined_worker_count s > ss_created_worker_count s
            then ss_created_worker_count s else ss_joined_worker_count s))
       SCHEDULER_VALIDATION_ISSUE_ACTIVE_JOINED_EXCEED_CREATED
       (size_as_u64 (ss_active_worker_count s + ss_joined_worker_count s))
       (size_as_u64 (ss_created_worker_count s)),
     violation (ss_currently_running_count s > size_as_u64 (ss_active_worker_count s))
       SCHEDULER_VALIDATION_ISSUE_RUNNING_EXCEEDS_ACTIVE
       (ss_currently_running_count s) (size_as_u64 (ss_active_worker_count s)),
     violation (ss_worker_startup_failure_count s > size_as_u64 (ss_configured_worker_count s))
       SCHEDULER_VALIDATION_ISSUE_STARTUP_FAILURES_EXCEED_CONFIGURED
       (ss_worker_startup_failure_count s) (size_as_u64 (ss_configured_worker_count s)),
     violation (\<not> lifecycle_flags_valid s) SCHEDULER_VALIDATION_ISSUE_LIFECYCLE_FLAGS_INVALID
       (snapshot_state_u64 (ss_state s)) 0]"

definition accounting_issues :: "SchedulerSnapshot \<Rightarrow> SchedulerValidationIssueRecord list" where
  "accounting_issues s = concat [
     violation (add_exceeds (ss_callback_succeeded_count s) (ss_callback_failed_count s)
         (ss_callback_started_count s))
       SCHEDULER_VALIDATION_ISSUE_CALLBACK_OUTCOMES_EXCEED_STARTS
       (ss_callback_succeeded_count s) (ss_callback_started_count s),
     violation (ss_accepted_count s > ss_submitted_count s)
       SCHEDULER_VALIDATION_ISSUE_ACCEPTED_EXCEEDS_SUBMITTED
       (ss_accepted_count s) (ss_submitted_count s),
     violation (ss_rejected_count s > ss_submitted_count s)
       SCHEDULER_VALIDATION_ISSUE_REJECTED_EXCEEDS_SUBMITTED
       (ss_rejected_count s) (ss_submitted_count s),
     violation (ss_dequeued_count s > ss_accepted_count s)
       SCHEDULER_VALIDATION_ISSUE_DEQUEUED_EXCEEDS_ACCEPTED
       (ss_dequeued_count s) (ss_accepted_count s),
     violation (ss_callback_started_count s > ss_dequeued_count s)
       SCHEDULER_VALIDATION_ISSUE_CALLBACK_STARTS_EXCEED_DEQUEUED
       (ss_callback_started_count s) (ss_dequeued_count s)]"

definition quiescent_issues :: "SchedulerSnapshot \<Rightarrow> SchedulerValidationIssueRecord list" where
  "quiescent_issues s = concat [
     violation (ss_submitted_count s \<noteq> ss_accepted_count s + ss_rejected_count s)
       SCHEDULER_VALIDATION_ISSUE_SUBMISSION_BALANCE_MISMATCH
       (ss_submitted_count s) (ss_accepted_count s + ss_rejected_count s),
     violation (ss_accepted_count s \<noteq> ss_dequeued_count s)
       SCHEDULER_VALIDATION_ISSUE_ACCEPTED_DEQUEUED_MISMATCH
       (ss_accepted_count s) (ss_dequeued_count s),
     violation (ss_dequeued_count s \<noteq> ss_callback_started_count s)
       SCHEDULER_VALIDATION_ISSUE_DEQUEUED_CALLBACK_MISMATCH
       (ss_dequeued_count s) (ss_callback_started_count s),
     violation (ss_callback_started_count s \<noteq> ss_callback_succeeded_count s + ss_callback_failed_count s)
       SCHEDULER_VALIDATION_ISSUE_CALLBACK_BALANCE_MISMATCH
       (ss_callback_started_count s) (ss_callback_succeeded_count s + ss_callback_failed_count s),
     violation (ss_queue_current_size s \<noteq> 0) SCHEDULER_VALIDATION_ISSUE_QUIESCENT_QUEUE_NOT_EMPTY
       (size_as_u64 (ss_queue_current_size s)) 0,
     violation (ss_currently_running_count s \<noteq> 0) SCHEDULER_VALIDATION_ISSUE_QUIESCENT_CALLBACK_RUNNING
       (ss_currently_running_count s) 0,
     violation (ss_active_worker_count s \<noteq> 0) SCHEDULER_VALIDATION_ISSUE_QUIESCENT_WORKER_ACTIVE
       (size_as_u64 (ss_active_worker_count s)) 0,
     violation (ss_state s = SCHEDULER_SNAPSHOT_STATE_STOPPED
         \<and> ss_joined_worker_count s \<noteq> ss_created_worker_count s)
       SCHEDULER_VALIDATION_ISSUE_STOPPED_WORKERS_NOT_JOINED
       (size_as_u64 (ss_joined_worker_count s)) (size_as_u64 (ss_created_worker_count s))]"

definition raised :: "SchedulerValidationMode \<Rightarrow> SchedulerSnapshot \<Rightarrow> SchedulerValidationIssueRecord list" where
  "raised mode s =
     violation (ss_version s \<noteq> CONCURRENT_SCHEDULER_SNAPSHOT_VERSION)
       SCHEDULER_VALIDATION_ISSUE_SNAPSHOT_VERSION_UNSUPPORTED
       (ucast (ss_version s)) (ucast CONCURRENT_SCHEDULER_SNAPSHOT_VERSION)
     @ violation (ss_consistency s \<noteq> SCHEDULER_SNAPSHOT_CONSISTENCY_DOMAIN_EXACT)
       SCHEDULER_VALIDATION_ISSUE_CONSISTENCY_UNSUPPORTED (word_of_int (ss_consistency s)) 1
     @ incomplete (ss_overflow_detected s) SCHEDULER_VALIDATION_ISSUE_ACCOUNTING_OVERFLOW 1 0
     @ structural_issues s
     @ (if ss_overflow_detected s then [] else accounting_issues s)
     @ (if mode = SCHEDULER_VALIDATION_QUIESCENT
        then if \<not> quiescent_mode_applicable s
          then incomplete True SCHEDULER_VALIDATION_ISSUE_QUIESCENT_MODE_NOT_APPLICABLE
            (snapshot_state_u64 (ss_state s)) 4
          else if ss_overflow_detected s then [] else quiescent_issues s
        else [])"

lemma structural_put: "validate_structural s r = fold put (structural_issues s) r"
  by (simp add: validate_structural_def structural_issues_def check_put check_greater_put Let_def)

lemma accounting_put: "validate_accounting_bounds s r = fold put (accounting_issues s) r"
  by (simp add: validate_accounting_bounds_def accounting_issues_def check_put Let_def)

lemma quiescent_put: "validate_quiescent s r = fold put (quiescent_issues s) r"
  by (simp add: validate_quiescent_def quiescent_issues_def check_put Let_def)

lemma incomplete_put:
  "fold put (incomplete bad i a b) r
     = (if bad then record_issue r i SCHEDULER_VALIDATION_SEVERITY_INCOMPLETE a b else r)"
  by (simp add: incomplete_def put_def)

definition valid_mode :: "SchedulerValidationMode \<Rightarrow> bool" where
  "valid_mode mode \<longleftrightarrow> mode = SCHEDULER_VALIDATION_LIVE \<or> mode = SCHEDULER_VALIDATION_QUIESCENT"

lemma validate_put:
  assumes "valid_mode mode"
  shows "scheduler_snapshot_validate (Some s) mode True
    = Some (fold put (raised mode s) (zero_result\<lparr>res_mode := mode, res_snapshot_version := ss_version s\<rparr>))"
  using assms
  by (auto simp: scheduler_snapshot_validate_def raised_def valid_mode_def check_put structural_put
      accounting_put quiescent_put incomplete_put Let_def)

text \<open>What the result holds after a list of issues.\<close>

abbreviation is_violation :: "SchedulerValidationIssueRecord \<Rightarrow> bool" where
  "is_violation x \<equiv> rec_severity x = SCHEDULER_VALIDATION_SEVERITY_VIOLATION"

abbreviation is_incomplete :: "SchedulerValidationIssueRecord \<Rightarrow> bool" where
  "is_incomplete x \<equiv> rec_severity x = SCHEDULER_VALIDATION_SEVERITY_INCOMPLETE"

abbreviation is_advisory :: "SchedulerValidationIssueRecord \<Rightarrow> bool" where
  "is_advisory x \<equiv> rec_severity x = SCHEDULER_VALIDATION_SEVERITY_ADVISORY"

definition summarizes :: "SchedulerValidationResult \<Rightarrow> SchedulerValidationIssueRecord list \<Rightarrow> bool" where
  "summarizes r xs \<longleftrightarrow>
     unat (res_issue_count r) = min (length xs) SCHEDULER_VALIDATION_ISSUE_CAPACITY
     \<and> length (res_issues r) = SCHEDULER_VALIDATION_ISSUE_CAPACITY
     \<and> take (unat (res_issue_count r)) (res_issues r) = take SCHEDULER_VALIDATION_ISSUE_CAPACITY xs
     \<and> (res_issues_truncated r \<longleftrightarrow> SCHEDULER_VALIDATION_ISSUE_CAPACITY < length xs)
     \<and> res_violation_count r = of_nat (length (filter is_violation xs))
     \<and> (res_validation_incomplete r \<longleftrightarrow> list_ex is_incomplete xs)
     \<and> (res_advisory_count r \<noteq> 0 \<longrightarrow> list_ex is_advisory xs)"

lemma record_keeps [simp]:
  "res_mode (record_issue r i v a b) = res_mode r"
  "res_snapshot_version (record_issue r i v a b) = res_snapshot_version r"
  by (simp_all add: record_issue_def Let_def)

lemma put_summarizes:
  assumes "summarizes r xs"
  shows "summarizes (put x r) (xs @ [x])"
proof -
  have cap: "of_nat SCHEDULER_VALIDATION_ISSUE_CAPACITY = (16 :: size_t)"
    by (simp add: SCHEDULER_VALIDATION_ISSUE_CAPACITY_def)
  have less: "res_issue_count r < 16 \<longleftrightarrow> length xs < 16"
    using assms by (simp add: summarizes_def SCHEDULER_VALIDATION_ISSUE_CAPACITY_def word_less_nat_alt min_def)
  show ?thesis
  proof (cases "length xs < 16")
    case True
    then have n: "unat (res_issue_count r) = length xs" "length (res_issues r) = 16"
      "take (length xs) (res_issues r) = xs"
      using assms by (auto simp: summarizes_def SCHEDULER_VALIDATION_ISSUE_CAPACITY_def min_def)
    have "res_issue_count r \<noteq> - 1" by (rule less_not_max [OF iffD2 [OF less True]])
    then have suc: "unat (res_issue_count r + 1) = Suc (length xs)" using n(1) by simp
    have "take (Suc (length xs)) ((res_issues r)[length xs := y]) = xs @ [y]" for y
      using n True by (simp add: take_Suc_conv_app_nth)
    with assms True less n suc show ?thesis
      by (auto simp: put_def record_issue_def Let_def cap summarizes_def SCHEDULER_VALIDATION_ISSUE_CAPACITY_def)
  next
    case False
    with assms less show ?thesis
      by (auto simp: put_def record_issue_def Let_def cap summarizes_def SCHEDULER_VALIDATION_ISSUE_CAPACITY_def)
  qed
qed

lemma fold_put_summarizes:
  "summarizes r [] \<Longrightarrow> summarizes (fold put xs r) xs"
  by (induction xs rule: rev_induct) (simp_all add: put_summarizes)

lemma fold_put_keeps:
  "res_mode (fold put xs r) = res_mode r \<and> res_snapshot_version (fold put xs r) = res_snapshot_version r"
  by (induction xs arbitrary: r) (simp_all add: put_def)

lemma validate_summarizes:
  assumes "scheduler_snapshot_validate (Some s) mode True = Some r"
  shows "valid_mode mode" "summarizes r (raised mode s)" "res_mode r = mode"
    "res_snapshot_version r = ss_version s"
proof -
  show mode: "valid_mode mode"
    using assms by (auto simp: scheduler_snapshot_validate_def valid_mode_def split: if_splits)
  have zero: "summarizes (zero_result\<lparr>res_mode := mode, res_snapshot_version := ss_version s\<rparr>) []"
    by (simp add: summarizes_def zero_result_def)
  from validate_put [OF mode, of s] assms
  have r: "r = fold put (raised mode s) (zero_result\<lparr>res_mode := mode, res_snapshot_version := ss_version s\<rparr>)"
    by simp
  show "summarizes r (raised mode s)" using r fold_put_summarizes [OF zero] by simp
  show "res_mode r = mode" "res_snapshot_version r = ss_version s" using r fold_put_keeps by simp_all
qed

section \<open>What a clean result means\<close>

lemma violation_clean [simp]:
  "filter is_violation (violation bad i a b) = [] \<longleftrightarrow> \<not> bad"
  "filter is_violation (incomplete bad i a b) = []"
  "list_ex is_incomplete (violation bad i a b) \<longleftrightarrow> False"
  "list_ex is_incomplete (incomplete bad i a b) \<longleftrightarrow> bad"
  by (simp_all add: violation_def incomplete_def)

lemma raised_length: "length (raised mode s) \<le> 30"
proof -
  have v: "length (violation b i x y) \<le> 1" "length (incomplete b i x y) \<le> 1" for b i x y
    by (simp_all add: violation_def incomplete_def)
  have "length (structural_issues s) \<le> 11" "length (accounting_issues s) \<le> 5" "length (quiescent_issues s) \<le> 8"
    unfolding structural_issues_def accounting_issues_def quiescent_issues_def concat.simps length_append
    by (simp_all add: violation_def)
  then show ?thesis unfolding raised_def length_append
    using v by (auto simp: violation_def incomplete_def)
qed

lemma no_violation_iff:
  assumes "summarizes r (raised mode s)"
  shows "res_violation_count r = 0 \<longleftrightarrow> filter is_violation (raised mode s) = []"
proof -
  have "length (filter is_violation (raised mode s)) < 2 ^ 64"
    by (rule le_less_trans [OF length_filter_le le_less_trans [OF raised_length]]) simp
  with assms show ?thesis by (simp add: summarizes_def of_nat64_eq_0)
qed

text \<open>
  The bounds a snapshot has to respect, in plain numbers: no arithmetic here can wrap.
\<close>

definition live_bounds :: "SchedulerSnapshot \<Rightarrow> bool" where
  "live_bounds s \<longleftrightarrow> ss_version s = 1 \<and> ss_consistency s = 1
     \<and> unat (ss_queue_current_size s) \<le> unat (ss_queue_high_water_mark s)
     \<and> unat (ss_queue_high_water_mark s) \<le> unat (ss_queue_capacity s)
     \<and> unat (ss_created_worker_count s) \<le> unat (ss_configured_worker_count s)
     \<and> unat (ss_ready_worker_count s) \<le> unat (ss_created_worker_count s)
     \<and> unat (ss_active_worker_count s) + unat (ss_joined_worker_count s) \<le> unat (ss_created_worker_count s)
     \<and> unat (ss_currently_running_count s) \<le> unat (ss_active_worker_count s)
     \<and> unat (ss_worker_startup_failure_count s) \<le> unat (ss_configured_worker_count s)
     \<and> lifecycle_flags_valid s"

definition accounting_bounds :: "SchedulerSnapshot \<Rightarrow> bool" where
  "accounting_bounds s \<longleftrightarrow>
     unat (ss_callback_succeeded_count s) + unat (ss_callback_failed_count s) \<le> unat (ss_callback_started_count s)
     \<and> unat (ss_callback_started_count s) \<le> unat (ss_dequeued_count s)
     \<and> unat (ss_dequeued_count s) \<le> unat (ss_accepted_count s)
     \<and> unat (ss_accepted_count s) \<le> unat (ss_submitted_count s)
     \<and> unat (ss_rejected_count s) \<le> unat (ss_submitted_count s)"

definition balanced :: "SchedulerSnapshot \<Rightarrow> bool" where
  "balanced s \<longleftrightarrow>
     unat (ss_submitted_count s) = unat (ss_accepted_count s) + unat (ss_rejected_count s)
     \<and> ss_accepted_count s = ss_dequeued_count s
     \<and> ss_dequeued_count s = ss_callback_started_count s
     \<and> unat (ss_callback_started_count s) = unat (ss_callback_succeeded_count s) + unat (ss_callback_failed_count s)
     \<and> ss_queue_current_size s = 0 \<and> ss_currently_running_count s = 0 \<and> ss_active_worker_count s = 0
     \<and> (ss_state s = SCHEDULER_SNAPSHOT_STATE_STOPPED \<longrightarrow> ss_joined_worker_count s = ss_created_worker_count s)"

lemma size_as_u64_id [simp]: "size_as_u64 v = v"
  by (simp add: size_as_u64_def)

lemma sum_fits:
  "unat a + unat b \<le> unat c \<Longrightarrow> unat (a + b) = unat a + unat b" for a b c :: u64
  using unat_le_max [of c] by (simp add: unat_word_ariths)

lemma add_exceeds_iff: "\<not> add_exceeds a b c \<longleftrightarrow> unat a + unat b \<le> unat c"
proof -
  have "\<not> add_exceeds a b c \<longleftrightarrow> unat a \<le> unat c \<and> unat b \<le> unat (c - a)"
    by (simp add: add_exceeds_def not_less word_le_nat_alt)
  also have "\<dots> \<longleftrightarrow> unat a \<le> unat c \<and> unat b \<le> unat c - unat a"
    by (auto simp: unat_sub word_le_nat_alt)
  also have "\<dots> \<longleftrightarrow> unat a + unat b \<le> unat c" by linarith
  finally show ?thesis .
qed

lemma active_joined_iff:
  fixes a j c :: size_t
  assumes "\<not> j > c"
  shows "\<not> a > c - (if j > c then c else j) \<longleftrightarrow> unat a + unat j \<le> unat c"
proof -
  have j: "j \<le> c" using assms by simp
  have "\<not> a > c - j \<longleftrightarrow> unat a \<le> unat (c - j)" by (simp add: not_less word_le_nat_alt)
  also have "\<dots> \<longleftrightarrow> unat a + unat j \<le> unat c"
    using unat_sub [OF j] unat_mono_le [OF j] by linarith
  finally show ?thesis using assms by simp
qed

lemma structural_clean:
  assumes "ss_version s = 1" "ss_consistency s = 1"
  shows "filter is_violation (structural_issues s) = [] \<longleftrightarrow> live_bounds s"
proof -
  let ?q = "ss_queue_current_size s" and ?h = "ss_queue_high_water_mark s" and ?c = "ss_queue_capacity s"
  let ?n = "ss_created_worker_count s" and ?j = "ss_joined_worker_count s" and ?a = "ss_active_worker_count s"
  have "filter is_violation (structural_issues s) = [] \<longleftrightarrow>
      \<not> ?q > ?c \<and> \<not> ?h > ?c \<and> \<not> ?q > ?h \<and> \<not> ?n > ss_configured_worker_count s
      \<and> \<not> ss_ready_worker_count s > ?n \<and> \<not> ?a > ?n \<and> \<not> ?j > ?n \<and> \<not> ?a > ?n - (if ?j > ?n then ?n else ?j)
      \<and> \<not> ss_currently_running_count s > ?a
      \<and> \<not> ss_worker_startup_failure_count s > ss_configured_worker_count s \<and> lifecycle_flags_valid s"
    unfolding structural_issues_def concat.simps filter_append append_is_Nil_conv violation_clean by simp
  also have "\<dots> \<longleftrightarrow> live_bounds s" (is "?l \<longleftrightarrow> _")
  proof
    assume l: ?l
    then have "unat ?a + unat ?j \<le> unat ?n" using active_joined_iff [of ?n ?j ?a] by blast
    with l assms show "live_bounds s" by (simp add: live_bounds_def not_less word_le_nat_alt)
  next
    assume b: "live_bounds s"
    then have "\<not> ?j > ?n" by (simp add: live_bounds_def not_less word_le_nat_alt)
    with b active_joined_iff [of ?n ?j ?a] have "\<not> ?a > ?n - (if ?j > ?n then ?n else ?j)"
      by (simp add: live_bounds_def)
    with b show ?l by (simp add: live_bounds_def not_less word_le_nat_alt)
  qed
  finally show ?thesis .
qed

lemma accounting_clean: "filter is_violation (accounting_issues s) = [] \<longleftrightarrow> accounting_bounds s"
  unfolding accounting_issues_def concat.simps filter_append append_is_Nil_conv violation_clean add_exceeds_iff
  by (auto simp: accounting_bounds_def not_less word_le_nat_alt)

lemma quiescent_clean:
  assumes "accounting_bounds s"
  shows "filter is_violation (quiescent_issues s) = [] \<longleftrightarrow> balanced s"
proof -
  have fits: "ss_callback_started_count s = ss_callback_succeeded_count s + ss_callback_failed_count s
      \<longleftrightarrow> unat (ss_callback_started_count s)
            = unat (ss_callback_succeeded_count s) + unat (ss_callback_failed_count s)"
    using assms sum_fits unat_eq_iff by (metis accounting_bounds_def)
  have sum: "ss_submitted_count s = ss_accepted_count s + ss_rejected_count s
      \<longleftrightarrow> unat (ss_submitted_count s) = unat (ss_accepted_count s) + unat (ss_rejected_count s)"
    (is "?w \<longleftrightarrow> ?n")
  proof
    assume ?n
    then show ?w using sum_fits [of "ss_accepted_count s" "ss_rejected_count s" "ss_submitted_count s"]
      by (simp flip: unat_eq_iff)
  next
    assume w: ?w
    show ?n
    proof (rule ccontr)
      let ?a = "unat (ss_accepted_count s)" and ?r = "unat (ss_rejected_count s)" and ?s = "unat (ss_submitted_count s)"
      assume "\<not> ?n"
      from w have s: "?s = (?a + ?r) mod 2 ^ 64" by (simp add: unat_word_ariths)
      with \<open>\<not> ?n\<close> have "\<not> ?a + ?r < 2 ^ 64" by auto
      then have "(?a + ?r) div 2 ^ 64 \<noteq> 0" by (simp add: div_eq_0_iff)
      then have "2 ^ 64 \<le> (?a + ?r) div 2 ^ 64 * 2 ^ 64" by simp
      with s have "?s + 2 ^ 64 \<le> ?a + ?r"
        using div_mult_mod_eq [of "?a + ?r" "2 ^ 64"] by linarith
      moreover have "?a \<le> ?s" "?r \<le> ?s" using assms by (auto simp: accounting_bounds_def)
      ultimately show False using unat_le_max [of "ss_accepted_count s"] by simp
    qed
  qed
  show ?thesis
    unfolding quiescent_issues_def concat.simps filter_append append_is_Nil_conv violation_clean
    by (auto simp: balanced_def fits sum)
qed

lemma raised_clean:
  "filter is_violation (raised SCHEDULER_VALIDATION_LIVE s) = []
     \<longleftrightarrow> live_bounds s \<and> (ss_overflow_detected s \<or> accounting_bounds s)"
proof -
  have "filter is_violation (raised SCHEDULER_VALIDATION_LIVE s) = [] \<longleftrightarrow>
      ss_version s = 1 \<and> ss_consistency s = 1 \<and> filter is_violation (structural_issues s) = []
      \<and> (ss_overflow_detected s \<or> filter is_violation (accounting_issues s) = [])"
    by (auto simp: raised_def)
  also have "\<dots> \<longleftrightarrow> live_bounds s \<and> (ss_overflow_detected s \<or> accounting_bounds s)"
    using structural_clean [of s] accounting_clean [of s] by (auto simp: live_bounds_def)
  finally show ?thesis .
qed

lemma issues_complete: "list_ex is_incomplete (structural_issues s) = False"
  "list_ex is_incomplete (accounting_issues s) = False" "list_ex is_incomplete (quiescent_issues s) = False"
  unfolding structural_issues_def accounting_issues_def quiescent_issues_def concat.simps list_ex_append
    violation_clean by simp_all

lemma raised_quiescent_clean:
  "filter is_violation (raised SCHEDULER_VALIDATION_QUIESCENT s) = []
     \<and> \<not> list_ex is_incomplete (raised SCHEDULER_VALIDATION_QUIESCENT s)
   \<longleftrightarrow> live_bounds s \<and> accounting_bounds s \<and> \<not> ss_overflow_detected s
       \<and> quiescent_mode_applicable s \<and> balanced s"
proof -
  have "filter is_violation (raised SCHEDULER_VALIDATION_QUIESCENT s) = []
      \<and> \<not> list_ex is_incomplete (raised SCHEDULER_VALIDATION_QUIESCENT s) \<longleftrightarrow>
      ss_version s = 1 \<and> ss_consistency s = 1 \<and> filter is_violation (structural_issues s) = []
      \<and> \<not> ss_overflow_detected s \<and> filter is_violation (accounting_issues s) = []
      \<and> quiescent_mode_applicable s \<and> filter is_violation (quiescent_issues s) = []"
    by (auto simp: raised_def issues_complete)
  also have "\<dots> \<longleftrightarrow> live_bounds s \<and> accounting_bounds s \<and> \<not> ss_overflow_detected s
      \<and> quiescent_mode_applicable s \<and> balanced s"
    using structural_clean [of s] accounting_clean [of s] quiescent_clean [of s] by (auto simp: live_bounds_def)
  finally show ?thesis .
qed




lemma no_advisory: "\<not> list_ex is_advisory (raised mode s)"
proof -
  have v: "\<not> list_ex is_advisory (violation b i x y)" "\<not> list_ex is_advisory (incomplete b i x y)" for b i x y
    by (simp_all add: violation_def incomplete_def)
  have "\<not> list_ex is_advisory (structural_issues s)" "\<not> list_ex is_advisory (accounting_issues s)"
    "\<not> list_ex is_advisory (quiescent_issues s)"
    unfolding structural_issues_def accounting_issues_def quiescent_issues_def concat.simps list_ex_append
    using v by simp_all
  then show ?thesis using v by (simp add: raised_def)
qed

section \<open>Properties\<close>

text \<open>A snapshot of a scheduler that has processed three tasks, one of them failing, and stopped.\<close>

definition stopped_snapshot :: SchedulerSnapshot where
  "stopped_snapshot = \<lparr>ss_version = 1, ss_consistency = 1, ss_overflow_detected = False,
     ss_state = SCHEDULER_SNAPSHOT_STATE_STOPPED, ss_submissions_open = False, ss_shutdown_started = True,
     ss_configured_worker_count = 2, ss_submitted_count = 4, ss_accepted_count = 3, ss_rejected_count = 1,
     ss_created_worker_count = 2, ss_ready_worker_count = 0, ss_active_worker_count = 0,
     ss_joined_worker_count = 2, ss_dequeued_count = 3, ss_callback_started_count = 3,
     ss_callback_succeeded_count = 2, ss_callback_failed_count = 1, ss_currently_running_count = 0,
     ss_queue_capacity = 4, ss_queue_current_size = 0, ss_queue_high_water_mark = 2,
     ss_worker_startup_failure_count = 0, ss_worker_runtime_failure_count = 0, ss_join_failure_count = 0\<rparr>"

lemma stopped_bounds: "live_bounds stopped_snapshot" "accounting_bounds stopped_snapshot"
  "balanced stopped_snapshot" "quiescent_mode_applicable stopped_snapshot"
  by (simp_all add: stopped_snapshot_def live_bounds_def accounting_bounds_def balanced_def
      lifecycle_flags_valid_def quiescent_mode_applicable_def)

lemma validate_some: "valid_mode mode \<Longrightarrow> \<exists>r. scheduler_snapshot_validate (Some s) mode True = Some r"
  by (simp add: validate_put)

text \<open>
  C24. Validation decides exactly the documented bounds, in numbers that do not wrap: live
  validation reports no violation exactly when the structural bounds hold and, unless a counter
  overflowed, the accounting bounds hold; quiescent validation reports neither a violation nor
  incompleteness exactly when in addition the mode applies, no counter overflowed and all
  balances are exact, although the code adds 64-bit counters without checking for wrap-around.
\<close>

theorem validation_exact:
  assumes "scheduler_snapshot_validate (Some s) mode True = Some r"
  shows "(mode = SCHEDULER_VALIDATION_LIVE \<and>
          (res_violation_count r = 0 \<longleftrightarrow> live_bounds s \<and> (ss_overflow_detected s \<or> accounting_bounds s)))
    \<or> (mode = SCHEDULER_VALIDATION_QUIESCENT \<and>
          (res_violation_count r = 0 \<and> \<not> res_validation_incomplete r \<longleftrightarrow>
             live_bounds s \<and> accounting_bounds s \<and> \<not> ss_overflow_detected s
             \<and> quiescent_mode_applicable s \<and> balanced s))"
proof -
  note v = validate_summarizes [OF assms]
  have inc: "res_validation_incomplete r \<longleftrightarrow> list_ex is_incomplete (raised mode s)"
    using v(2) by (simp add: summarizes_def)
  from v(1) consider "mode = SCHEDULER_VALIDATION_LIVE" | "mode = SCHEDULER_VALIDATION_QUIESCENT"
    by (auto simp: valid_mode_def)
  then show ?thesis
  proof cases
    case 1
    with no_violation_iff [OF v(2)] raised_clean show ?thesis by simp
  next
    case 2
    with no_violation_iff [OF v(2)] inc raised_quiescent_clean show ?thesis by simp
  qed
qed

theorem validation_exact_witness:
  "\<exists>r. scheduler_snapshot_validate (Some stopped_snapshot) SCHEDULER_VALIDATION_QUIESCENT True = Some r
     \<and> res_violation_count r = 0"
proof -
  obtain r where r: "scheduler_snapshot_validate (Some stopped_snapshot) SCHEDULER_VALIDATION_QUIESCENT True = Some r"
    using validate_some [of SCHEDULER_VALIDATION_QUIESCENT] by (auto simp: valid_mode_def)
  have "\<not> ss_overflow_detected stopped_snapshot" by (simp add: stopped_snapshot_def)
  with validation_exact [OF r] stopped_bounds r show ?thesis by simp
qed

text \<open>
  C36. A result reports faithfully: its list holds the first sixteen issues in the order of the
  checks and nothing else, it says truncated exactly when there were more, the violation count
  counts all of them, listed or not, and it names the snapshot version and the mode it is for.
\<close>

theorem validation_report:
  assumes "scheduler_snapshot_validate (Some s) mode True = Some r"
  shows "unat (res_issue_count r) = min (length (raised mode s)) 16
    \<and> length (res_issues r) = 16
    \<and> take (unat (res_issue_count r)) (res_issues r) = take 16 (raised mode s)
    \<and> (res_issues_truncated r \<longleftrightarrow> 16 < length (raised mode s))
    \<and> unat (res_violation_count r) = length (filter is_violation (raised mode s))
    \<and> res_mode r = mode \<and> res_snapshot_version r = ss_version s"
proof -
  note v = validate_summarizes [OF assms]
  have "length (filter is_violation (raised mode s)) < 2 ^ 64"
    by (rule le_less_trans [OF length_filter_le le_less_trans [OF raised_length]]) simp
  then have count: "unat (res_violation_count r) = length (filter is_violation (raised mode s))"
    using v(2) by (simp add: summarizes_def unat_of_nat64)
  from v(2) have sum: "unat (res_issue_count r) = min (length (raised mode s)) 16" "length (res_issues r) = 16"
    "take (unat (res_issue_count r)) (res_issues r) = take 16 (raised mode s)"
    "res_issues_truncated r \<longleftrightarrow> 16 < length (raised mode s)"
    unfolding summarizes_def SCHEDULER_VALIDATION_ISSUE_CAPACITY_def by blast+
  show ?thesis using sum count v(3,4) by blast
qed

theorem validation_report_witness:
  "\<exists>r. scheduler_snapshot_validate (Some (stopped_snapshot\<lparr>ss_active_worker_count := 1\<rparr>))
       SCHEDULER_VALIDATION_LIVE True = Some r
     \<and> unat (res_violation_count r) = 1"
proof -
  let ?s = "stopped_snapshot\<lparr>ss_active_worker_count := 1\<rparr>"
  obtain r where r: "scheduler_snapshot_validate (Some ?s) SCHEDULER_VALIDATION_LIVE True = Some r"
    using validate_some [of SCHEDULER_VALIDATION_LIVE] by (auto simp: valid_mode_def)
  have "length (filter is_violation (raised SCHEDULER_VALIDATION_LIVE ?s)) = 1"
    by (simp add: raised_def structural_issues_def accounting_issues_def violation_def incomplete_def
        stopped_snapshot_def lifecycle_flags_valid_def add_exceeds_def)
  with validation_report [OF r] r show ?thesis by simp
qed



text \<open>
  C25. Health is a function of the validated snapshot as documented: it is \<open>FAILED\<close> exactly for a
  failed scheduler or a violated bound, otherwise \<open>STOPPING\<close> or \<open>STOPPED\<close> by the lifecycle state,
  and otherwise \<open>HEALTHY\<close> exactly when nothing was left unchecked and no failure was counted.
\<close>

theorem health_exact:
  assumes "scheduler_snapshot_validate (Some s) SCHEDULER_VALIDATION_LIVE True = Some r"
    and "scheduler_snapshot_derive_health (Some s) (Some r) True = Some h"
  shows "(h = SCHEDULER_HEALTH_FAILED \<longleftrightarrow> ss_state s = SCHEDULER_SNAPSHOT_STATE_FAILED
          \<or> \<not> (live_bounds s \<and> (ss_overflow_detected s \<or> accounting_bounds s)))
    \<and> (h = SCHEDULER_HEALTH_HEALTHY \<longleftrightarrow> live_bounds s \<and> accounting_bounds s \<and> \<not> ss_overflow_detected s
          \<and> ss_state s \<in> {SCHEDULER_SNAPSHOT_STATE_INITIALIZED, SCHEDULER_SNAPSHOT_STATE_STARTING,
                            SCHEDULER_SNAPSHOT_STATE_RUNNING}
          \<and> ss_callback_failed_count s = 0 \<and> ss_worker_startup_failure_count s = 0
          \<and> ss_worker_runtime_failure_count s = 0 \<and> ss_join_failure_count s = 0)"
proof -
  note v = validate_summarizes [OF assms(1)]
  have inc: "res_validation_incomplete r \<longleftrightarrow> ss_overflow_detected s"
    using v(2) by (simp add: summarizes_def raised_def issues_complete)
  have adv: "res_advisory_count r = 0"
    using v(2) by (auto simp: summarizes_def no_advisory)
  have vio: "res_violation_count r = 0 \<longleftrightarrow> live_bounds s \<and> (ss_overflow_detected s \<or> accounting_bounds s)"
    using no_violation_iff [OF v(2)] raised_clean by simp
  have state: "live_bounds s \<Longrightarrow> ss_state s \<noteq> SCHEDULER_SNAPSHOT_STATE_OUTSIDE i" for i
    by (auto simp: live_bounds_def lifecycle_flags_valid_def)
  show ?thesis
    using assms(2) vio state inc adv
    by (cases "ss_state s") (auto simp: scheduler_snapshot_derive_health_def split: if_splits)
qed

theorem health_exact_witness:
  "\<exists>r h. scheduler_snapshot_validate (Some stopped_snapshot) SCHEDULER_VALIDATION_LIVE True = Some r
     \<and> scheduler_snapshot_derive_health (Some stopped_snapshot) (Some r) True = Some h
     \<and> h \<noteq> SCHEDULER_HEALTH_FAILED"
proof -
  obtain r where r: "scheduler_snapshot_validate (Some stopped_snapshot) SCHEDULER_VALIDATION_LIVE True = Some r"
    using validate_some [of SCHEDULER_VALIDATION_LIVE] by (auto simp: valid_mode_def)
  obtain h where h: "scheduler_snapshot_derive_health (Some stopped_snapshot) (Some r) True = Some h"
    using validate_summarizes(4) [OF r] by (simp add: scheduler_snapshot_derive_health_def)
  have "ss_state stopped_snapshot \<noteq> SCHEDULER_SNAPSHOT_STATE_FAILED" by (simp add: stopped_snapshot_def)
  with health_exact [OF r h] stopped_bounds r h show ?thesis by blast
qed
end
