(* ===== verification/Fault_Injection.thy ===== *)
theory Fault_Injection
  imports Prelude
begin

text \<open>
  The test-only failure points (\<open>src/scheduler_fault_injection.c\<close>,
  \<open>src/internal/scheduler_fault_injection.h\<close>): a plan names one point and the occurrence at
  which it fails. A null pointer is \<^term>\<open>None\<close>; the atomic fields are plain fields, because
  one thread at a time asks (the lifecycle calls are serialized by their caller).
\<close>

section \<open>Data\<close>

datatype SchedulerFaultPoint =
    SCHEDULER_FAULT_NONE
  | SCHEDULER_FAULT_ALLOCATION
  | SCHEDULER_FAULT_WORKER_CREATION
  | SCHEDULER_FAULT_WORKER_STARTUP
  | SCHEDULER_FAULT_WORKER_JOIN
  | SCHEDULER_FAULT_OUTSIDE int

record SchedulerFaultPlan =
  plan_point :: SchedulerFaultPoint
  trigger_occurrence :: u64
  observed_occurrence :: u64
  enabled :: bool
  triggered :: bool
  occurrence_overflow :: bool

record SchedulerFaultPlanSnapshot =
  snap_point :: SchedulerFaultPoint
  snap_trigger_occurrence :: u64
  snap_observed_occurrence :: u64
  snap_enabled :: bool
  snap_triggered :: bool
  snap_occurrence_overflow :: bool

section \<open>Operations\<close>

definition scheduler_fault_point_supported :: "SchedulerFaultPoint \<Rightarrow> bool" where
  "scheduler_fault_point_supported point \<longleftrightarrow>
     point = SCHEDULER_FAULT_ALLOCATION \<or> point = SCHEDULER_FAULT_WORKER_CREATION
     \<or> point = SCHEDULER_FAULT_WORKER_JOIN"

definition idle_plan :: SchedulerFaultPlan where
  "idle_plan = \<lparr>plan_point = SCHEDULER_FAULT_NONE, trigger_occurrence = 0, observed_occurrence = 0,
     enabled = False, triggered = False, occurrence_overflow = False\<rparr>"

definition scheduler_fault_plan_init :: "SchedulerFaultPlan option \<Rightarrow> SchedulerFaultPlan option" where
  "scheduler_fault_plan_init plan = map_option (\<lambda>_. idle_plan) plan"

definition scheduler_fault_plan_configure ::
  "SchedulerFaultPlan option \<Rightarrow> SchedulerFaultPoint \<Rightarrow> u64 \<Rightarrow> bool \<times> SchedulerFaultPlan option" where
  "scheduler_fault_plan_configure plan point occurrence = (case plan of
      None \<Rightarrow> (False, None)
    | Some p \<Rightarrow>
        if \<not> scheduler_fault_point_supported point \<or> occurrence = 0 then (False, Some p)
        else (True, Some (p\<lparr>plan_point := point, trigger_occurrence := occurrence,
               observed_occurrence := 0, triggered := False, occurrence_overflow := False,
               enabled := True\<rparr>)))"

definition scheduler_fault_plan_reset :: "SchedulerFaultPlan option \<Rightarrow> SchedulerFaultPlan option" where
  "scheduler_fault_plan_reset plan =
     map_option (\<lambda>p. p\<lparr>enabled := False, plan_point := SCHEDULER_FAULT_NONE, trigger_occurrence := 0,
       observed_occurrence := 0, triggered := False, occurrence_overflow := False\<rparr>) plan"

definition scheduler_fault_should_trigger ::
  "SchedulerFaultPlan option \<Rightarrow> SchedulerFaultPoint \<Rightarrow> bool \<times> SchedulerFaultPlan option" where
  "scheduler_fault_should_trigger plan point = (case plan of
      None \<Rightarrow> (False, None)
    | Some p \<Rightarrow>
        if \<not> enabled p \<or> plan_point p \<noteq> point \<or> triggered p then (False, Some p)
        else if observed_occurrence p = UINT64_MAX
        then (False, Some (p\<lparr>occurrence_overflow := True\<rparr>))
        else (let observed = observed_occurrence p + 1;
                  p = p\<lparr>observed_occurrence := observed\<rparr>
              in if observed = trigger_occurrence p then (True, Some (p\<lparr>triggered := True\<rparr>))
                 else (False, Some p)))"

definition scheduler_fault_plan_capture ::
  "SchedulerFaultPlan option \<Rightarrow> bool \<Rightarrow> SchedulerFaultPlanSnapshot option" where
  "scheduler_fault_plan_capture plan out = (case plan of
      None \<Rightarrow> None
    | Some p \<Rightarrow>
        if \<not> out then None
        else Some \<lparr>snap_point = plan_point p, snap_trigger_occurrence = trigger_occurrence p,
          snap_observed_occurrence = observed_occurrence p, snap_enabled = enabled p,
          snap_triggered = triggered p, snap_occurrence_overflow = occurrence_overflow p\<rparr>)"

definition scheduler_fault_point_name :: "SchedulerFaultPoint \<Rightarrow> string" where
  "scheduler_fault_point_name point = (case point of
      SCHEDULER_FAULT_NONE \<Rightarrow> ''NONE''
    | SCHEDULER_FAULT_ALLOCATION \<Rightarrow> ''ALLOCATION''
    | SCHEDULER_FAULT_WORKER_CREATION \<Rightarrow> ''WORKER_CREATION''
    | SCHEDULER_FAULT_WORKER_STARTUP \<Rightarrow> ''WORKER_STARTUP''
    | SCHEDULER_FAULT_WORKER_JOIN \<Rightarrow> ''WORKER_JOIN''
    | SCHEDULER_FAULT_OUTSIDE _ \<Rightarrow> ''UNKNOWN'')"

text \<open>The plan of an existing scheduler, asked once.\<close>

definition fault_fires :: "SchedulerFaultPlan \<Rightarrow> SchedulerFaultPoint \<Rightarrow> bool \<times> SchedulerFaultPlan" where
  "fault_fires p point = (case scheduler_fault_should_trigger (Some p) point of (b, p') \<Rightarrow> (b, the p'))"

text \<open>A plan that is asked about a sequence of points.\<close>

fun answers :: "SchedulerFaultPlan \<Rightarrow> SchedulerFaultPoint list \<Rightarrow> bool list \<times> SchedulerFaultPlan" where
  "answers p [] = ([], p)"
| "answers p (x # xs) = (case fault_fires p x of (b, p') \<Rightarrow>
     (case answers p' xs of (bs, p'') \<Rightarrow> (b # bs, p'')))"

section \<open>A configured plan fires once\<close>

lemma fires_disabled [simp]: "\<not> enabled p \<Longrightarrow> fault_fires p x = (False, p)"
  by (simp add: fault_fires_def scheduler_fault_should_trigger_def)

lemma answers_disabled: "\<not> enabled p \<Longrightarrow> answers p xs = (replicate (length xs) False, p)"
  by (induction xs) simp_all

lemma answers_over:
  "triggered p \<Longrightarrow> answers p xs = (replicate (length xs) False, p)"
  by (induction xs) (simp_all add: fault_fires_def scheduler_fault_should_trigger_def)

text \<open>
  The plan waits for one more occurrence than \<open>n\<close>: the answers are all negative up to the
  occurrence of the point that is preceded by \<open>n\<close> others, and from the next one on.
\<close>

definition nth_occurrence :: "SchedulerFaultPoint \<Rightarrow> nat \<Rightarrow> SchedulerFaultPoint list \<Rightarrow> bool list" where
  "nth_occurrence point n xs =
     map (\<lambda>i. xs ! i = point \<and> count_list (take i xs) point = n) [0..<length xs]"

lemma nth_occurrence_Nil [simp]: "nth_occurrence point n [] = []"
  by (simp add: nth_occurrence_def)

lemma nth_occurrence_Cons:
  "nth_occurrence point n (x # xs) =
     (if x = point then (n = 0) # (if n = 0 then replicate (length xs) False
                                   else nth_occurrence point (n - 1) xs)
      else False # nth_occurrence point n xs)"
proof (rule nth_equalityI)
  fix i assume "i < length (nth_occurrence point n (x # xs))"
  then have "i < Suc (length xs)" by (simp add: nth_occurrence_def)
  then show "nth_occurrence point n (x # xs) ! i =
     (if x = point then (n = 0) # (if n = 0 then replicate (length xs) False
                                   else nth_occurrence point (n - 1) xs)
      else False # nth_occurrence point n xs) ! i"
    unfolding nth_occurrence_def by (cases i) (auto simp: nth_append simp del: upt_Suc)
qed (simp add: nth_occurrence_def)

definition armed :: "SchedulerFaultPlan \<Rightarrow> SchedulerFaultPoint \<Rightarrow> nat \<Rightarrow> bool" where
  "armed p point n \<longleftrightarrow> enabled p \<and> plan_point p = point \<and> \<not> triggered p \<and> \<not> occurrence_overflow p
     \<and> unat (trigger_occurrence p) = Suc (unat (observed_occurrence p) + n)"

lemma armed_fires:
  assumes "armed p point n"
  obtains p' where "fault_fires p x = (x = point \<and> n = 0, p')"
    "x \<noteq> point \<Longrightarrow> p' = p" "x = point \<Longrightarrow> n \<noteq> 0 \<Longrightarrow> armed p' point (n - 1)"
    "x = point \<Longrightarrow> n = 0 \<Longrightarrow> triggered p' \<and> \<not> occurrence_overflow p'
       \<and> observed_occurrence p' = trigger_occurrence p"
proof (cases "x = point")
  case True
  have "unat (observed_occurrence p) < unat (trigger_occurrence p)" using assms by (simp add: armed_def)
  then have lt: "observed_occurrence p \<noteq> UINT64_MAX" by (intro less_not_max) (simp add: word_less_nat_alt)
  have hit: "observed_occurrence p + 1 = trigger_occurrence p \<longleftrightarrow> n = 0"
    using assms lt by (simp add: armed_def flip: unat_eq_iff)
  let ?p = "p\<lparr>observed_occurrence := observed_occurrence p + 1\<rparr>"
  have run: "fault_fires p x = (if n = 0 then (True, ?p\<lparr>triggered := True\<rparr>) else (False, ?p))"
    using assms True lt hit by (simp add: fault_fires_def scheduler_fault_should_trigger_def armed_def Let_def)
  show thesis
  proof (rule that [of "if n = 0 then ?p\<lparr>triggered := True\<rparr> else ?p"])
    show "armed (if n = 0 then ?p\<lparr>triggered := True\<rparr> else ?p) point (n - 1)" if "n \<noteq> 0"
      using that assms lt by (simp add: armed_def)
  qed (use run True hit assms in \<open>auto simp: armed_def\<close>)
next
  case False
  with assms show thesis
    by (intro that [of p]) (auto simp: fault_fires_def scheduler_fault_should_trigger_def armed_def)
qed

lemma answers_armed:
  "armed p point n \<Longrightarrow> fst (answers p xs) = nth_occurrence point n xs
     \<and> \<not> occurrence_overflow (snd (answers p xs))
     \<and> triggered (snd (answers p xs)) = (n < count_list xs point)"
proof (induction xs arbitrary: p n)
  case (Cons x xs)
  obtain p' where p': "fault_fires p x = (x = point \<and> n = 0, p')"
    "x \<noteq> point \<Longrightarrow> p' = p" "x = point \<Longrightarrow> n \<noteq> 0 \<Longrightarrow> armed p' point (n - 1)"
    "x = point \<Longrightarrow> n = 0 \<Longrightarrow> triggered p' \<and> \<not> occurrence_overflow p'
       \<and> observed_occurrence p' = trigger_occurrence p"
    by (rule armed_fires [OF Cons.prems, of x]) blast
  consider "x \<noteq> point" | "x = point" "n \<noteq> 0" | "x = point" "n = 0" by blast
  then show ?case
  proof cases
    case 1
    with p' Cons.IH [OF Cons.prems] show ?thesis by (auto simp: nth_occurrence_Cons split: prod.splits)
  next
    case 2
    with p' Cons.IH [of p' "n - 1"] show ?thesis by (auto simp: nth_occurrence_Cons split: prod.splits)
  next
    case 3
    with p' answers_over [of p' xs] show ?thesis by (simp add: nth_occurrence_Cons)
  qed
qed (simp add: armed_def)

section \<open>Properties\<close>

text \<open>
  C23. A configured fault fires exactly once, at the occurrence asked for: after a successful
  configuration, whatever points the program then passes, the answer is positive for the
  occurrence of the configured point with the configured number and for no other, the plan
  says triggered from then on, and its counter never overflows.
\<close>

theorem fault_fires_once:
  assumes "scheduler_fault_plan_configure (Some p) point occurrence = (True, Some p')"
  shows "fst (answers p' xs) = nth_occurrence point (unat occurrence - 1) xs
    \<and> triggered (snd (answers p' xs)) = (unat occurrence \<le> count_list xs point)
    \<and> \<not> occurrence_overflow (snd (answers p' xs))"
proof -
  have pos: "occurrence \<noteq> 0" and "armed p' point (unat occurrence - 1)"
    using assms by (auto simp: scheduler_fault_plan_configure_def armed_def unat_pos_iff split: if_splits)
  from answers_armed [OF this(2), of xs] pos unat_pos_iff [of occurrence] show ?thesis by auto
qed

theorem fault_fires_once_witness:
  "\<exists>p'. scheduler_fault_plan_configure (Some idle_plan) SCHEDULER_FAULT_ALLOCATION 2 = (True, Some p')
     \<and> fst (answers p' [SCHEDULER_FAULT_ALLOCATION, SCHEDULER_FAULT_WORKER_JOIN,
          SCHEDULER_FAULT_ALLOCATION, SCHEDULER_FAULT_ALLOCATION]) = [False, False, True, False]"
proof -
  obtain p' where p': "scheduler_fault_plan_configure (Some idle_plan) SCHEDULER_FAULT_ALLOCATION 2 = (True, Some p')"
    by (simp add: scheduler_fault_plan_configure_def scheduler_fault_point_supported_def)
  from fault_fires_once [OF p', of "[SCHEDULER_FAULT_ALLOCATION, SCHEDULER_FAULT_WORKER_JOIN,
          SCHEDULER_FAULT_ALLOCATION, SCHEDULER_FAULT_ALLOCATION]"] p'
  show ?thesis by (simp add: nth_occurrence_Cons)
qed

text \<open>
  Without a configured fault nothing is injected: a plan as \<open>scheduler_fault_plan_init\<close> or
  \<open>scheduler_fault_plan_reset\<close> leaves it, or one whose configuration was refused before,
  answers no to every point and does not change; a refused configuration changes nothing.
\<close>

lemma fault_plan_inert:
  "answers (the (scheduler_fault_plan_init (Some p))) xs
     = (replicate (length xs) False, the (scheduler_fault_plan_init (Some p)))
   \<and> answers (the (scheduler_fault_plan_reset (Some p))) xs
     = (replicate (length xs) False, the (scheduler_fault_plan_reset (Some p)))
   \<and> (scheduler_fault_plan_configure (Some p) point occurrence = (False, Some p)
      \<or> (fst (scheduler_fault_plan_configure (Some p) point occurrence)
         \<and> scheduler_fault_point_supported point \<and> occurrence \<noteq> 0))
   \<and> scheduler_fault_plan_reset (Some p) = scheduler_fault_plan_init (Some p)"
  by (auto simp: scheduler_fault_plan_init_def scheduler_fault_plan_reset_def idle_plan_def
      scheduler_fault_plan_configure_def answers_disabled)

end
