(* ===== verification/Scheduler.thy ===== *)
theory Scheduler
  imports Concurrent_Task_Queue Snapshot_Validation Fault_Injection
begin

text \<open>
  The scheduler (\<open>src/scheduler.c\<close>, \<open>include/concurrent_scheduler/scheduler.h\<close>): its data and
  every operation as native computations that take the implementation and return it as they
  leave it. The build is the one with fault injection and without profiling; a plan that is not
  configured injects nothing, which is the build without injection. A function that other
  threads can interleave with is given in its parts: one definition per stretch between two
  points at which a mutex is free, and the blocking calls are cut at their condition waits.
\<close>

section \<open>Data\<close>

datatype SchedulerResult =
    SCHEDULER_OK
  | SCHEDULER_ERROR_INVALID_ARGUMENT
  | SCHEDULER_ERROR_INVALID_STATE
  | SCHEDULER_ERROR_ALLOCATION
  | SCHEDULER_ERROR_QUEUE_FULL
  | SCHEDULER_ERROR_SHUTDOWN
  | SCHEDULER_ERROR_SYSTEM
  | SCHEDULER_RESULT_OUTSIDE int

datatype SchedulerState =
    SCHEDULER_STATE_INITIALIZED
  | SCHEDULER_STATE_STARTING
  | SCHEDULER_STATE_RUNNING
  | SCHEDULER_STATE_SHUTTING_DOWN
  | SCHEDULER_STATE_STOPPED
  | SCHEDULER_STATE_FAILED

text \<open>A worker's context; the back pointer to the scheduler is the address of its block.\<close>

record WorkerContext =
  ctx_scheduler :: "addr option"
  worker_index :: size_t
  ctx_dequeued_count :: u64
  ctx_callback_started_count :: u64
  ctx_callback_succeeded_count :: u64
  ctx_callback_failed_count :: u64
  ctx_currently_running_count :: u64
  accounting_overflow :: bool

text \<open>
  The implementation, with the address of its own block. The two arrays carry the address of
  their block.
\<close>

record SchedulerImplementation =
  sched_block :: addr
  task_queue :: ConcurrentTaskQueue
  execute :: "fnptr option"
  execute_context :: "addr option"
  worker_count :: size_t
  sched_state :: SchedulerState
  lifecycle_mutex :: SchedMutex
  lifecycle_condition :: SchedCondition
  active_submitter_count :: size_t
  submitted_count :: u64
  accepted_count :: u64
  rejected_count :: u64
  lifecycle_accounting_overflow :: bool
  threads :: "(addr \<times> SchedThread list) option"
  worker_contexts :: "(addr \<times> WorkerContext list) option"
  started_worker_count :: size_t
  created_worker_count :: size_t
  worker_mutex :: SchedMutex
  worker_condition :: SchedCondition
  ready_worker_count :: size_t
  active_worker_count :: size_t
  joined_worker_count :: size_t
  dequeued_count :: u64
  callback_started_count :: u64
  successful_callback_count :: u64
  failed_callback_count :: u64
  worker_startup_failure_count :: u64
  worker_runtime_failure_count :: u64
  join_failure_count :: u64
  worker_accounting_overflow :: bool
  worker_infrastructure_failure :: bool
  worker_sync_initialized :: bool
  fault_plan :: SchedulerFaultPlan

record Scheduler =
  sched_impl :: "SchedulerImplementation option"

abbreviation WORKER_RESULT_OK :: int where
  "WORKER_RESULT_OK \<equiv> 0"

abbreviation WORKER_RESULT_INVALID_CONTEXT :: int where
  "WORKER_RESULT_INVALID_CONTEXT \<equiv> - 1"

abbreviation WORKER_RESULT_SYNCHRONIZATION :: int where
  "WORKER_RESULT_SYNCHRONIZATION \<equiv> - 2"

abbreviation WORKER_RESULT_QUEUE :: int where
  "WORKER_RESULT_QUEUE \<equiv> - 3"

text \<open>The sizes of the array elements on the target (the context is aligned to 64 bytes).\<close>

abbreviation SIZEOF_SCHED_THREAD :: size_t where
  "SIZEOF_SCHED_THREAD \<equiv> 8"

abbreviation SIZEOF_WORKER_CONTEXT :: size_t where
  "SIZEOF_WORKER_CONTEXT \<equiv> 128"

text \<open>What \<open>calloc\<close> leaves in a new thread object, context and implementation.\<close>

definition zero_thread :: SchedThread where
  "zero_thread = \<lparr>thread_impl = None\<rparr>"

definition zero_context :: WorkerContext where
  "zero_context = \<lparr>ctx_scheduler = None, worker_index = 0, ctx_dequeued_count = 0,
     ctx_callback_started_count = 0, ctx_callback_succeeded_count = 0, ctx_callback_failed_count = 0,
     ctx_currently_running_count = 0, accounting_overflow = False\<rparr>"

definition zero_scheduler :: "addr \<Rightarrow> SchedulerImplementation" where
  "zero_scheduler a = \<lparr>sched_block = a, task_queue = zero_concurrent_queue, execute = None,
     execute_context = None, worker_count = 0, sched_state = SCHEDULER_STATE_INITIALIZED,
     lifecycle_mutex = \<lparr>mutex_impl = None\<rparr>, lifecycle_condition = \<lparr>cond_impl = None\<rparr>,
     active_submitter_count = 0, submitted_count = 0, accepted_count = 0, rejected_count = 0,
     lifecycle_accounting_overflow = False, threads = None, worker_contexts = None,
     started_worker_count = 0, created_worker_count = 0, worker_mutex = \<lparr>mutex_impl = None\<rparr>,
     worker_condition = \<lparr>cond_impl = None\<rparr>, ready_worker_count = 0, active_worker_count = 0,
     joined_worker_count = 0, dequeued_count = 0, callback_started_count = 0,
     successful_callback_count = 0, failed_callback_count = 0, worker_startup_failure_count = 0,
     worker_runtime_failure_count = 0, join_failure_count = 0, worker_accounting_overflow = False,
     worker_infrastructure_failure = False, worker_sync_initialized = False,
     fault_plan = idle_plan\<rparr>"

section \<open>Result mapping and names\<close>

definition map_queue_init_result :: "ConcurrentTaskQueueResult \<Rightarrow> SchedulerResult" where
  "map_queue_init_result r = (case r of
      CONCURRENT_TASK_QUEUE_OK \<Rightarrow> SCHEDULER_OK
    | CONCURRENT_TASK_QUEUE_ERROR_ALLOCATION \<Rightarrow> SCHEDULER_ERROR_ALLOCATION
    | _ \<Rightarrow> SCHEDULER_ERROR_SYSTEM)"

definition map_try_enqueue_result :: "ConcurrentTaskQueueResult \<Rightarrow> SchedulerResult" where
  "map_try_enqueue_result r = (case r of
      CONCURRENT_TASK_QUEUE_OK \<Rightarrow> SCHEDULER_OK
    | CONCURRENT_TASK_QUEUE_ERROR_FULL \<Rightarrow> SCHEDULER_ERROR_QUEUE_FULL
    | CONCURRENT_TASK_QUEUE_ERROR_SHUTDOWN \<Rightarrow> SCHEDULER_ERROR_SHUTDOWN
    | _ \<Rightarrow> SCHEDULER_ERROR_SYSTEM)"

definition map_blocking_enqueue_result :: "ConcurrentTaskQueueResult \<Rightarrow> SchedulerResult" where
  "map_blocking_enqueue_result r = (case r of
      CONCURRENT_TASK_QUEUE_OK \<Rightarrow> SCHEDULER_OK
    | CONCURRENT_TASK_QUEUE_ERROR_SHUTDOWN \<Rightarrow> SCHEDULER_ERROR_SHUTDOWN
    | _ \<Rightarrow> SCHEDULER_ERROR_SYSTEM)"

definition map_queue_shutdown_result :: "ConcurrentTaskQueueResult \<Rightarrow> SchedulerResult" where
  "map_queue_shutdown_result r = (case r of
      CONCURRENT_TASK_QUEUE_OK \<Rightarrow> SCHEDULER_OK
    | _ \<Rightarrow> SCHEDULER_ERROR_SYSTEM)"

definition scheduler_result_name :: "SchedulerResult \<Rightarrow> string" where
  "scheduler_result_name result = (case result of
      SCHEDULER_OK \<Rightarrow> ''OK''
    | SCHEDULER_ERROR_INVALID_ARGUMENT \<Rightarrow> ''INVALID_ARGUMENT''
    | SCHEDULER_ERROR_INVALID_STATE \<Rightarrow> ''INVALID_STATE''
    | SCHEDULER_ERROR_ALLOCATION \<Rightarrow> ''ALLOCATION_ERROR''
    | SCHEDULER_ERROR_QUEUE_FULL \<Rightarrow> ''QUEUE_FULL''
    | SCHEDULER_ERROR_SHUTDOWN \<Rightarrow> ''SHUTDOWN''
    | SCHEDULER_ERROR_SYSTEM \<Rightarrow> ''SYSTEM_ERROR''
    | SCHEDULER_RESULT_OUTSIDE _ \<Rightarrow> ''UNKNOWN'')"

section \<open>Counting\<close>

text \<open>
  One event counted in the counter that the name says, with the overflow flag of its domain.
\<close>

definition count_submitted :: "SchedulerImplementation \<Rightarrow> SchedulerImplementation" where
  "count_submitted impl = (case bump (submitted_count impl) (lifecycle_accounting_overflow impl) of
     (c, v) \<Rightarrow> impl\<lparr>submitted_count := c, lifecycle_accounting_overflow := v\<rparr>)"

definition count_accepted :: "SchedulerImplementation \<Rightarrow> SchedulerImplementation" where
  "count_accepted impl = (case bump (accepted_count impl) (lifecycle_accounting_overflow impl) of
     (c, v) \<Rightarrow> impl\<lparr>accepted_count := c, lifecycle_accounting_overflow := v\<rparr>)"

definition count_rejected :: "SchedulerImplementation \<Rightarrow> SchedulerImplementation" where
  "count_rejected impl = (case bump (rejected_count impl) (lifecycle_accounting_overflow impl) of
     (c, v) \<Rightarrow> impl\<lparr>rejected_count := c, lifecycle_accounting_overflow := v\<rparr>)"

definition count_startup_failure :: "SchedulerImplementation \<Rightarrow> SchedulerImplementation" where
  "count_startup_failure impl =
     (case bump (worker_startup_failure_count impl) (worker_accounting_overflow impl) of
     (c, v) \<Rightarrow> impl\<lparr>worker_startup_failure_count := c, worker_accounting_overflow := v\<rparr>)"

definition count_runtime_failure :: "SchedulerImplementation \<Rightarrow> SchedulerImplementation" where
  "count_runtime_failure impl =
     (case bump (worker_runtime_failure_count impl) (worker_accounting_overflow impl) of
     (c, v) \<Rightarrow> impl\<lparr>worker_runtime_failure_count := c, worker_accounting_overflow := v\<rparr>)"

definition count_join_failure :: "SchedulerImplementation \<Rightarrow> SchedulerImplementation" where
  "count_join_failure impl =
     (case bump (join_failure_count impl) (worker_accounting_overflow impl) of
     (c, v) \<Rightarrow> impl\<lparr>join_failure_count := c, worker_accounting_overflow := v\<rparr>)"

text \<open>Whether the fault plan makes this point fail.\<close>

definition injected ::
  "SchedulerFaultPoint \<Rightarrow> SchedulerImplementation \<Rightarrow> bool \<times> SchedulerImplementation" where
  "injected point impl = (case fault_fires (fault_plan impl) point of
     (b, p) \<Rightarrow> (b, impl\<lparr>fault_plan := p\<rparr>))"

section \<open>The lifecycle state\<close>

definition set_scheduler_state ::
  "SchedulerImplementation \<Rightarrow> SchedulerState \<Rightarrow> (SchedulerResult \<times> SchedulerImplementation) native" where
  "set_scheduler_state impl state = do {
     locked \<leftarrow> sched_mutex_lock (Some (lifecycle_mutex impl));
     if locked \<noteq> SCHED_SYNC_OK then ret (SCHEDULER_ERROR_SYSTEM, impl)
     else do {
       let impl = impl\<lparr>sched_state := state\<rparr>;
       unlocked \<leftarrow> sched_mutex_unlock (Some (lifecycle_mutex impl));
       ret (if unlocked \<noteq> SCHED_SYNC_OK then SCHEDULER_ERROR_SYSTEM else SCHEDULER_OK, impl) } }"

section \<open>Workers\<close>

definition record_worker_exit ::
  "SchedulerImplementation \<Rightarrow> int \<Rightarrow> (int \<times> SchedulerImplementation) native" where
  "record_worker_exit impl worker_result = do {
     locked \<leftarrow> sched_mutex_lock (Some (worker_mutex impl));
     if locked \<noteq> SCHED_SYNC_OK then ret (WORKER_RESULT_SYNCHRONIZATION, impl)
     else do {
       let (worker_result, impl) =
         (if active_worker_count impl = 0
          then (WORKER_RESULT_SYNCHRONIZATION,
                count_runtime_failure (impl\<lparr>worker_infrastructure_failure := True\<rparr>))
          else (worker_result, impl\<lparr>active_worker_count := active_worker_count impl - 1\<rparr>));
       let impl =
         (if worker_result \<noteq> WORKER_RESULT_OK
          then count_runtime_failure (impl\<lparr>worker_infrastructure_failure := True\<rparr>) else impl);
       unlocked \<leftarrow> sched_mutex_unlock (Some (worker_mutex impl));
       ret (if unlocked \<noteq> SCHED_SYNC_OK then WORKER_RESULT_SYNCHRONIZATION else worker_result,
            impl) } }"

text \<open>Requesting shutdown of the scheduler's own queue.\<close>

definition shut_queue ::
  "SchedulerImplementation \<Rightarrow> (ConcurrentTaskQueueResult \<times> SchedulerImplementation) native" where
  "shut_queue impl = do {
     (r, wrapper) \<leftarrow> concurrent_task_queue_shutdown (Some (task_queue impl));
     ret (r, impl\<lparr>task_queue := the wrapper\<rparr>) }"

text \<open>
  A worker from its entry to its first removal: \<^term>\<open>None\<close> when it goes on to its loop, otherwise
  what it returned.
\<close>

definition scheduler_worker_ready ::
  "WorkerContext option \<Rightarrow> SchedulerImplementation \<Rightarrow> (int option \<times> SchedulerImplementation) native" where
  "scheduler_worker_ready context impl = (case context of
      None \<Rightarrow> ret (Some WORKER_RESULT_INVALID_CONTEXT, impl)
    | Some c \<Rightarrow>
      if ctx_scheduler c = None \<or> worker_index c \<ge> worker_count impl
      then ret (Some WORKER_RESULT_INVALID_CONTEXT, impl)
      else do {
        locked \<leftarrow> sched_mutex_lock (Some (worker_mutex impl));
        if locked \<noteq> SCHED_SYNC_OK then ret (Some WORKER_RESULT_SYNCHRONIZATION, impl)
        else do {
          let impl = impl\<lparr>active_worker_count := active_worker_count impl + 1,
            ready_worker_count := ready_worker_count impl + 1\<rparr>;
          told \<leftarrow> sched_condition_broadcast (Some (worker_condition impl));
          if told \<noteq> SCHED_SYNC_OK then do {
            sched_mutex_unlock (Some (worker_mutex impl));
            (r, impl) \<leftarrow> record_worker_exit impl WORKER_RESULT_SYNCHRONIZATION;
            ret (Some r, impl) }
          else do {
            unlocked \<leftarrow> sched_mutex_unlock (Some (worker_mutex impl));
            if unlocked \<noteq> SCHED_SYNC_OK then do {
              (_, impl) \<leftarrow> shut_queue impl;
              (r, impl) \<leftarrow> record_worker_exit impl WORKER_RESULT_SYNCHRONIZATION;
              ret (Some r, impl) }
            else ret (None, impl) } } })"

text \<open>
  What the loop does with the outcome of a removal: call back for a task, leave, or shut the
  queue and leave.
\<close>

datatype worker_next = Call addr | Leave int | Abandon int

definition worker_received :: "ConcurrentTaskQueueResult \<Rightarrow> task_ptr \<Rightarrow> worker_next" where
  "worker_received queue_result task =
     (if queue_result = CONCURRENT_TASK_QUEUE_ERROR_SHUTDOWN then Leave WORKER_RESULT_OK
      else if queue_result \<noteq> CONCURRENT_TASK_QUEUE_OK \<or> task = None then Abandon WORKER_RESULT_QUEUE
      else Call (the task))"

text \<open>The atomic updates of the worker's own counters, in the order of the code.\<close>

definition account_dequeued :: "WorkerContext \<Rightarrow> WorkerContext" where
  "account_dequeued c = (case bump_atomic (ctx_dequeued_count c) (accounting_overflow c) of
     (_, n, v) \<Rightarrow> c\<lparr>ctx_dequeued_count := n, accounting_overflow := v\<rparr>)"

definition account_started :: "WorkerContext \<Rightarrow> WorkerContext" where
  "account_started c = (case bump_atomic (ctx_callback_started_count c) (accounting_overflow c) of
     (_, n, v) \<Rightarrow> c\<lparr>ctx_callback_started_count := n, accounting_overflow := v\<rparr>)"

definition account_running :: "WorkerContext \<Rightarrow> bool \<times> WorkerContext" where
  "account_running c = (case bump_atomic (ctx_currently_running_count c) (accounting_overflow c) of
     (b, n, v) \<Rightarrow> (b, c\<lparr>ctx_currently_running_count := n, accounting_overflow := v\<rparr>))"

definition account_outcome :: "int \<Rightarrow> WorkerContext \<Rightarrow> WorkerContext" where
  "account_outcome callback_result c =
     (if callback_result = 0
      then (case bump_atomic (ctx_callback_succeeded_count c) (accounting_overflow c) of
        (_, n, v) \<Rightarrow> c\<lparr>ctx_callback_succeeded_count := n, accounting_overflow := v\<rparr>)
      else (case bump_atomic (ctx_callback_failed_count c) (accounting_overflow c) of
        (_, n, v) \<Rightarrow> c\<lparr>ctx_callback_failed_count := n, accounting_overflow := v\<rparr>))"

definition account_idle :: "bool \<Rightarrow> WorkerContext \<Rightarrow> WorkerContext" where
  "account_idle running_accounted c =
     (if running_accounted
      then c\<lparr>ctx_currently_running_count := ctx_currently_running_count c - 1\<rparr> else c)"

text \<open>One callback with its accounting, when nobody looks in between.\<close>

definition account_callback :: "int \<Rightarrow> WorkerContext \<Rightarrow> WorkerContext" where
  "account_callback callback_result c =
     (case account_running (account_started (account_dequeued c)) of
        (running_accounted, c) \<Rightarrow> account_idle running_accounted (account_outcome callback_result c))"

section \<open>Submission\<close>

text \<open>The submission gate, once the pointers are known to be there.\<close>

definition enter_gate ::
  "SchedulerImplementation \<Rightarrow> (SchedulerResult \<times> SchedulerImplementation) native" where
  "enter_gate impl = do {
     locked \<leftarrow> sched_mutex_lock (Some (lifecycle_mutex impl));
     if locked \<noteq> SCHED_SYNC_OK then ret (SCHEDULER_ERROR_SYSTEM, impl)
     else do {
       let impl = count_submitted impl;
       if sched_state impl \<noteq> SCHEDULER_STATE_RUNNING then do {
         let state_result =
           (if sched_state impl = SCHEDULER_STATE_SHUTTING_DOWN \<or> sched_state impl = SCHEDULER_STATE_STOPPED
            then SCHEDULER_ERROR_SHUTDOWN else SCHEDULER_ERROR_INVALID_STATE);
         let impl = count_rejected impl;
         sched_mutex_unlock (Some (lifecycle_mutex impl));
         ret (state_result, impl) }
       else do {
         let impl = impl\<lparr>active_submitter_count := active_submitter_count impl + 1\<rparr>;
         unlocked \<leftarrow> sched_mutex_unlock (Some (lifecycle_mutex impl));
         ret (if unlocked \<noteq> SCHED_SYNC_OK then SCHEDULER_ERROR_SYSTEM else SCHEDULER_OK, impl) } } }"

definition register_submitter ::
  "Scheduler option \<Rightarrow> task_ptr \<Rightarrow> (SchedulerResult \<times> Scheduler option) native" where
  "register_submitter scheduler task =
     (if scheduler = None \<or> task = None then ret (SCHEDULER_ERROR_INVALID_ARGUMENT, scheduler)
      else (case sched_impl (the scheduler) of
          None \<Rightarrow> ret (SCHEDULER_ERROR_INVALID_STATE, scheduler)
        | Some impl \<Rightarrow> do {
            (r, impl) \<leftarrow> enter_gate impl;
            ret (r, Some \<lparr>sched_impl = Some impl\<rparr>) }))"

definition deregister_submitter ::
  "SchedulerImplementation \<Rightarrow> SchedulerResult \<Rightarrow> (SchedulerResult \<times> SchedulerImplementation) native" where
  "deregister_submitter impl operation_result = do {
     locked \<leftarrow> sched_mutex_lock (Some (lifecycle_mutex impl));
     if locked \<noteq> SCHED_SYNC_OK then ret (SCHEDULER_ERROR_SYSTEM, impl)
     else do {
       let impl = (if operation_result = SCHEDULER_OK then count_accepted impl else count_rejected impl);
       let (result, impl) =
         (if active_submitter_count impl = 0 then (SCHEDULER_ERROR_SYSTEM, impl)
          else (operation_result, impl\<lparr>active_submitter_count := active_submitter_count impl - 1\<rparr>));
       result \<leftarrow>
         (if active_submitter_count impl = 0 then do {
            told \<leftarrow> sched_condition_broadcast (Some (lifecycle_condition impl));
            ret (if told \<noteq> SCHED_SYNC_OK then SCHEDULER_ERROR_SYSTEM else result) }
          else ret result);
       unlocked \<leftarrow> sched_mutex_unlock (Some (lifecycle_mutex impl));
       ret (if unlocked \<noteq> SCHED_SYNC_OK then SCHEDULER_ERROR_SYSTEM else result, impl) } }"

definition scheduler_try_submit ::
  "bool \<Rightarrow> Scheduler option \<Rightarrow> task_ptr \<Rightarrow> (SchedulerResult \<times> Scheduler option) native" where
  "scheduler_try_submit ts scheduler task = do {
     (result, scheduler) \<leftarrow> register_submitter scheduler task;
     if result \<noteq> SCHEDULER_OK then ret (result, scheduler)
     else do {
       let impl = the (sched_impl (the scheduler));
       (r, wrapper) \<leftarrow> concurrent_task_queue_try_enqueue ts (Some (task_queue impl)) task;
       (result, impl) \<leftarrow> deregister_submitter (impl\<lparr>task_queue := the wrapper\<rparr>) (map_try_enqueue_result r);
       ret (result, Some \<lparr>sched_impl = Some impl\<rparr>) } }"

text \<open>The blocking submission: up to the wait of its insertion, and from the wait's return on.\<close>

definition submit_settle ::
  "SchedulerImplementation \<Rightarrow> ConcurrentTaskQueueResult progress \<times> ConcurrentTaskQueue option
     \<Rightarrow> (SchedulerResult progress \<times> Scheduler option) native" where
  "submit_settle impl inserted = (case inserted of
      (Asleep, wrapper) \<Rightarrow> ret (Asleep, Some \<lparr>sched_impl = Some (impl\<lparr>task_queue := the wrapper\<rparr>)\<rparr>)
    | (Returned r, wrapper) \<Rightarrow> do {
        (result, impl) \<leftarrow> deregister_submitter (impl\<lparr>task_queue := the wrapper\<rparr>)
           (map_blocking_enqueue_result r);
        ret (Returned result, Some \<lparr>sched_impl = Some impl\<rparr>) })"

definition scheduler_submit_begin ::
  "bool \<Rightarrow> Scheduler option \<Rightarrow> task_ptr \<Rightarrow> (SchedulerResult progress \<times> Scheduler option) native" where
  "scheduler_submit_begin ts scheduler task = do {
     (result, scheduler) \<leftarrow> register_submitter scheduler task;
     if result \<noteq> SCHEDULER_OK then ret (Returned result, scheduler)
     else do {
       let impl = the (sched_impl (the scheduler));
       inserted \<leftarrow> concurrent_task_queue_enqueue_begin ts (Some (task_queue impl)) task;
       submit_settle impl inserted } }"

definition scheduler_submit_resume ::
  "bool \<Rightarrow> SchedulerImplementation \<Rightarrow> addr \<Rightarrow> (SchedulerResult progress \<times> Scheduler option) native" where
  "scheduler_submit_resume ts impl t = do {
     inserted \<leftarrow> concurrent_task_queue_enqueue_resume ts (task_queue impl)
        (the (implementation (task_queue impl))) t;
     submit_settle impl inserted }"

end
