(* ===== verification/Scheduler_Lifecycle.thy ===== *)
theory Scheduler_Lifecycle
  imports Scheduler
begin

text \<open>
  The lifecycle calls of the scheduler (\<open>src/scheduler.c\<close>): initialization, start with its
  clean-up after every failure, shutdown, join with the release of the workers, destruction,
  the configuration of faults and the capture of a snapshot. A call that waits on a condition
  is cut at the wait.
\<close>

section \<open>Initialization\<close>

definition scheduler_init ::
  "Scheduler option \<Rightarrow> size_t \<Rightarrow> size_t \<Rightarrow> fnptr option \<Rightarrow> addr option
     \<Rightarrow> (SchedulerResult \<times> Scheduler option) native" where
  "scheduler_init scheduler queue_capacity workers fn fn_context =
     (if scheduler = None \<or> queue_capacity = 0 \<or> workers = 0 \<or> fn = None
      then ret (SCHEDULER_ERROR_INVALID_ARGUMENT, scheduler)
      else if sched_impl (the scheduler) \<noteq> None then ret (SCHEDULER_ERROR_INVALID_STATE, scheduler)
      else do {
        block \<leftarrow> allocate;
        (case block of
           None \<Rightarrow> ret (SCHEDULER_ERROR_ALLOCATION, scheduler)
         | Some a \<Rightarrow> do {
             let impl = zero_scheduler a;
             (queue_result, wrapper) \<leftarrow> concurrent_task_queue_init (Some (task_queue impl)) queue_capacity;
             if queue_result \<noteq> CONCURRENT_TASK_QUEUE_OK then do {
               free (Some a);
               ret (map_queue_init_result queue_result, scheduler) }
             else do {
               (locked, m) \<leftarrow> sched_mutex_init (Some (lifecycle_mutex impl));
               if locked \<noteq> SCHED_SYNC_OK then do {
                 concurrent_task_queue_destroy wrapper;
                 free (Some a);
                 ret (SCHEDULER_ERROR_SYSTEM, scheduler) }
               else do {
                 (conditioned, c) \<leftarrow> sched_condition_init (Some (lifecycle_condition impl));
                 if conditioned \<noteq> SCHED_SYNC_OK then do {
                   sched_mutex_destroy m;
                   concurrent_task_queue_destroy wrapper;
                   free (Some a);
                   ret (SCHEDULER_ERROR_SYSTEM, scheduler) }
                 else ret (SCHEDULER_OK, Some \<lparr>sched_impl = Some (impl\<lparr>task_queue := the wrapper,
                   lifecycle_mutex := the m, lifecycle_condition := the c, execute := fn,
                   execute_context := fn_context, worker_count := workers,
                   sched_state := SCHEDULER_STATE_INITIALIZED,
                   fault_plan := the (scheduler_fault_plan_init (Some (fault_plan impl)))\<rparr>)\<rparr>) } } }) })"

section \<open>Releasing the workers\<close>

text \<open>The thread object of a worker, when the array is there.\<close>

definition thread_at :: "SchedulerImplementation \<Rightarrow> nat \<Rightarrow> SchedThread option" where
  "thread_at impl i = (case threads impl of
      None \<Rightarrow> None
    | Some (_, xs) \<Rightarrow> if i < length xs then Some (xs ! i) else None)"

definition put_thread :: "nat \<Rightarrow> SchedThread \<Rightarrow> SchedulerImplementation \<Rightarrow> SchedulerImplementation" where
  "put_thread i t impl = impl\<lparr>threads := map_option (\<lambda>(a, xs). (a, xs[i := t])) (threads impl)\<rparr>"

definition context_at :: "SchedulerImplementation \<Rightarrow> nat \<Rightarrow> WorkerContext option" where
  "context_at impl i = (case worker_contexts impl of
      None \<Rightarrow> None
    | Some (_, xs) \<Rightarrow> if i < length xs then Some (xs ! i) else None)"

definition put_context :: "nat \<Rightarrow> WorkerContext \<Rightarrow> SchedulerImplementation \<Rightarrow> SchedulerImplementation" where
  "put_context i c impl =
     impl\<lparr>worker_contexts := map_option (\<lambda>(a, xs). (a, xs[i := c])) (worker_contexts impl)\<rparr>"

text \<open>The contexts of the workers that were started.\<close>

definition started_contexts :: "SchedulerImplementation \<Rightarrow> WorkerContext list" where
  "started_contexts impl = (case worker_contexts impl of
      None \<Rightarrow> []
    | Some (_, xs) \<Rightarrow> take (unat (started_worker_count impl)) xs)"

definition note_join_failure :: "SchedulerImplementation \<Rightarrow> SchedulerImplementation native" where
  "note_join_failure impl = do {
     locked \<leftarrow> sched_mutex_lock (Some (worker_mutex impl));
     if locked = SCHED_SYNC_OK then do {
       let impl = count_join_failure impl;
       sched_mutex_unlock (Some (worker_mutex impl));
       ret impl }
     else ret impl }"

text \<open>
  One round of the joining loop, with the flag and the result so far. A skipped worker leaves
  them, a join that fails clears the flag and keeps the thread.
\<close>

definition release_worker ::
  "nat \<Rightarrow> bool \<times> SchedulerResult \<times> SchedulerImplementation
     \<Rightarrow> (bool \<times> SchedulerResult \<times> SchedulerImplementation) native" where
  "release_worker i acc = (case acc of (all_joined, result, impl) \<Rightarrow>
     (case thread_at impl i of
        None \<Rightarrow> ret (all_joined, result, impl)
      | Some t \<Rightarrow>
        if thread_impl t = None then ret (all_joined, result, impl)
        else do {
          (joined, out) \<leftarrow> sched_thread_join (Some t) True;
          if joined \<noteq> SCHED_SYNC_OK then do {
            impl \<leftarrow> note_join_failure impl;
            ret (False, SCHEDULER_ERROR_SYSTEM, impl) }
          else do {
            let worker_result = (case out of None \<Rightarrow> WORKER_RESULT_SYNCHRONIZATION | Some r \<Rightarrow> r);
            let (fault, impl) = injected SCHEDULER_FAULT_WORKER_JOIN impl;
            (result, worker_result, impl) \<leftarrow>
              (if fault then do {
                 impl \<leftarrow> note_join_failure impl;
                 ret (SCHEDULER_ERROR_SYSTEM, WORKER_RESULT_SYNCHRONIZATION, impl) }
               else ret (result, worker_result, impl));
            (result, impl) \<leftarrow>
              (if worker_result \<noteq> WORKER_RESULT_OK then ret (SCHEDULER_ERROR_SYSTEM, impl)
               else do {
                 locked \<leftarrow> sched_mutex_lock (Some (worker_mutex impl));
                 if locked \<noteq> SCHED_SYNC_OK then ret (SCHEDULER_ERROR_SYSTEM, impl)
                 else do {
                   let impl = impl\<lparr>joined_worker_count := joined_worker_count impl + 1\<rparr>;
                   unlocked \<leftarrow> sched_mutex_unlock (Some (worker_mutex impl));
                   ret (if unlocked \<noteq> SCHED_SYNC_OK then SCHEDULER_ERROR_SYSTEM else result, impl) } });
            t \<leftarrow> sched_thread_destroy (Some t);
            ret (all_joined, result, put_thread i (the t) impl) } }))"

primrec release_loop ::
  "nat list \<Rightarrow> bool \<times> SchedulerResult \<times> SchedulerImplementation
     \<Rightarrow> (bool \<times> SchedulerResult \<times> SchedulerImplementation) native" where
  "release_loop [] acc = ret acc"
| "release_loop (i # is) acc = do { acc \<leftarrow> release_worker i acc; release_loop is acc }"

text \<open>Adding a context's counters to the scheduler's, one after the other.\<close>

definition collect :: "WorkerContext \<Rightarrow> SchedulerImplementation \<Rightarrow> SchedulerImplementation" where
  "collect c impl = (
     case add_saturating (dequeued_count impl) (ctx_dequeued_count c) (worker_accounting_overflow impl) of
       (n1, v1) \<Rightarrow> (case add_saturating (callback_started_count impl) (ctx_callback_started_count c) v1 of
       (n2, v2) \<Rightarrow> (case add_saturating (successful_callback_count impl) (ctx_callback_succeeded_count c) v2 of
       (n3, v3) \<Rightarrow> (case add_saturating (failed_callback_count impl) (ctx_callback_failed_count c) v3 of
       (n4, v4) \<Rightarrow> impl\<lparr>dequeued_count := n1, callback_started_count := n2,
          successful_callback_count := n3, failed_callback_count := n4,
          worker_accounting_overflow := (if accounting_overflow c then True else v4)\<rparr>))))"

text \<open>What follows the loop.\<close>

definition release_finish ::
  "bool \<times> SchedulerResult \<times> SchedulerImplementation
     \<Rightarrow> (SchedulerResult \<times> SchedulerImplementation) native" where
  "release_finish acc = (case acc of (all_joined, result, impl) \<Rightarrow>
     if \<not> all_joined then ret (SCHEDULER_ERROR_SYSTEM, impl)
     else do {
       let result = (if worker_infrastructure_failure impl then SCHEDULER_ERROR_SYSTEM else result);
       locked \<leftarrow> sched_mutex_lock (Some (worker_mutex impl));
       if locked \<noteq> SCHED_SYNC_OK then ret (SCHEDULER_ERROR_SYSTEM, impl)
       else do {
         let impl = fold collect (started_contexts impl) impl;
         free (map_option fst (worker_contexts impl));
         free (map_option fst (threads impl));
         let impl = impl\<lparr>worker_contexts := None, threads := None, started_worker_count := 0,
           ready_worker_count := 0\<rparr>;
         unlocked \<leftarrow> sched_mutex_unlock (Some (worker_mutex impl));
         ret (if unlocked \<noteq> SCHED_SYNC_OK then SCHEDULER_ERROR_SYSTEM else result, impl) } })"

definition release_workers ::
  "SchedulerImplementation \<Rightarrow> (SchedulerResult \<times> SchedulerImplementation) native" where
  "release_workers impl = do {
     acc \<leftarrow> release_loop [0..<unat (started_worker_count impl)] (True, SCHEDULER_OK, impl);
     release_finish acc }"

section \<open>Start\<close>

text \<open>The gate of the call: only an initialized scheduler starts.\<close>

definition start_gate ::
  "SchedulerImplementation \<Rightarrow> (SchedulerResult \<times> SchedulerImplementation) native" where
  "start_gate impl = do {
     locked \<leftarrow> sched_mutex_lock (Some (lifecycle_mutex impl));
     if locked \<noteq> SCHED_SYNC_OK then ret (SCHEDULER_ERROR_SYSTEM, impl)
     else if sched_state impl \<noteq> SCHEDULER_STATE_INITIALIZED then do {
       sched_mutex_unlock (Some (lifecycle_mutex impl));
       ret (SCHEDULER_ERROR_INVALID_STATE, impl) }
     else do {
       let impl = impl\<lparr>sched_state := SCHEDULER_STATE_STARTING\<rparr>;
       unlocked \<leftarrow> sched_mutex_unlock (Some (lifecycle_mutex impl));
       ret (if unlocked \<noteq> SCHED_SYNC_OK then SCHEDULER_ERROR_SYSTEM else SCHEDULER_OK, impl) } }"

text \<open>Giving the arrays back and the lifecycle state a failed attempt ends with.\<close>

definition start_rollback ::
  "SchedulerImplementation \<Rightarrow> SchedulerState \<Rightarrow> SchedulerResult
     \<Rightarrow> (SchedulerResult \<times> SchedulerImplementation) native" where
  "start_rollback impl state result = do {
     free (map_option fst (worker_contexts impl));
     free (map_option fst (threads impl));
     (_, impl) \<leftarrow> set_scheduler_state (impl\<lparr>worker_contexts := None, threads := None\<rparr>) state;
     ret (result, impl) }"

text \<open>Giving up once workers may run: shut the queue, release them, and fail.\<close>

definition start_abort ::
  "SchedulerImplementation \<Rightarrow> (SchedulerResult \<times> SchedulerImplementation) native" where
  "start_abort impl = do {
     (_, impl) \<leftarrow> shut_queue impl;
     (_, impl) \<leftarrow> release_workers impl;
     (_, impl) \<leftarrow> set_scheduler_state impl SCHEDULER_STATE_FAILED;
     ret (SCHEDULER_ERROR_SYSTEM, impl) }"

text \<open>The arrays and the worker synchronization.\<close>

definition start_arrays :: "SchedulerImplementation \<Rightarrow> SchedulerImplementation native" where
  "start_arrays impl = do {
     let (fault, impl) = injected SCHEDULER_FAULT_ALLOCATION impl;
     a \<leftarrow> (if fault then ret None else allocate);
     let impl = impl\<lparr>threads := map_option (\<lambda>a. (a, replicate (unat (worker_count impl)) zero_thread)) a\<rparr>;
     let (fault, impl) = injected SCHEDULER_FAULT_ALLOCATION impl;
     b \<leftarrow> (if fault then ret None else allocate);
     ret (impl\<lparr>worker_contexts := map_option (\<lambda>b. (b, replicate (unat (worker_count impl)) zero_context)) b\<rparr>) }"

definition start_sync ::
  "SchedulerImplementation \<Rightarrow> (SchedulerResult \<times> SchedulerImplementation) native" where
  "start_sync impl = do {
     (made, m) \<leftarrow> sched_mutex_init (Some (worker_mutex impl));
     let impl = impl\<lparr>worker_mutex := the m\<rparr>;
     if made \<noteq> SCHED_SYNC_OK
     then start_rollback impl SCHEDULER_STATE_INITIALIZED SCHEDULER_ERROR_SYSTEM
     else do {
       (made, c) \<leftarrow> sched_condition_init (Some (worker_condition impl));
       let impl = impl\<lparr>worker_condition := the c\<rparr>;
       if made \<noteq> SCHED_SYNC_OK then do {
         m \<leftarrow> sched_mutex_destroy (Some (worker_mutex impl));
         start_rollback (impl\<lparr>worker_mutex := the m\<rparr>) SCHEDULER_STATE_INITIALIZED SCHEDULER_ERROR_SYSTEM }
       else do {
         locked \<leftarrow> sched_mutex_lock (Some (lifecycle_mutex impl));
         if locked \<noteq> SCHED_SYNC_OK then do {
           c \<leftarrow> sched_condition_destroy (Some (worker_condition impl));
           m \<leftarrow> sched_mutex_destroy (Some (worker_mutex impl));
           start_rollback (impl\<lparr>worker_condition := the c, worker_mutex := the m\<rparr>)
             SCHEDULER_STATE_FAILED SCHEDULER_ERROR_SYSTEM }
         else do {
           let impl = impl\<lparr>worker_sync_initialized := True\<rparr>;
           unlocked \<leftarrow> sched_mutex_unlock (Some (lifecycle_mutex impl));
           if unlocked \<noteq> SCHED_SYNC_OK then start_abort impl
           else ret (SCHEDULER_OK, impl) } } } }"

definition start_resources ::
  "SchedulerImplementation \<Rightarrow> (SchedulerResult \<times> SchedulerImplementation) native" where
  "start_resources impl =
     (if worker_count impl > SIZE_MAX div SIZEOF_SCHED_THREAD
        \<or> worker_count impl > SIZE_MAX div SIZEOF_WORKER_CONTEXT then do {
        (_, impl) \<leftarrow> set_scheduler_state impl SCHEDULER_STATE_INITIALIZED;
        ret (SCHEDULER_ERROR_ALLOCATION, impl) }
      else do {
        impl \<leftarrow> start_arrays impl;
        if threads impl = None \<or> worker_contexts impl = None
        then start_rollback impl SCHEDULER_STATE_INITIALIZED SCHEDULER_ERROR_ALLOCATION
        else start_sync impl })"

text \<open>The address of the function the threads are started with.\<close>

definition worker_entry_pointer :: fnptr where
  "worker_entry_pointer = 1"

text \<open>Creating one worker, up to the attempt to give up or the free mutex.\<close>

definition start_worker ::
  "nat \<Rightarrow> SchedulerImplementation \<Rightarrow> (SchedulerResult \<times> SchedulerImplementation) native" where
  "start_worker i impl = do {
     let impl = put_context i ((the (context_at impl i))\<lparr>ctx_scheduler := Some (sched_block impl),
       worker_index := of_nat i\<rparr>) impl;
     locked \<leftarrow> sched_mutex_lock (Some (worker_mutex impl));
     if locked \<noteq> SCHED_SYNC_OK then ret (SCHEDULER_ERROR_SYSTEM, impl)
     else do {
       let (fault, impl) = injected SCHEDULER_FAULT_WORKER_CREATION impl;
       (created, t) \<leftarrow> (if fault then ret (SCHED_SYNC_ERROR_SYSTEM, thread_at impl i)
          else sched_thread_create (thread_at impl i) (Some worker_entry_pointer)
            (Element (fst (the (worker_contexts impl))) i));
       let impl = put_thread i (the t) impl;
       if created \<noteq> SCHED_SYNC_OK then do {
         let impl = count_startup_failure impl;
         sched_mutex_unlock (Some (worker_mutex impl));
         ret (SCHEDULER_ERROR_SYSTEM, impl) }
       else do {
         let impl = impl\<lparr>started_worker_count := started_worker_count impl + 1,
           created_worker_count := created_worker_count impl + 1\<rparr>;
         unlocked \<leftarrow> sched_mutex_unlock (Some (worker_mutex impl));
         ret (if unlocked \<noteq> SCHED_SYNC_OK then SCHEDULER_ERROR_SYSTEM else SCHEDULER_OK, impl) } } }"

primrec start_loop ::
  "nat list \<Rightarrow> SchedulerImplementation \<Rightarrow> (SchedulerResult \<times> SchedulerImplementation) native" where
  "start_loop [] impl = ret (SCHEDULER_OK, impl)"
| "start_loop (i # is) impl = do {
     (r, impl) \<leftarrow> start_worker i impl;
     if r \<noteq> SCHEDULER_OK then start_abort impl else start_loop is impl }"

text \<open>
  Opening the scheduler after every worker reported, and the wait loop for the reports from its
  test on, with the worker mutex held. Both say with an error that the call has to give up.
\<close>

definition start_open ::
  "SchedulerImplementation \<Rightarrow> (SchedulerResult \<times> SchedulerImplementation) native" where
  "start_open impl = do {
     locked \<leftarrow> sched_mutex_lock (Some (lifecycle_mutex impl));
     if locked \<noteq> SCHED_SYNC_OK then ret (SCHEDULER_ERROR_SYSTEM, impl)
     else do {
       let impl = impl\<lparr>sched_state := SCHEDULER_STATE_RUNNING\<rparr>;
       unlocked \<leftarrow> sched_mutex_unlock (Some (lifecycle_mutex impl));
       ret (if unlocked \<noteq> SCHED_SYNC_OK then SCHEDULER_ERROR_SYSTEM else SCHEDULER_OK, impl) } }"

definition start_await :: "SchedulerImplementation \<Rightarrow> SchedulerResult progress native" where
  "start_await impl =
     (if ready_worker_count impl < worker_count impl then do {
        waited \<leftarrow> sched_condition_wait_begin (Some (worker_condition impl)) (Some (worker_mutex impl));
        (case waited of
           None \<Rightarrow> ret Asleep
         | Some failed \<Rightarrow> do {
             sched_mutex_unlock (Some (worker_mutex impl));
             ret (Returned SCHEDULER_ERROR_SYSTEM) }) }
      else do {
        unlocked \<leftarrow> sched_mutex_unlock (Some (worker_mutex impl));
        ret (Returned (if unlocked \<noteq> SCHED_SYNC_OK then SCHEDULER_ERROR_SYSTEM else SCHEDULER_OK)) })"

definition start_ready :: "SchedulerImplementation \<Rightarrow> SchedulerResult progress native" where
  "start_ready impl = do {
     locked \<leftarrow> sched_mutex_lock (Some (worker_mutex impl));
     if locked \<noteq> SCHED_SYNC_OK then ret (Returned SCHEDULER_ERROR_SYSTEM)
     else start_await impl }"

definition start_await_resume :: "SchedulerImplementation \<Rightarrow> SchedulerResult progress native" where
  "start_await_resume impl = do {
     waited \<leftarrow> sched_condition_wait_end (Some (worker_mutex impl));
     if waited \<noteq> SCHED_SYNC_OK then do {
       sched_mutex_unlock (Some (worker_mutex impl));
       ret (Returned SCHEDULER_ERROR_SYSTEM) }
     else start_await impl }"

text \<open>What follows the wait.\<close>

definition start_after ::
  "SchedulerImplementation \<Rightarrow> SchedulerResult progress
     \<Rightarrow> (SchedulerResult progress \<times> SchedulerImplementation) native" where
  "start_after impl waited = (case waited of
      Asleep \<Rightarrow> ret (Asleep, impl)
    | Returned r \<Rightarrow> do {
        (r, impl) \<leftarrow> (if r \<noteq> SCHEDULER_OK then ret (r, impl) else start_open impl);
        (r, impl) \<leftarrow> (if r \<noteq> SCHEDULER_OK then start_abort impl else ret (r, impl));
        ret (Returned r, impl) })"

definition scheduler_start_begin ::
  "Scheduler option \<Rightarrow> (SchedulerResult progress \<times> Scheduler option) native" where
  "scheduler_start_begin scheduler = (case scheduler of
      None \<Rightarrow> ret (Returned SCHEDULER_ERROR_INVALID_ARGUMENT, None)
    | Some s \<Rightarrow> (case sched_impl s of
        None \<Rightarrow> ret (Returned SCHEDULER_ERROR_INVALID_STATE, Some s)
      | Some impl \<Rightarrow> do {
          (p, impl) \<leftarrow> do {
            (r, impl) \<leftarrow> start_gate impl;
            if r \<noteq> SCHEDULER_OK then ret (Returned r, impl)
            else do {
              (r, impl) \<leftarrow> start_resources impl;
              if r \<noteq> SCHEDULER_OK then ret (Returned r, impl)
              else do {
                (r, impl) \<leftarrow> start_loop [0..<unat (worker_count impl)] impl;
                if r \<noteq> SCHEDULER_OK then ret (Returned r, impl)
                else do { waited \<leftarrow> start_ready impl; start_after impl waited } } } };
          ret (p, Some \<lparr>sched_impl = Some impl\<rparr>) }))"

definition scheduler_start_resume ::
  "SchedulerImplementation \<Rightarrow> (SchedulerResult progress \<times> SchedulerImplementation) native" where
  "scheduler_start_resume impl = do {
     waited \<leftarrow> start_await_resume impl;
     start_after impl waited }"

section \<open>Shutdown\<close>

text \<open>
  Closing the gate: the call goes on (\<^term>\<open>None\<close>) or returns. Then the queue is shut, and the
  call waits for the submitters that passed the gate.
\<close>

definition shutdown_gate ::
  "SchedulerImplementation \<Rightarrow> (SchedulerResult option \<times> SchedulerImplementation) native" where
  "shutdown_gate impl = do {
     locked \<leftarrow> sched_mutex_lock (Some (lifecycle_mutex impl));
     if locked \<noteq> SCHED_SYNC_OK then ret (Some SCHEDULER_ERROR_SYSTEM, impl)
     else if sched_state impl = SCHEDULER_STATE_STOPPED then do {
       unlocked \<leftarrow> sched_mutex_unlock (Some (lifecycle_mutex impl));
       ret (Some (if unlocked \<noteq> SCHED_SYNC_OK then SCHEDULER_ERROR_SYSTEM else SCHEDULER_OK), impl) }
     else if sched_state impl \<noteq> SCHEDULER_STATE_RUNNING
       \<and> sched_state impl \<noteq> SCHEDULER_STATE_SHUTTING_DOWN then do {
       sched_mutex_unlock (Some (lifecycle_mutex impl));
       ret (Some SCHEDULER_ERROR_INVALID_STATE, impl) }
     else do {
       let impl = (if sched_state impl = SCHEDULER_STATE_RUNNING
         then impl\<lparr>sched_state := SCHEDULER_STATE_SHUTTING_DOWN\<rparr> else impl);
       unlocked \<leftarrow> sched_mutex_unlock (Some (lifecycle_mutex impl));
       ret (if unlocked \<noteq> SCHED_SYNC_OK then Some SCHEDULER_ERROR_SYSTEM else None, impl) } }"

text \<open>
  The wait for the submitters from its test on, with the lifecycle mutex held: asleep, over with
  the mutex free (\<^term>\<open>SCHEDULER_OK\<close>), or failed.
\<close>

definition await_submitters ::
  "SchedulerImplementation \<Rightarrow> SchedulerResult progress native" where
  "await_submitters impl =
     (if active_submitter_count impl \<noteq> 0 then do {
        waited \<leftarrow> sched_condition_wait_begin (Some (lifecycle_condition impl))
          (Some (lifecycle_mutex impl));
        (case waited of
           None \<Rightarrow> ret Asleep
         | Some failed \<Rightarrow> do {
             sched_mutex_unlock (Some (lifecycle_mutex impl));
             ret (Returned SCHEDULER_ERROR_SYSTEM) }) }
      else do {
        unlocked \<leftarrow> sched_mutex_unlock (Some (lifecycle_mutex impl));
        ret (Returned (if unlocked \<noteq> SCHED_SYNC_OK then SCHEDULER_ERROR_SYSTEM else SCHEDULER_OK)) })"

definition await_submitters_resume ::
  "SchedulerImplementation \<Rightarrow> SchedulerResult progress native" where
  "await_submitters_resume impl = do {
     waited \<leftarrow> sched_condition_wait_end (Some (lifecycle_mutex impl));
     if waited \<noteq> SCHED_SYNC_OK then do {
       sched_mutex_unlock (Some (lifecycle_mutex impl));
       ret (Returned SCHEDULER_ERROR_SYSTEM) }
     else await_submitters impl }"

text \<open>The end of the call: what the wait found, and otherwise what shutting the queue returned.\<close>

definition shutdown_end :: "SchedulerResult \<Rightarrow> SchedulerResult progress \<Rightarrow> SchedulerResult progress" where
  "shutdown_end result waited = (case waited of
      Asleep \<Rightarrow> Asleep
    | Returned r \<Rightarrow> Returned (if r \<noteq> SCHEDULER_OK then r else result))"

definition shutdown_await ::
  "SchedulerImplementation \<Rightarrow> SchedulerResult \<Rightarrow> SchedulerResult progress native" where
  "shutdown_await impl result = do {
     locked \<leftarrow> sched_mutex_lock (Some (lifecycle_mutex impl));
     if locked \<noteq> SCHED_SYNC_OK then ret (Returned SCHEDULER_ERROR_SYSTEM)
     else do { waited \<leftarrow> await_submitters impl; ret (shutdown_end result waited) } }"

text \<open>A call that sleeps also keeps the result of shutting the queue.\<close>

definition scheduler_shutdown_begin ::
  "Scheduler option \<Rightarrow> (SchedulerResult progress \<times> SchedulerResult \<times> Scheduler option) native" where
  "scheduler_shutdown_begin scheduler = (case scheduler of
      None \<Rightarrow> ret (Returned SCHEDULER_ERROR_INVALID_ARGUMENT, SCHEDULER_OK, None)
    | Some s \<Rightarrow> (case sched_impl s of
        None \<Rightarrow> ret (Returned SCHEDULER_ERROR_INVALID_STATE, SCHEDULER_OK, Some s)
      | Some impl \<Rightarrow> do {
          (gate, impl) \<leftarrow> shutdown_gate impl;
          (case gate of
             Some r \<Rightarrow> ret (Returned r, SCHEDULER_OK, Some \<lparr>sched_impl = Some impl\<rparr>)
           | None \<Rightarrow> do {
               (q, impl) \<leftarrow> shut_queue impl;
               let result = map_queue_shutdown_result q;
               p \<leftarrow> shutdown_await impl result;
               ret (p, result, Some \<lparr>sched_impl = Some impl\<rparr>) }) }))"

definition scheduler_shutdown_resume ::
  "SchedulerImplementation \<Rightarrow> SchedulerResult \<Rightarrow> SchedulerResult progress native" where
  "scheduler_shutdown_resume impl result = do {
     waited \<leftarrow> await_submitters_resume impl;
     ret (shutdown_end result waited) }"

section \<open>Join\<close>

text \<open>
  The gate of the call: it returns, or goes on to the wait with the lifecycle mutex held
  (\<^term>\<open>None\<close>).
\<close>

definition join_gate :: "SchedulerImplementation \<Rightarrow> SchedulerResult option native" where
  "join_gate impl = do {
     locked \<leftarrow> sched_mutex_lock (Some (lifecycle_mutex impl));
     if locked \<noteq> SCHED_SYNC_OK then ret (Some SCHEDULER_ERROR_SYSTEM)
     else if sched_state impl = SCHEDULER_STATE_STOPPED then do {
       unlocked \<leftarrow> sched_mutex_unlock (Some (lifecycle_mutex impl));
       ret (Some (if unlocked \<noteq> SCHED_SYNC_OK then SCHEDULER_ERROR_SYSTEM else SCHEDULER_OK)) }
     else if sched_state impl \<noteq> SCHEDULER_STATE_SHUTTING_DOWN \<and> sched_state impl \<noteq> SCHEDULER_STATE_FAILED
     then do {
       sched_mutex_unlock (Some (lifecycle_mutex impl));
       ret (Some SCHEDULER_ERROR_INVALID_STATE) }
     else ret None }"

text \<open>After the release of the workers: the state that the scheduler ends in.\<close>

definition join_finish ::
  "SchedulerResult \<times> SchedulerImplementation \<Rightarrow> (SchedulerResult \<times> SchedulerImplementation) native" where
  "join_finish released = (case released of (result, impl) \<Rightarrow>
     if threads impl \<noteq> None then do {
       (_, impl) \<leftarrow> set_scheduler_state impl SCHEDULER_STATE_FAILED;
       ret (SCHEDULER_ERROR_SYSTEM, impl) }
     else do {
       (r, impl) \<leftarrow> set_scheduler_state impl SCHEDULER_STATE_STOPPED;
       ret (if r \<noteq> SCHEDULER_OK then SCHEDULER_ERROR_SYSTEM else result, impl) })"

definition join_workers ::
  "SchedulerImplementation \<Rightarrow> (SchedulerResult \<times> SchedulerImplementation) native" where
  "join_workers impl = do { released \<leftarrow> release_workers impl; join_finish released }"

text \<open>What follows the wait for the submitters.\<close>

definition join_after ::
  "SchedulerImplementation \<Rightarrow> SchedulerResult progress
     \<Rightarrow> (SchedulerResult progress \<times> SchedulerImplementation) native" where
  "join_after impl waited = (case waited of
      Asleep \<Rightarrow> ret (Asleep, impl)
    | Returned r \<Rightarrow>
        if r \<noteq> SCHEDULER_OK then ret (Returned r, impl)
        else do { (r, impl) \<leftarrow> join_workers impl; ret (Returned r, impl) })"

definition scheduler_join_begin ::
  "Scheduler option \<Rightarrow> (SchedulerResult progress \<times> Scheduler option) native" where
  "scheduler_join_begin scheduler = (case scheduler of
      None \<Rightarrow> ret (Returned SCHEDULER_ERROR_INVALID_ARGUMENT, None)
    | Some s \<Rightarrow> (case sched_impl s of
        None \<Rightarrow> ret (Returned SCHEDULER_ERROR_INVALID_STATE, Some s)
      | Some impl \<Rightarrow> do {
          gate \<leftarrow> join_gate impl;
          (case gate of
             Some r \<Rightarrow> ret (Returned r, Some s)
           | None \<Rightarrow> do {
               waited \<leftarrow> await_submitters impl;
               (p, impl) \<leftarrow> join_after impl waited;
               ret (p, Some \<lparr>sched_impl = Some impl\<rparr>) }) }))"

definition scheduler_join_resume ::
  "SchedulerImplementation \<Rightarrow> (SchedulerResult progress \<times> SchedulerImplementation) native" where
  "scheduler_join_resume impl = do {
     waited \<leftarrow> await_submitters_resume impl;
     join_after impl waited }"

section \<open>Destruction\<close>

definition destroy_parts :: "SchedulerImplementation \<Rightarrow> unit native" where
  "destroy_parts impl = do {
     (if worker_sync_initialized impl then do {
        sched_condition_destroy (Some (worker_condition impl));
        sched_mutex_destroy (Some (worker_mutex impl));
        ret () }
      else ret ());
     sched_condition_destroy (Some (lifecycle_condition impl));
     sched_mutex_destroy (Some (lifecycle_mutex impl));
     concurrent_task_queue_destroy (Some (task_queue impl));
     free (Some (sched_block impl)) }"

definition scheduler_destroy ::
  "Scheduler option \<Rightarrow> (SchedulerResult \<times> Scheduler option) native" where
  "scheduler_destroy scheduler = (case scheduler of
      None \<Rightarrow> ret (SCHEDULER_ERROR_INVALID_ARGUMENT, None)
    | Some s \<Rightarrow> (case sched_impl s of
        None \<Rightarrow> ret (SCHEDULER_OK, Some s)
      | Some impl \<Rightarrow> do {
          locked \<leftarrow> sched_mutex_lock (Some (lifecycle_mutex impl));
          if locked \<noteq> SCHED_SYNC_OK then ret (SCHEDULER_ERROR_SYSTEM, Some s)
          else if sched_state impl \<noteq> SCHEDULER_STATE_INITIALIZED
            \<and> sched_state impl \<noteq> SCHEDULER_STATE_STOPPED \<and> sched_state impl \<noteq> SCHEDULER_STATE_FAILED
          then do {
            sched_mutex_unlock (Some (lifecycle_mutex impl));
            ret (SCHEDULER_ERROR_INVALID_STATE, Some s) }
          else if active_submitter_count impl \<noteq> 0 \<or> threads impl \<noteq> None \<or> worker_contexts impl \<noteq> None
          then do {
            sched_mutex_unlock (Some (lifecycle_mutex impl));
            ret (SCHEDULER_ERROR_INVALID_STATE, Some s) }
          else do {
            unlocked \<leftarrow> sched_mutex_unlock (Some (lifecycle_mutex impl));
            if unlocked \<noteq> SCHED_SYNC_OK then ret (SCHEDULER_ERROR_SYSTEM, Some s)
            else do {
              destroy_parts impl;
              ret (SCHEDULER_OK, Some \<lparr>sched_impl = None\<rparr>) } } }))"

section \<open>Faults of a scheduler\<close>

definition scheduler_fault_configure ::
  "Scheduler option \<Rightarrow> SchedulerFaultPoint \<Rightarrow> u64 \<Rightarrow> (bool \<times> Scheduler option) native" where
  "scheduler_fault_configure scheduler point occurrence =
     (case Option.bind scheduler sched_impl of
        None \<Rightarrow> ret (False, scheduler)
      | Some impl \<Rightarrow> do {
          locked \<leftarrow> sched_mutex_lock (Some (lifecycle_mutex impl));
          if locked \<noteq> SCHED_SYNC_OK then ret (False, scheduler)
          else do {
            let (configured, impl) =
              (if sched_state impl = SCHEDULER_STATE_INITIALIZED
               then (case scheduler_fault_plan_configure (Some (fault_plan impl)) point occurrence of
                 (b, p) \<Rightarrow> (b, impl\<lparr>fault_plan := the p\<rparr>))
               else (False, impl));
            unlocked \<leftarrow> sched_mutex_unlock (Some (lifecycle_mutex impl));
            ret (if unlocked \<noteq> SCHED_SYNC_OK then False else configured,
                 Some \<lparr>sched_impl = Some impl\<rparr>) } })"

definition scheduler_fault_reset :: "Scheduler option \<Rightarrow> (bool \<times> Scheduler option) native" where
  "scheduler_fault_reset scheduler =
     (case Option.bind scheduler sched_impl of
        None \<Rightarrow> ret (False, scheduler)
      | Some impl \<Rightarrow> do {
          locked \<leftarrow> sched_mutex_lock (Some (lifecycle_mutex impl));
          if locked \<noteq> SCHED_SYNC_OK then ret (False, scheduler)
          else do {
            let impl = impl\<lparr>fault_plan := the (scheduler_fault_plan_reset (Some (fault_plan impl)))\<rparr>;
            unlocked \<leftarrow> sched_mutex_unlock (Some (lifecycle_mutex impl));
            ret (unlocked = SCHED_SYNC_OK, Some \<lparr>sched_impl = Some impl\<rparr>) } })"

definition scheduler_fault_capture_plan ::
  "Scheduler option \<Rightarrow> bool \<Rightarrow> SchedulerFaultPlanSnapshot option" where
  "scheduler_fault_capture_plan scheduler out = (case Option.bind scheduler sched_impl of
      None \<Rightarrow> None
    | Some impl \<Rightarrow> scheduler_fault_plan_capture (Some (fault_plan impl)) out)"

section \<open>Snapshots\<close>

definition snapshot_state_from_internal :: "SchedulerState \<Rightarrow> SchedulerSnapshotState" where
  "snapshot_state_from_internal state = (case state of
      SCHEDULER_STATE_INITIALIZED \<Rightarrow> SCHEDULER_SNAPSHOT_STATE_INITIALIZED
    | SCHEDULER_STATE_STARTING \<Rightarrow> SCHEDULER_SNAPSHOT_STATE_STARTING
    | SCHEDULER_STATE_RUNNING \<Rightarrow> SCHEDULER_SNAPSHOT_STATE_RUNNING
    | SCHEDULER_STATE_SHUTTING_DOWN \<Rightarrow> SCHEDULER_SNAPSHOT_STATE_SHUTTING_DOWN
    | SCHEDULER_STATE_STOPPED \<Rightarrow> SCHEDULER_SNAPSHOT_STATE_STOPPED
    | SCHEDULER_STATE_FAILED \<Rightarrow> SCHEDULER_SNAPSHOT_STATE_FAILED)"

definition zero_snapshot :: SchedulerSnapshot where
  "zero_snapshot = \<lparr>ss_version = 0, ss_consistency = 0, ss_overflow_detected = False,
     ss_state = SCHEDULER_SNAPSHOT_STATE_INITIALIZED, ss_submissions_open = False,
     ss_shutdown_started = False, ss_configured_worker_count = 0, ss_submitted_count = 0,
     ss_accepted_count = 0, ss_rejected_count = 0, ss_created_worker_count = 0,
     ss_ready_worker_count = 0, ss_active_worker_count = 0, ss_joined_worker_count = 0,
     ss_dequeued_count = 0, ss_callback_started_count = 0, ss_callback_succeeded_count = 0,
     ss_callback_failed_count = 0, ss_currently_running_count = 0, ss_queue_capacity = 0,
     ss_queue_current_size = 0, ss_queue_high_water_mark = 0, ss_worker_startup_failure_count = 0,
     ss_worker_runtime_failure_count = 0, ss_join_failure_count = 0\<rparr>"

text \<open>
  The three domains of a capture, each under its own mutex: what the scheduler shows in the
  first, and whether the worker domain exists; the worker domain; and the queue.
\<close>

definition snapshot_lifecycle :: "SchedulerImplementation \<Rightarrow> SchedulerSnapshot" where
  "snapshot_lifecycle impl = zero_snapshot\<lparr>
     ss_version := CONCURRENT_SCHEDULER_SNAPSHOT_VERSION,
     ss_consistency := SCHEDULER_SNAPSHOT_CONSISTENCY_DOMAIN_EXACT,
     ss_state := snapshot_state_from_internal (sched_state impl),
     ss_submissions_open := (sched_state impl = SCHEDULER_STATE_RUNNING),
     ss_shutdown_started := (sched_state impl = SCHEDULER_STATE_SHUTTING_DOWN
       \<or> sched_state impl = SCHEDULER_STATE_STOPPED),
     ss_configured_worker_count := worker_count impl,
     ss_submitted_count := submitted_count impl,
     ss_accepted_count := accepted_count impl,
     ss_rejected_count := rejected_count impl,
     ss_overflow_detected := lifecycle_accounting_overflow impl\<rparr>"

definition snapshot_context :: "WorkerContext \<Rightarrow> SchedulerSnapshot \<Rightarrow> SchedulerSnapshot" where
  "snapshot_context c s = (
     case add_saturating (ss_dequeued_count s) (ctx_dequeued_count c) (ss_overflow_detected s) of
       (n1, v1) \<Rightarrow> (case add_saturating (ss_callback_started_count s) (ctx_callback_started_count c) v1 of
       (n2, v2) \<Rightarrow> (case add_saturating (ss_callback_succeeded_count s) (ctx_callback_succeeded_count c) v2 of
       (n3, v3) \<Rightarrow> (case add_saturating (ss_callback_failed_count s) (ctx_callback_failed_count c) v3 of
       (n4, v4) \<Rightarrow> (case add_saturating (ss_currently_running_count s) (ctx_currently_running_count c) v4 of
       (n5, v5) \<Rightarrow> s\<lparr>ss_dequeued_count := n1, ss_callback_started_count := n2,
          ss_callback_succeeded_count := n3, ss_callback_failed_count := n4,
          ss_currently_running_count := n5,
          ss_overflow_detected := (if accounting_overflow c then True else v5)\<rparr>)))))"

definition snapshot_workers ::
  "SchedulerImplementation \<Rightarrow> SchedulerSnapshot \<Rightarrow> SchedulerSnapshot" where
  "snapshot_workers impl s = fold snapshot_context (started_contexts impl) (s\<lparr>
     ss_created_worker_count := created_worker_count impl,
     ss_ready_worker_count := ready_worker_count impl,
     ss_active_worker_count := active_worker_count impl,
     ss_joined_worker_count := joined_worker_count impl,
     ss_worker_startup_failure_count := worker_startup_failure_count impl,
     ss_worker_runtime_failure_count := worker_runtime_failure_count impl,
     ss_join_failure_count := join_failure_count impl,
     ss_dequeued_count := dequeued_count impl,
     ss_callback_started_count := callback_started_count impl,
     ss_callback_succeeded_count := successful_callback_count impl,
     ss_callback_failed_count := failed_callback_count impl,
     ss_overflow_detected := (ss_overflow_detected s \<or> worker_accounting_overflow impl)\<rparr>)"

definition snapshot_queue ::
  "ConcurrentTaskQueueRuntimeSnapshot \<Rightarrow> SchedulerSnapshot \<Rightarrow> SchedulerSnapshot" where
  "snapshot_queue q s = s\<lparr>ss_queue_capacity := snap_capacity q,
     ss_queue_current_size := snap_current_size q, ss_queue_high_water_mark := snap_high_water_mark q\<rparr>"

text \<open>The three stretches of a capture under their mutexes; \<^term>\<open>None\<close> is a failed capture.\<close>

definition capture_lifecycle :: "SchedulerImplementation \<Rightarrow> (SchedulerSnapshot \<times> bool) option native" where
  "capture_lifecycle impl = do {
     locked \<leftarrow> sched_mutex_lock (Some (lifecycle_mutex impl));
     if locked \<noteq> SCHED_SYNC_OK then ret None
     else do {
       unlocked \<leftarrow> sched_mutex_unlock (Some (lifecycle_mutex impl));
       ret (if unlocked \<noteq> SCHED_SYNC_OK then None
            else Some (snapshot_lifecycle impl, worker_sync_initialized impl)) } }"

definition capture_workers ::
  "SchedulerImplementation \<Rightarrow> SchedulerSnapshot \<times> bool \<Rightarrow> SchedulerSnapshot option native" where
  "capture_workers impl taken = (case taken of (s, worker_sync_available) \<Rightarrow>
     if \<not> worker_sync_available then ret (Some s)
     else do {
       locked \<leftarrow> sched_mutex_lock (Some (worker_mutex impl));
       if locked \<noteq> SCHED_SYNC_OK then ret None
       else do {
         unlocked \<leftarrow> sched_mutex_unlock (Some (worker_mutex impl));
         ret (if unlocked \<noteq> SCHED_SYNC_OK then None else Some (snapshot_workers impl s)) } })"

definition capture_queue ::
  "SchedulerImplementation \<Rightarrow> SchedulerSnapshot \<Rightarrow> SchedulerSnapshot option native" where
  "capture_queue impl s = do {
     q \<leftarrow> concurrent_task_queue_capture_runtime_snapshot (Some (task_queue impl)) True;
     ret (map_option (\<lambda>q. snapshot_queue q s) q) }"

definition scheduler_capture_snapshot :: "Scheduler option \<Rightarrow> bool \<Rightarrow> SchedulerSnapshot option native" where
  "scheduler_capture_snapshot scheduler out = (case Option.bind scheduler sched_impl of
      None \<Rightarrow> ret None
    | Some impl \<Rightarrow>
      if \<not> out then ret None
      else do {
        first \<leftarrow> capture_lifecycle impl;
        (case first of
           None \<Rightarrow> ret None
         | Some taken \<Rightarrow> do {
             second \<leftarrow> capture_workers impl taken;
             (case second of
                None \<Rightarrow> ret None
              | Some s \<Rightarrow> capture_queue impl s) }) })"

end
