(* ===== verification/Scheduler_Effects.thy ===== *)
theory Scheduler_Effects
  imports Scheduler_Lifecycle Concurrent_Queue_Contract
begin

text \<open>
  What the parts of the scheduler's operations do when the synchronization objects they use are
  live: the native calls on mutexes cannot fail then, so each part is a plain function on the
  implementation, a result and the wake-ups it issues. The theories on the whole scheduler
  compose these facts.
\<close>

section \<open>Live synchronization\<close>

definition gate_ok :: "SchedulerImplementation \<Rightarrow> world \<Rightarrow> bool" where
  "gate_ok impl w \<longleftrightarrow> (case (mutex_impl (lifecycle_mutex impl), cond_impl (lifecycle_condition impl)) of
     (Some a, Some c) \<Rightarrow> a \<in> sections w \<and> a \<notin> set (held w)
   | _ \<Rightarrow> False)"

definition crew_ok :: "SchedulerImplementation \<Rightarrow> world \<Rightarrow> bool" where
  "crew_ok impl w \<longleftrightarrow> (case (mutex_impl (worker_mutex impl), cond_impl (worker_condition impl)) of
     (Some a, Some c) \<Rightarrow> a \<in> sections w \<and> a \<notin> set (held w)
   | _ \<Rightarrow> False)"

lemma gate_okE:
  assumes "gate_ok impl w"
  obtains a c where "mutex_impl (lifecycle_mutex impl) = Some a"
    "cond_impl (lifecycle_condition impl) = Some c" "a \<in> sections w" "a \<notin> set (held w)"
  using assms by (auto simp: gate_ok_def split: option.splits)

lemma crew_okE:
  assumes "crew_ok impl w"
  obtains a c where "mutex_impl (worker_mutex impl) = Some a"
    "cond_impl (worker_condition impl) = Some c" "a \<in> sections w" "a \<notin> set (held w)"
  using assms by (auto simp: crew_ok_def split: option.splits)

lemma ok_world [simp]:
  "gate_ok impl (w\<lparr>wakes := k\<rparr>) = gate_ok impl w" "gate_ok impl (w\<lparr>fate := fs\<rparr>) = gate_ok impl w"
  "crew_ok impl (w\<lparr>wakes := k\<rparr>) = crew_ok impl w" "crew_ok impl (w\<lparr>fate := fs\<rparr>) = crew_ok impl w"
  by (simp_all add: gate_ok_def crew_ok_def split: option.splits)

lemma wakes_same [simp]: "w\<lparr>wakes := wakes w\<rparr> = w" "w\<lparr>held := held w\<rparr> = w" for w :: world
  by simp_all

text \<open>The wake-ups of the two broadcasts.\<close>

definition gate_wake :: "SchedulerImplementation \<Rightarrow> wake" where
  "gate_wake impl = WakeAll (the (cond_impl (lifecycle_condition impl)))"

definition crew_wake :: "SchedulerImplementation \<Rightarrow> wake" where
  "crew_wake impl = WakeAll (the (cond_impl (worker_condition impl)))"

section \<open>Counting keeps the rest\<close>

definition sync_parts :: "SchedulerImplementation \<Rightarrow> SchedMutex \<times> SchedCondition \<times> SchedMutex \<times> SchedCondition" where
  "sync_parts impl = (lifecycle_mutex impl, lifecycle_condition impl, worker_mutex impl, worker_condition impl)"

lemma sync_parts_ok:
  assumes "sync_parts impl' = sync_parts impl"
  shows "gate_ok impl' w = gate_ok impl w" "crew_ok impl' w = crew_ok impl w"
    "gate_wake impl' = gate_wake impl" "crew_wake impl' = crew_wake impl"
  using assms by (simp_all add: sync_parts_def gate_ok_def crew_ok_def gate_wake_def crew_wake_def)

lemma count_sync [simp]:
  "sync_parts (count_submitted impl) = sync_parts impl" "sync_parts (count_accepted impl) = sync_parts impl"
  "sync_parts (count_rejected impl) = sync_parts impl" "sync_parts (count_startup_failure impl) = sync_parts impl"
  "sync_parts (count_runtime_failure impl) = sync_parts impl" "sync_parts (count_join_failure impl) = sync_parts impl"
  by (simp_all add: sync_parts_def count_submitted_def count_accepted_def count_rejected_def
      count_startup_failure_def count_runtime_failure_def count_join_failure_def split: prod.splits)

lemmas count_defs = count_submitted_def count_accepted_def count_rejected_def
  count_startup_failure_def count_runtime_failure_def count_join_failure_def

lemma count_mutexes [simp]:
  "lifecycle_mutex (count_submitted impl) = lifecycle_mutex impl"
  "lifecycle_mutex (count_accepted impl) = lifecycle_mutex impl"
  "lifecycle_mutex (count_rejected impl) = lifecycle_mutex impl"
  "lifecycle_condition (count_accepted impl) = lifecycle_condition impl"
  "lifecycle_condition (count_rejected impl) = lifecycle_condition impl"
  "worker_mutex (count_startup_failure impl) = worker_mutex impl"
  "worker_mutex (count_runtime_failure impl) = worker_mutex impl"
  "worker_mutex (count_join_failure impl) = worker_mutex impl"
  "sched_state (count_submitted impl) = sched_state impl"
  "active_submitter_count (count_submitted impl) = active_submitter_count impl"
  "active_submitter_count (count_accepted impl) = active_submitter_count impl"
  "active_submitter_count (count_rejected impl) = active_submitter_count impl"
  by (simp_all add: count_defs split: prod.splits)

section \<open>The effect of each part\<close>

lemma run_set_state:
  "gate_ok impl w \<Longrightarrow>
     run_state (set_scheduler_state impl st) w = ((SCHEDULER_OK, impl\<lparr>sched_state := st\<rparr>), w)"
  by (erule gate_okE) (simp add: set_scheduler_state_def sync_simps Let_def)

text \<open>Passing, or not passing, the submission gate.\<close>

definition gate_result :: "SchedulerState \<Rightarrow> SchedulerResult" where
  "gate_result st = (if st = SCHEDULER_STATE_RUNNING then SCHEDULER_OK
     else if st = SCHEDULER_STATE_SHUTTING_DOWN \<or> st = SCHEDULER_STATE_STOPPED
     then SCHEDULER_ERROR_SHUTDOWN else SCHEDULER_ERROR_INVALID_STATE)"

definition admitted :: "SchedulerImplementation \<Rightarrow> SchedulerImplementation" where
  "admitted impl = (if sched_state impl = SCHEDULER_STATE_RUNNING
     then (count_submitted impl)\<lparr>active_submitter_count := active_submitter_count impl + 1\<rparr>
     else count_rejected (count_submitted impl))"

lemma run_register:
  assumes "gate_ok impl w"
  shows "run_state (register_submitter (Some \<lparr>sched_impl = Some impl\<rparr>) (Some t)) w
    = ((gate_result (sched_state impl), Some \<lparr>sched_impl = Some (admitted impl)\<rparr>), w)"
  using assms by (auto elim!: gate_okE simp: register_submitter_def enter_gate_def sync_simps Let_def
      gate_result_def admitted_def)

text \<open>Leaving the gate with the result of the operation.\<close>

definition discharged :: "SchedulerResult \<Rightarrow> SchedulerImplementation \<Rightarrow> SchedulerImplementation" where
  "discharged r impl =
     (let impl = (if r = SCHEDULER_OK then count_accepted impl else count_rejected impl)
      in impl\<lparr>active_submitter_count := active_submitter_count impl - 1\<rparr>)"

lemma run_deregister:
  assumes "gate_ok impl w" "active_submitter_count impl \<noteq> 0"
  shows "run_state (deregister_submitter impl r) w = ((r, discharged r impl),
    if active_submitter_count impl = 1 then w\<lparr>wakes := wakes w @ [gate_wake impl]\<rparr> else w)"
  using assms by (auto elim!: gate_okE simp: deregister_submitter_def sync_simps Let_def
      discharged_def gate_wake_def)

text \<open>A worker reports, and leaves.\<close>

definition reported :: "SchedulerImplementation \<Rightarrow> SchedulerImplementation" where
  "reported impl = impl\<lparr>active_worker_count := active_worker_count impl + 1,
     ready_worker_count := ready_worker_count impl + 1\<rparr>"

lemma run_worker_ready:
  assumes "crew_ok impl w" "ctx_scheduler c \<noteq> None" "worker_index c < worker_count impl"
  shows "run_state (scheduler_worker_ready (Some c) impl) w
    = ((None, reported impl), w\<lparr>wakes := wakes w @ [crew_wake impl]\<rparr>)"
  using assms by (auto elim!: crew_okE simp: scheduler_worker_ready_def sync_simps Let_def
      reported_def crew_wake_def not_le)

definition departed :: "int \<Rightarrow> SchedulerImplementation \<Rightarrow> SchedulerImplementation" where
  "departed r impl =
     (let impl = impl\<lparr>active_worker_count := active_worker_count impl - 1\<rparr>
      in if r \<noteq> WORKER_RESULT_OK
         then count_runtime_failure (impl\<lparr>worker_infrastructure_failure := True\<rparr>) else impl)"

lemma run_worker_exit:
  assumes "crew_ok impl w" "active_worker_count impl \<noteq> 0"
  shows "run_state (record_worker_exit impl r) w = ((r, departed r impl), w)"
  using assms by (auto elim!: crew_okE simp: record_worker_exit_def sync_simps Let_def departed_def)

text \<open>The gates of the lifecycle calls.\<close>

lemma run_start_gate:
  assumes "gate_ok impl w"
  shows "run_state (start_gate impl) w = (if sched_state impl = SCHEDULER_STATE_INITIALIZED
     then ((SCHEDULER_OK, impl\<lparr>sched_state := SCHEDULER_STATE_STARTING\<rparr>), w)
     else ((SCHEDULER_ERROR_INVALID_STATE, impl), w))"
  using assms by (auto elim!: gate_okE simp: start_gate_def sync_simps Let_def)

lemma run_start_open:
  "gate_ok impl w \<Longrightarrow> run_state (start_open impl) w
     = ((SCHEDULER_OK, impl\<lparr>sched_state := SCHEDULER_STATE_RUNNING\<rparr>), w)"
  by (erule gate_okE) (simp add: start_open_def sync_simps Let_def)

lemma run_start_ready:
  assumes "crew_ok impl w"
  shows "run_state (start_ready impl) w
    = (if ready_worker_count impl < worker_count impl then Asleep else Returned SCHEDULER_OK, w)"
  using assms by (auto elim!: crew_okE simp: start_ready_def start_await_def sync_simps)

lemma run_start_await_resume:
  assumes "crew_ok impl w"
  shows "run_state (start_await_resume impl) w
    = (if \<not> next_answer w then Returned SCHEDULER_ERROR_SYSTEM
       else if ready_worker_count impl < worker_count impl then Asleep else Returned SCHEDULER_OK,
       w\<lparr>fate := tl (fate w)\<rparr>)"
  using assms by (auto elim!: crew_okE simp: start_await_resume_def start_await_def sync_simps fate_held)

definition closing :: "SchedulerImplementation \<Rightarrow> SchedulerImplementation" where
  "closing impl = (if sched_state impl = SCHEDULER_STATE_RUNNING
     then impl\<lparr>sched_state := SCHEDULER_STATE_SHUTTING_DOWN\<rparr> else impl)"

lemma run_shutdown_gate:
  assumes "gate_ok impl w"
  shows "run_state (shutdown_gate impl) w = ((
     if sched_state impl = SCHEDULER_STATE_STOPPED then Some SCHEDULER_OK
     else if sched_state impl \<noteq> SCHEDULER_STATE_RUNNING \<and> sched_state impl \<noteq> SCHEDULER_STATE_SHUTTING_DOWN
     then Some SCHEDULER_ERROR_INVALID_STATE else None, closing impl), w)"
  using assms by (auto elim!: gate_okE simp: shutdown_gate_def sync_simps Let_def closing_def)

definition awaited :: "SchedulerImplementation \<Rightarrow> SchedulerResult progress" where
  "awaited impl = (if active_submitter_count impl \<noteq> 0 then Asleep else Returned SCHEDULER_OK)"

lemma run_await_locked:
  assumes "gate_ok impl w" "mutex_impl (lifecycle_mutex impl) = Some a"
  shows "run_state (await_submitters impl) (w\<lparr>held := a # held w\<rparr>) = (awaited impl, w)"
  using assms by (auto elim!: gate_okE simp: await_submitters_def sync_simps awaited_def)

lemma run_shutdown_await:
  assumes "gate_ok impl w"
  shows "run_state (shutdown_await impl r) w = (shutdown_end r (awaited impl), w)"
proof -
  from assms obtain a where a: "mutex_impl (lifecycle_mutex impl) = Some a" "a \<in> sections w"
    by (auto elim: gate_okE)
  with run_await_locked [OF assms a(1)] show ?thesis by (simp add: shutdown_await_def sync_simps)
qed

lemma run_await_resume:
  assumes "gate_ok impl w"
  shows "run_state (await_submitters_resume impl) w
    = (if \<not> next_answer w then Returned SCHEDULER_ERROR_SYSTEM else awaited impl, w\<lparr>fate := tl (fate w)\<rparr>)"
proof -
  from assms obtain a where a: "mutex_impl (lifecycle_mutex impl) = Some a" "a \<in> sections w" "a \<notin> set (held w)"
    by (auto elim: gate_okE)
  have ok: "gate_ok impl (w\<lparr>fate := tl (fate w)\<rparr>)" using assms by simp
  from run_await_locked [OF ok a(1)] a show ?thesis
    by (simp add: await_submitters_resume_def sync_simps fate_held)
qed

lemma run_shutdown_resume:
  assumes "gate_ok impl w"
  shows "run_state (scheduler_shutdown_resume impl r) w
    = (shutdown_end r (if \<not> next_answer w then Returned SCHEDULER_ERROR_SYSTEM else awaited impl),
       w\<lparr>fate := tl (fate w)\<rparr>)"
  using run_await_resume [OF assms] by (simp add: scheduler_shutdown_resume_def)

text \<open>The gate of join, and the wait that follows it under the same lock.\<close>

definition join_open :: "SchedulerImplementation \<Rightarrow> bool" where
  "join_open impl \<longleftrightarrow> sched_state impl = SCHEDULER_STATE_SHUTTING_DOWN \<or> sched_state impl = SCHEDULER_STATE_FAILED"

lemma run_join_gate:
  assumes "gate_ok impl w" "mutex_impl (lifecycle_mutex impl) = Some a"
  shows "run_state (join_gate impl) w = (if join_open impl then (None, w\<lparr>held := a # held w\<rparr>)
     else (Some (if sched_state impl = SCHEDULER_STATE_STOPPED then SCHEDULER_OK
                 else SCHEDULER_ERROR_INVALID_STATE), w))"
  using assms by (auto elim!: gate_okE simp: join_gate_def sync_simps join_open_def)

lemma run_join_finish:
  assumes "gate_ok impl w"
  shows "run_state (join_finish (r, impl)) w = (if threads impl \<noteq> None
     then ((SCHEDULER_ERROR_SYSTEM, impl\<lparr>sched_state := SCHEDULER_STATE_FAILED\<rparr>), w)
     else ((r, impl\<lparr>sched_state := SCHEDULER_STATE_STOPPED\<rparr>), w))"
  using run_set_state [OF assms] by (simp add: join_finish_def)

lemma run_note_join_failure:
  "crew_ok impl w \<Longrightarrow> run_state (note_join_failure impl) w = (count_join_failure impl, w)"
  by (erule crew_okE) (simp add: note_join_failure_def sync_simps Let_def)

end
