(* ===== verification/Scheduler_Custody.thy ===== *)
theory Scheduler_Custody
  imports Scheduler_Effects
begin

text \<open>
  What a scheduler owns (heap blocks, critical sections, thread handles) and that its operations
  take and give back exactly that, whatever allocation or native call fails: initialization,
  the two arrays and the worker synchronization of start, each thread, the release of the
  workers and destruction.
\<close>

section \<open>The parts of a scheduler\<close>

definition thread_blocks :: "SchedThread \<Rightarrow> addr list" where
  "thread_blocks t = (case thread_impl t of None \<Rightarrow> []
     | Some i \<Rightarrow> [thread_block i, start_block (start i)])"

definition thread_handles :: "SchedThread \<Rightarrow> addr list" where
  "thread_handles t = (case thread_impl t of None \<Rightarrow> [] | Some i \<Rightarrow> [handle i])"

definition crew_blocks :: "SchedulerImplementation \<Rightarrow> addr list" where
  "crew_blocks impl = (case threads impl of None \<Rightarrow> []
     | Some (a, ts) \<Rightarrow> a # concat (map thread_blocks ts))"

definition crew_handles :: "SchedulerImplementation \<Rightarrow> addr list" where
  "crew_handles impl = (case threads impl of None \<Rightarrow> []
     | Some (a, ts) \<Rightarrow> concat (map thread_handles ts))"

definition context_blocks :: "SchedulerImplementation \<Rightarrow> addr list" where
  "context_blocks impl = (case worker_contexts impl of None \<Rightarrow> [] | Some (a, cs) \<Rightarrow> [a])"

definition queue_blocks :: "ConcurrentTaskQueue \<Rightarrow> addr list" where
  "queue_blocks cq = (case owned cq of
      (Some a, Some (i, m, e, f)) \<Rightarrow> [a, i, the (mutex_impl m), the (cond_impl e), the (cond_impl f)]
    | _ \<Rightarrow> [])"

definition queue_section :: "ConcurrentTaskQueue \<Rightarrow> addr" where
  "queue_section cq = the (mutex_impl (mutex (the (implementation cq))))"

text \<open>The worker mutex and condition, once start has made them part of the scheduler.\<close>

definition sync_blocks :: "SchedulerImplementation \<Rightarrow> addr list" where
  "sync_blocks impl = (if worker_sync_initialized impl
     then [the (mutex_impl (worker_mutex impl)), the (cond_impl (worker_condition impl))] else [])"

definition core_blocks :: "SchedulerImplementation \<Rightarrow> addr list" where
  "core_blocks impl = sched_block impl # the (mutex_impl (lifecycle_mutex impl))
     # the (cond_impl (lifecycle_condition impl)) # queue_blocks (task_queue impl)"

definition blocks :: "SchedulerImplementation \<Rightarrow> addr list" where
  "blocks impl = core_blocks impl @ sync_blocks impl @ context_blocks impl @ crew_blocks impl"

definition sections_of :: "SchedulerImplementation \<Rightarrow> addr list" where
  "sections_of impl = the (mutex_impl (lifecycle_mutex impl)) # queue_section (task_queue impl)
     # (if worker_sync_initialized impl then [the (mutex_impl (worker_mutex impl))] else [])"

text \<open>All pointers that should be there are there.\<close>

definition shaped :: "SchedulerImplementation \<Rightarrow> bool" where
  "shaped impl \<longleftrightarrow> mutex_impl (lifecycle_mutex impl) \<noteq> None \<and> cond_impl (lifecycle_condition impl) \<noteq> None
     \<and> (\<exists>a i m e f. owned (task_queue impl)
          = (Some a, Some (i, \<lparr>mutex_impl = Some m\<rparr>, \<lparr>cond_impl = Some e\<rparr>, \<lparr>cond_impl = Some f\<rparr>)))
     \<and> (worker_sync_initialized impl \<longrightarrow>
          mutex_impl (worker_mutex impl) \<noteq> None \<and> cond_impl (worker_condition impl) \<noteq> None)"

text \<open>The scheduler owns its parts, each of them once, since the moment \<open>w0\<close>.\<close>

definition custody :: "world \<Rightarrow> SchedulerImplementation \<Rightarrow> world \<Rightarrow> bool" where
  "custody w0 impl w \<longleftrightarrow> shaped impl \<and> distinct (blocks impl) \<and> distinct (crew_handles impl)
     \<and> owns w0 w (set (blocks impl)) (set (sections_of impl)) (set (crew_handles impl))"

lemma custodyI:
  assumes "shaped impl" "distinct (blocks impl)" "distinct (crew_handles impl)"
    "owns w0 w (set (blocks impl)) (set (sections_of impl)) (set (crew_handles impl))"
  shows "custody w0 impl w"
  using assms by (simp add: custody_def)

text \<open>Custody depends on the parts only.\<close>

definition parts :: "SchedulerImplementation \<Rightarrow> addr list \<times> addr list \<times> addr list \<times> bool" where
  "parts impl = (blocks impl, sections_of impl, crew_handles impl, shaped impl)"

lemma custody_parts: "parts impl' = parts impl \<Longrightarrow> custody w0 impl' w = custody w0 impl w"
  by (simp add: parts_def custody_def)

lemma owns_world [simp]:
  "owns w0 (w\<lparr>wakes := k\<rparr>) B S H = owns w0 w B S H" "owns w0 (w\<lparr>fate := fs\<rparr>) B S H = owns w0 w B S H"
  by (simp_all add: owns_def ledger_ok_def)

lemma custody_world [simp]:
  "custody w0 impl (w\<lparr>wakes := k\<rparr>) = custody w0 impl w" "custody w0 impl (w\<lparr>fate := fs\<rparr>) = custody w0 impl w"
  by (simp_all add: custody_def)

lemma shapedE:
  assumes "shaped impl"
  obtains l c a i m e f where "mutex_impl (lifecycle_mutex impl) = Some l"
    "cond_impl (lifecycle_condition impl) = Some c"
    "owned (task_queue impl) = (Some a, Some (i, \<lparr>mutex_impl = Some m\<rparr>, \<lparr>cond_impl = Some e\<rparr>, \<lparr>cond_impl = Some f\<rparr>))"
    "queue_blocks (task_queue impl) = [a, i, m, e, f]" "queue_section (task_queue impl) = m"
  using assms by (auto simp: shaped_def queue_blocks_def queue_section_def owned_def)

text \<open>The mutexes of a scheduler in custody are live and free.\<close>

lemma custody_section:
  assumes "custody w0 impl w" "l \<in> set (sections_of impl)"
  shows "l \<in> sections w" "l \<notin> set (held w)"
proof -
  have own: "owns w0 w (set (blocks impl)) (set (sections_of impl)) (set (crew_handles impl))"
    using assms(1) by (simp add: custody_def)
  from owns_not_held [OF own assms(2)] show "l \<notin> set (held w)" .
  from own assms(2) show "l \<in> sections w" by (simp add: owns_def)
qed

lemma custody_gate: "custody w0 impl w \<Longrightarrow> gate_ok impl w"
proof -
  assume c: "custody w0 impl w"
  then obtain l where l: "mutex_impl (lifecycle_mutex impl) = Some l" by (auto simp: custody_def shaped_def)
  then have "l \<in> set (sections_of impl)" by (simp add: sections_of_def)
  with l c show ?thesis by (auto simp: gate_ok_def custody_section [OF c] custody_def shaped_def)
qed

lemma custody_crew: "custody w0 impl w \<Longrightarrow> worker_sync_initialized impl \<Longrightarrow> crew_ok impl w"
proof -
  assume c: "custody w0 impl w" and s: "worker_sync_initialized impl"
  then obtain l where l: "mutex_impl (worker_mutex impl) = Some l" by (auto simp: custody_def shaped_def)
  with s have "l \<in> set (sections_of impl)" by (simp add: sections_of_def)
  with l c s show ?thesis by (auto simp: crew_ok_def custody_section [OF c] custody_def shaped_def)
qed

section \<open>Initialization\<close>

text \<open>A scheduler as init leaves it.\<close>

definition fresh_scheduler :: "size_t \<Rightarrow> size_t \<Rightarrow> SchedulerImplementation \<Rightarrow> bool" where
  "fresh_scheduler cap n impl \<longleftrightarrow>
     (\<exists>a q l c fn fc. impl = (zero_scheduler a)\<lparr>task_queue := q, lifecycle_mutex := l, lifecycle_condition := c,
        execute := Some fn, execute_context := fc, worker_count := n\<rparr>
      \<and> cq_view q = \<lparr>elems = [], bound = unat cap, closed = False, consumers = 0, producers = 0, high = 0\<rparr>)
     \<and> n \<noteq> 0"

lemma wp_queue_init:
  assumes own: "owns w0 w B S H"
    and bad: "\<And>r w'. owns w0 w' B S H \<Longrightarrow> r \<noteq> CONCURRENT_TASK_QUEUE_OK \<Longrightarrow> P (r, Some raw) w'"
    and good: "\<And>a i m e f cq w'. {a, i, m, e, f} \<inter> B = {} \<Longrightarrow> distinct [a, i, m, e, f]
      \<Longrightarrow> owns w0 w' (insert f (insert e (insert m (insert i (insert a B))))) (insert m S) H
      \<Longrightarrow> cq_ok cq w' \<Longrightarrow> owned cq = (Some a, Some (i, \<lparr>mutex_impl = Some m\<rparr>, \<lparr>cond_impl = Some e\<rparr>, \<lparr>cond_impl = Some f\<rparr>))
      \<Longrightarrow> cq_view cq = \<lparr>elems = [], bound = unat cap, closed = False, consumers = 0, producers = 0, high = 0\<rparr>
        \<Longrightarrow> P (CONCURRENT_TASK_QUEUE_OK, Some cq) w'"
  shows "wp (concurrent_task_queue_init (Some raw) cap) P w"
proof (cases "cap = 0 \<or> cap > SIZE_MAX div SIZEOF_TASK_PTR")
  case True
  with bad [OF own] show ?thesis by (simp add: concurrent_task_queue_init_def)
next
  case False
  then have "cap \<noteq> 0" "cap \<le> SIZE_MAX div SIZEOF_TASK_PTR" by (auto simp: not_less)
  then show ?thesis using bad good by (rule wp_concurrent_init [OF own])
qed

lemma zero_fields [simp]:
  "lifecycle_mutex (zero_scheduler a) = \<lparr>mutex_impl = None\<rparr>"
  "lifecycle_condition (zero_scheduler a) = \<lparr>cond_impl = None\<rparr>"
  "task_queue (zero_scheduler a) = zero_concurrent_queue"
  "sched_block (zero_scheduler a) = a" "worker_sync_initialized (zero_scheduler a) = False"
  "threads (zero_scheduler a) = None" "worker_contexts (zero_scheduler a) = None"
  "fault_plan (zero_scheduler a) = idle_plan" "sched_state (zero_scheduler a) = SCHEDULER_STATE_INITIALIZED"
  by (simp_all add: zero_scheduler_def)

text \<open>The scheduler that a successful initialization publishes.\<close>

lemma fresh_custody:
  fixes b q l c fn fc n
  defines "impl \<equiv> (zero_scheduler b)\<lparr>task_queue := q, lifecycle_mutex := \<lparr>mutex_impl = Some l\<rparr>,
    lifecycle_condition := \<lparr>cond_impl = Some c\<rparr>, execute := Some fn, execute_context := fc, worker_count := n,
    sched_state := SCHEDULER_STATE_INITIALIZED, fault_plan := the (scheduler_fault_plan_init (Some idle_plan))\<rparr>"
  assumes q: "cq_ok q wq" "owns w0 wq {f, e, m, i, a, b} {m} {}" "distinct [a, i, m, e, f]" "b \<notin> {a, i, m, e, f}"
      "owned q = (Some a, Some (i, \<lparr>mutex_impl = Some m\<rparr>, \<lparr>cond_impl = Some e\<rparr>, \<lparr>cond_impl = Some f\<rparr>))"
      "cq_view q = \<lparr>elems = [], bound = unat cap, closed = False, consumers = 0, producers = 0, high = 0\<rparr>"
    and new: "l \<notin> {f, e, m, i, a, b}" "c \<notin> {l, f, e, m, i, a, b}" "owns w0 w {c, l, f, e, m, i, a, b} {l, m} {}" "n \<noteq> 0"
  shows "custody w0 impl w" "fresh_scheduler cap n impl" "cq_ok (task_queue impl) w"
proof -
  have "sections wq \<subseteq> sections w" "held w = held wq" using q(2) new(3) by (auto simp: owns_def)
  then show "cq_ok (task_queue impl) w"
    using q(1) by (auto simp: impl_def cq_ok_def impl_ok_def split: option.splits)
  have "impl = (zero_scheduler b)\<lparr>task_queue := q, lifecycle_mutex := \<lparr>mutex_impl = Some l\<rparr>,
      lifecycle_condition := \<lparr>cond_impl = Some c\<rparr>, execute := Some fn, execute_context := fc, worker_count := n\<rparr>"
    by (simp add: impl_def scheduler_fault_plan_init_def zero_scheduler_def)
  then show "fresh_scheduler cap n impl" unfolding fresh_scheduler_def using q(6) new(4) by blast
  have parts: "blocks impl = [b, l, c, a, i, m, e, f]" "sections_of impl = [l, m]" "crew_handles impl = []" "shaped impl"
    using q(5) by (auto simp: impl_def blocks_def core_blocks_def sync_blocks_def context_blocks_def crew_blocks_def
      crew_handles_def sections_of_def queue_blocks_def queue_section_def shaped_def owned_def)
  have sets: "{b, l, c, a, i, m, e, f} = {c, l, f, e, m, i, a, b}" by blast
  show "custody w0 impl w" by (rule custodyI) (use q new parts sets in auto)
qed

lemma wp_init:
  assumes own: "owns w0 w {} {} {}" and args: "cap \<noteq> 0" "n \<noteq> 0" "sched_impl s = None"
    and bad: "\<And>r w'. owns w0 w' {} {} {} \<Longrightarrow> r \<noteq> SCHEDULER_OK \<Longrightarrow> P (r, Some s) w'"
    and good: "\<And>impl w'. custody w0 impl w' \<Longrightarrow> fresh_scheduler cap n impl \<Longrightarrow> cq_ok (task_queue impl) w'
      \<Longrightarrow> P (SCHEDULER_OK, Some \<lparr>sched_impl = Some impl\<rparr>) w'"
  shows "wp (scheduler_init (Some s) cap n (Some fn) fc) P w"
proof -
  have drop1: "wp (free (Some b)) (\<lambda>_. P (r, Some s)) w'"
    if "owns w0 w' {b} {} {}" "r \<noteq> SCHEDULER_OK" for b r w'
    using that bad by (intro wp_free [OF that(1)]) auto
  have drop2: "wp (concurrent_task_queue_destroy (Some cq)) (\<lambda>_. wp (free (Some b)) (\<lambda>_. P (r, Some s))) w'"
    if "owns w0 w' {f, e, m, i, a, b} {m} {}" "distinct [a, i, m, e, f]" "b \<notin> {a, i, m, e, f}"
      "owned cq = (Some a, Some (i, \<lparr>mutex_impl = Some m\<rparr>, \<lparr>cond_impl = Some e\<rparr>, \<lparr>cond_impl = Some f\<rparr>))"
      "r \<noteq> SCHEDULER_OK" for a i m e f b cq r w'
  proof (rule wp_concurrent_destroy [OF that(1,4,2)])
    fix w'' assume "owns w0 w'' ({f, e, m, i, a, b} - {a, i, m, e, f}) ({m} - {m}) {}"
    moreover have "{f, e, m, i, a, b} - {a, i, m, e, f} = {b}" using that(3) by auto
    ultimately show "wp (free (Some b)) (\<lambda>_. P (r, Some s)) w''" using drop1 that(5) by simp
  qed (use that in auto)
  have drop3: "wp (sched_mutex_destroy (Some \<lparr>mutex_impl = Some l\<rparr>)) (\<lambda>_.
      wp (concurrent_task_queue_destroy (Some cq)) (\<lambda>_. wp (free (Some b)) (\<lambda>_. P (r, Some s)))) w'"
    if "owns w0 w' {l, f, e, m, i, a, b} {l, m} {}" "distinct [a, i, m, e, f]" "b \<notin> {a, i, m, e, f}"
      "l \<notin> {f, e, m, i, a, b}"
      "owned cq = (Some a, Some (i, \<lparr>mutex_impl = Some m\<rparr>, \<lparr>cond_impl = Some e\<rparr>, \<lparr>cond_impl = Some f\<rparr>))"
      "r \<noteq> SCHEDULER_OK" for a i m e f b l cq r w'
  proof (rule wp_mutex_destroy [OF that(1)])
    fix w'' assume "owns w0 w'' ({l, f, e, m, i, a, b} - {l}) ({l, m} - {l}) {}"
    moreover have "{l, f, e, m, i, a, b} - {l} = {f, e, m, i, a, b}" "{l, m} - {l} = {m}"
      using that(4) by auto
    ultimately show "wp (concurrent_task_queue_destroy (Some cq)) (\<lambda>_. wp (free (Some b)) (\<lambda>_. P (r, Some s))) w''"
      using drop2 that by simp
  qed simp_all
  have init: "map_queue_init_result r \<noteq> SCHEDULER_OK" if "r \<noteq> CONCURRENT_TASK_QUEUE_OK" for r
    using that by (simp add: map_queue_init_result_def split: ConcurrentTaskQueueResult.splits)
  show ?thesis
    unfolding scheduler_init_def using args
    apply (simp add: Let_def)
    apply (rule wp_allocate [OF own])
     apply (simp add: bad)
    apply simp
    apply (rule wp_queue_init, assumption)
     apply (simp add: drop1 init)
    apply simp
    apply (rule wp_mutex_init, assumption)
     apply simp
     apply (rule drop2, assumption, simp, blast, simp, simp)
    apply simp
    apply (rule wp_condition_init, assumption)
     apply simp
     apply (rule drop3, assumption, simp, simp, simp, simp, simp)
    apply simp
    subgoal for b w1 a i m e f q w2 l w3 c w4
      by (rule good; rule fresh_custody [where wq = w2 and a = a and i = i and m = m and e = e and f = f and l = l]) simp_all
    done
qed

section \<open>Destruction\<close>

lemma wp_destroy_core:
  assumes own: "owns w0 w (set (core_blocks impl)) {l, m} {}"
    and dist: "distinct (core_blocks impl)"
    and shape: "lifecycle_mutex impl = \<lparr>mutex_impl = Some l\<rparr>" "cond_impl (lifecycle_condition impl) = Some c"
      "owned (task_queue impl) = (Some a, Some (i, \<lparr>mutex_impl = Some m\<rparr>, \<lparr>cond_impl = Some e\<rparr>, \<lparr>cond_impl = Some f\<rparr>))"
    and fin: "\<And>w'. owns w0 w' {} {} {} \<Longrightarrow> P () w'"
  shows "wp (sched_condition_destroy (Some (lifecycle_condition impl))) (\<lambda>_.
     wp (sched_mutex_destroy (Some (lifecycle_mutex impl))) (\<lambda>_.
     wp (concurrent_task_queue_destroy (Some (task_queue impl))) (\<lambda>_.
     wp (free (Some (sched_block impl))) P))) w"
proof -
  let ?b = "sched_block impl"
  have core: "core_blocks impl = [?b, l, c, a, i, m, e, f]"
    using shape by (simp add: core_blocks_def queue_blocks_def)
  have B: "set (core_blocks impl) = {?b, l, c, a, i, m, e, f}" by (simp add: core)
  have sets: "{?b, l, c, a, i, m, e, f} - {c} - {l} - {a, i, m, e, f} - {?b} = {}" "{l, m} - {l} - {m} = {}"
    by auto
  show ?thesis
    apply (rule wp_condition_destroy [OF own [unfolded B] shape(2)], simp)
     using dist core apply auto[1]
    apply (rule wp_mutex_destroy, assumption)
        apply (simp add: shape)
       using dist core apply auto[1]
      using dist core apply auto[1]
    apply (rule wp_concurrent_destroy, assumption, rule shape(3))
        using dist core apply auto[1]
       using dist core apply auto[1]
      using dist core apply auto[1]
     using dist core apply auto[1]
    apply (rule wp_free, assumption)
      using dist core apply auto[1]
     apply (simp add: sets)
    apply (simp only: sets fin)
    done
qed


lemma wp_destroy_parts:
  assumes cus: "custody w0 impl w" and bare: "threads impl = None" "worker_contexts impl = None"
    and fin: "\<And>w'. owns w0 w' {} {} {} \<Longrightarrow> P () w'"
  shows "wp (destroy_parts impl) P w"
proof -
  from cus have shape: "shaped impl" and dist: "distinct (blocks impl)"
    and own: "owns w0 w (set (blocks impl)) (set (sections_of impl)) (set (crew_handles impl))"
    by (simp_all add: custody_def)
  obtain l c a i m e f where parts: "mutex_impl (lifecycle_mutex impl) = Some l"
    "cond_impl (lifecycle_condition impl) = Some c"
    "owned (task_queue impl) = (Some a, Some (i, \<lparr>mutex_impl = Some m\<rparr>, \<lparr>cond_impl = Some e\<rparr>, \<lparr>cond_impl = Some f\<rparr>))"
    "queue_blocks (task_queue impl) = [a, i, m, e, f]" "queue_section (task_queue impl) = m"
    using shape by (rule shapedE)
  have lm: "lifecycle_mutex impl = \<lparr>mutex_impl = Some l\<rparr>" using parts(1) by (cases "lifecycle_mutex impl") simp
  have H: "crew_handles impl = []" and B: "blocks impl = core_blocks impl @ sync_blocks impl"
    using bare by (simp_all add: crew_handles_def blocks_def context_blocks_def crew_blocks_def)
  have core: "set (core_blocks impl) = {sched_block impl, l, c, a, i, m, e, f}"
    using parts by (auto simp: core_blocks_def)
  have tail: "wp (sched_condition_destroy (Some (lifecycle_condition impl))) (\<lambda>_.
     wp (sched_mutex_destroy (Some (lifecycle_mutex impl))) (\<lambda>_.
     wp (concurrent_task_queue_destroy (Some (task_queue impl))) (\<lambda>_.
     wp (free (Some (sched_block impl))) P))) w'"
    if "owns w0 w' (set (core_blocks impl)) {l, m} {}" for w'
    using that dist B by (intro wp_destroy_core [OF _ _ lm parts(2,3)] fin) auto
  show ?thesis
  proof (cases "worker_sync_initialized impl")
    case False
    then have "sections_of impl = [l, m]" "sync_blocks impl = []"
      using parts by (simp_all add: sections_of_def sync_blocks_def)
    with own B H False tail [of w] show ?thesis by (simp add: destroy_parts_def)
  next
    case True
    then obtain l' c' where sync: "mutex_impl (worker_mutex impl) = Some l'" "cond_impl (worker_condition impl) = Some c'"
      using shape by (auto simp: shaped_def)
    have new: "distinct [l', c']" "l' \<notin> set (core_blocks impl)" "c' \<notin> set (core_blocks impl)"
      using dist B True sync by (auto simp: sync_blocks_def)
    have own': "owns w0 w (insert c' (insert l' (set (core_blocks impl)))) (insert l' {l, m}) {}"
      using own B H True sync parts by (simp add: sync_blocks_def sections_of_def insert_commute Un_commute)
    have lm_core: "l \<in> set (core_blocks impl)" "m \<in> set (core_blocks impl)" by (simp_all add: core)
    have ne: "l \<noteq> l'" "m \<noteq> l'" using new(2) lm_core by auto
    show ?thesis
      unfolding destroy_parts_def using True
      apply simp
      apply (rule wp_condition_destroy [OF own' sync(2)], simp)
       using new lm_core apply auto[1]
      apply (rule wp_mutex_destroy [OF _ sync(1)], assumption)
        using new apply auto[1]
       apply simp
      apply (rule tail)
      using new ne apply (simp add: insert_Diff_if)
      done
  qed
qed

section \<open>The resources of start\<close>

lemma injected_eq:
  "injected point impl = (fst (fault_fires (fault_plan impl) point),
     impl\<lparr>fault_plan := snd (fault_fires (fault_plan impl) point)\<rparr>)"
  by (simp add: injected_def split: prod.splits)

lemma wp_set_state:
  assumes "gate_ok impl w" "P (SCHEDULER_OK, impl\<lparr>sched_state := st\<rparr>) w"
  shows "wp (set_scheduler_state impl st) P w"
  using assms by (simp add: wp_def run_set_state)

lemma sole_field [simp]:
  "m\<lparr>mutex_impl := x\<rparr> = \<lparr>mutex_impl = x\<rparr>" "c\<lparr>cond_impl := y\<rparr> = \<lparr>cond_impl = y\<rparr>"
  "t\<lparr>thread_impl := z\<rparr> = \<lparr>thread_impl = z\<rparr>"
  for m :: SchedMutex and c :: SchedCondition and t :: SchedThread
  by simp_all

lemma wp_lock:
  assumes "mutex_impl m = Some a" "a \<in> sections w" "P SCHED_SYNC_OK (w\<lparr>held := a # held w\<rparr>)"
  shows "wp (sched_mutex_lock (Some m)) P w"
  using assms by (simp add: wp_def sync_simps)

lemma wp_unlock:
  assumes "mutex_impl m = Some a" "a \<in> sections w" "a \<in> set (held w)"
    "P SCHED_SYNC_OK (w\<lparr>held := remove1 a (held w)\<rparr>)"
  shows "wp (sched_mutex_unlock (Some m)) P w"
  using assms by (simp add: wp_def sync_simps)

lemma wp_free_option:
  assumes "owns w0 w B S H" "\<And>a. p = Some a \<Longrightarrow> a \<in> B \<and> a \<notin> S"
    and "\<And>w'. owns w0 w' (B - set_option p) S H \<Longrightarrow> P () w'"
  shows "wp (free p) P w"
proof (cases p)
  case None
  with assms(1,3) show ?thesis by (simp add: free_def)
next
  case (Some a)
  with assms show ?thesis by (auto intro!: wp_free [OF assms(1)])
qed

text \<open>
  A scheduler on which a start attempt may work: nothing of the workers is there, and the rest
  is owned. \<open>B\<close>, \<open>S\<close> and \<open>H\<close> are what it owns.
\<close>

lemma wp_rollback:
  assumes own: "owns w0 w B S H" and gate: "mutex_impl (lifecycle_mutex impl) = Some l"
      "cond_impl (lifecycle_condition impl) \<noteq> None" "l \<in> S"
    and arrays: "\<And>a xs. worker_contexts impl = Some (a, xs) \<Longrightarrow> a \<in> B \<and> a \<notin> S"
      "\<And>a xs. threads impl = Some (a, xs) \<Longrightarrow> a \<in> B \<and> a \<notin> S"
      "\<And>a xs b ys. worker_contexts impl = Some (a, xs) \<Longrightarrow> threads impl = Some (b, ys) \<Longrightarrow> a \<noteq> b"
    and fin: "\<And>w'. owns w0 w' (B - set_option (map_option fst (worker_contexts impl))
         - set_option (map_option fst (threads impl))) S H
       \<Longrightarrow> P (r, impl\<lparr>worker_contexts := None, threads := None, sched_state := st\<rparr>) w'"
  shows "wp (start_rollback impl st r) P w"
proof -
  have state: "wp (set_scheduler_state (impl\<lparr>worker_contexts := None, threads := None\<rparr>) st)
      (\<lambda>x. wp (case x of (_, impl) \<Rightarrow> ret (r, impl)) P) w'"
    if "owns w0 w' (B - set_option (map_option fst (worker_contexts impl))
       - set_option (map_option fst (threads impl))) S H" for w'
  proof (rule wp_set_state)
    show "gate_ok (impl\<lparr>worker_contexts := None, threads := None\<rparr>) w'"
      using gate that owns_not_held [OF that gate(3)] by (auto simp: gate_ok_def owns_def)
    show "wp (case (SCHEDULER_OK, impl\<lparr>worker_contexts := None, threads := None, sched_state := st\<rparr>)
        of (_, impl) \<Rightarrow> ret (r, impl)) P w'" using fin [OF that] by simp
  qed
  show ?thesis
    unfolding start_rollback_def wp_bind
    apply (rule wp_free_option [OF own])
     using arrays(1) apply auto[1]
    apply (rule wp_free_option, assumption)
     using arrays(2,3) apply auto[1]
    apply (rule state, assumption)
    done
qed

definition armed_impl :: "SchedulerImplementation \<Rightarrow> SchedulerImplementation \<Rightarrow> bool" where
  "armed_impl impl impl' \<longleftrightarrow> (\<exists>a b m c p. impl' = impl\<lparr>fault_plan := p, worker_mutex := m, worker_condition := c,
       threads := Some (a, replicate (unat (worker_count impl)) zero_thread),
       worker_contexts := Some (b, replicate (unat (worker_count impl)) zero_context),
       worker_sync_initialized := True\<rparr>)"

definition rolled_back :: "SchedulerImplementation \<Rightarrow> SchedulerImplementation \<Rightarrow> bool" where
  "rolled_back impl impl' \<longleftrightarrow> (\<exists>m c p. impl' = impl\<lparr>fault_plan := p, worker_mutex := m, worker_condition := c,
       threads := None, worker_contexts := None, sched_state := SCHEDULER_STATE_INITIALIZED\<rparr>)"

lemma wp_start_sync:
  assumes own: "owns w0 w (insert b (insert a B)) S H" and new: "b \<notin> insert a B" "a \<notin> B"
    and gate: "mutex_impl (lifecycle_mutex impl) = Some l" "cond_impl (lifecycle_condition impl) \<noteq> None" "l \<in> S"
    and arrays: "worker_contexts impl = Some (b, cs)" "threads impl = Some (a, ts)"
    and sub: "S \<subseteq> B"
    and bad: "\<And>m c w'. owns w0 w' B S H \<Longrightarrow> P (SCHEDULER_ERROR_SYSTEM, impl\<lparr>worker_mutex := m,
        worker_condition := c, worker_contexts := None, threads := None,
        sched_state := SCHEDULER_STATE_INITIALIZED\<rparr>) w'"
    and good: "\<And>m c w'. m \<notin> insert b (insert a B) \<Longrightarrow> c \<notin> insert m (insert b (insert a B)) \<Longrightarrow>
       owns w0 w' (insert c (insert m (insert b (insert a B)))) (insert m S) H \<Longrightarrow>
       P (SCHEDULER_OK, impl\<lparr>worker_mutex := \<lparr>mutex_impl = Some m\<rparr>,
         worker_condition := \<lparr>cond_impl = Some c\<rparr>, worker_sync_initialized := True\<rparr>) w'"
  shows "wp (start_sync impl) P w"
proof -
  let ?B = "insert b (insert a B)"
  have rb: "wp (start_rollback (impl\<lparr>worker_mutex := m, worker_condition := c\<rparr>)
      SCHEDULER_STATE_INITIALIZED SCHEDULER_ERROR_SYSTEM) P w'" if "owns w0 w' ?B S H" for m c w'
  proof (rule wp_rollback [OF that])
    fix w''
    assume "owns w0 w'' (?B - set_option (map_option fst (worker_contexts (impl\<lparr>worker_mutex := m, worker_condition := c\<rparr>)))
        - set_option (map_option fst (threads (impl\<lparr>worker_mutex := m, worker_condition := c\<rparr>)))) S H"
    moreover have "?B - {b} - {a} = B" using new by auto
    ultimately show "P (SCHEDULER_ERROR_SYSTEM, impl\<lparr>worker_mutex := m, worker_condition := c,
        worker_contexts := None, threads := None, sched_state := SCHEDULER_STATE_INITIALIZED\<rparr>) w''"
      using arrays bad by simp
  qed (use gate arrays new sub in auto)
  have same: "impl\<lparr>worker_mutex := m, worker_condition := worker_condition impl\<rparr> = impl\<lparr>worker_mutex := m\<rparr>" for m
    by simp
  have rb': "wp (start_rollback (impl\<lparr>worker_mutex := m\<rparr>) SCHEDULER_STATE_INITIALIZED SCHEDULER_ERROR_SYSTEM) P w'"
    if "owns w0 w' ?B S H" for m w'
    using rb [OF that, where m = m and c = "worker_condition impl"] by (simp only: same)
  have rb'': "wp (start_rollback impl SCHEDULER_STATE_INITIALIZED SCHEDULER_ERROR_SYSTEM) P w'"
    if "owns w0 w' ?B S H" for w'
    using rb' [OF that, where m = "worker_mutex impl"] by simp
  have undo: "wp (sched_mutex_destroy (Some \<lparr>mutex_impl = Some m\<rparr>)) (\<lambda>x. wp (start_rollback
      (impl\<lparr>worker_mutex := the x\<rparr>) SCHEDULER_STATE_INITIALIZED SCHEDULER_ERROR_SYSTEM) P) w'"
    if "owns w0 w' (insert m ?B) (insert m S) H" "m \<notin> ?B" for m w'
    apply (rule wp_mutex_destroy [OF that(1)], simp, simp, simp)
    apply (rule rb')
    subgoal for w''
    proof -
      assume "owns w0 w'' (insert m ?B - {m}) (insert m S - {m}) H"
      moreover have "insert m ?B - {m} = ?B" "insert m S - {m} = S" using that(2) sub by auto
      ultimately show ?thesis by simp
    qed
    done
  show ?thesis
    unfolding start_sync_def wp_bind
    apply (rule wp_mutex_init [OF own])
     apply (simp add: Let_def rb'')
    apply (simp add: Let_def)
    apply (rule wp_condition_init, assumption)
     apply simp
     apply (rule undo)
      apply assumption
     apply simp
    apply simp
    subgoal for m w1 c w2
      apply (rule wp_lock [OF gate(1)])
       apply (simp add: owns_def gate(3))
      apply (simp add: Let_def)
      apply (rule wp_unlock [OF gate(1)])
        apply (simp add: owns_def gate(3))
       apply simp
      using good [of m c w2] by simp
    done
qed


text \<open>A start before its arrays, one that was undone, and one with everything in place.\<close>

abbreviation undone ::
  "SchedulerFaultPlan \<Rightarrow> SchedMutex \<Rightarrow> SchedCondition \<Rightarrow> SchedulerImplementation \<Rightarrow> SchedulerImplementation" where
  "undone p m c impl \<equiv> impl\<lparr>fault_plan := p, worker_mutex := m, worker_condition := c, worker_contexts := None,
     threads := None, sched_state := SCHEDULER_STATE_INITIALIZED\<rparr>"

abbreviation equipped ::
  "SchedulerFaultPlan \<Rightarrow> addr \<Rightarrow> addr \<Rightarrow> addr \<Rightarrow> addr \<Rightarrow> SchedulerImplementation \<Rightarrow> SchedulerImplementation" where
  "equipped p a b m c impl \<equiv> impl\<lparr>fault_plan := p, threads := Some (a, replicate (unat (worker_count impl)) zero_thread),
     worker_contexts := Some (b, replicate (unat (worker_count impl)) zero_context),
     worker_mutex := \<lparr>mutex_impl = Some m\<rparr>, worker_condition := \<lparr>cond_impl = Some c\<rparr>, worker_sync_initialized := True\<rparr>"

definition unequipped :: "SchedulerImplementation \<Rightarrow> bool" where
  "unequipped impl \<longleftrightarrow> threads impl = None \<and> worker_contexts impl = None \<and> \<not> worker_sync_initialized impl"

lemma unequipped_owns:
  assumes "custody w0 impl w" "unequipped impl"
  shows "owns w0 w (set (blocks impl)) (set (sections_of impl)) {}" "set (sections_of impl) \<subseteq> set (blocks impl)"
  using assms by (auto simp: custody_def unequipped_def crew_handles_def owns_def)

lemma undone_custody:
  assumes "custody w0 impl w" "unequipped impl" "owns w0 w' (set (blocks impl)) (set (sections_of impl)) {}"
  shows "custody w0 (undone p m c impl) w'" "rolled_back impl (undone p m c impl)"
proof -
  let ?i = "undone p m c impl"
  show "rolled_back impl ?i" unfolding rolled_back_def
    by (rule exI [of _ m], rule exI [of _ c], rule exI [of _ p]) simp
  have "blocks ?i = blocks impl" "sections_of ?i = sections_of impl" "crew_handles ?i = []" "shaped ?i = shaped impl"
    using assms(2) by (simp_all add: unequipped_def blocks_def core_blocks_def sync_blocks_def context_blocks_def crew_blocks_def
      sections_of_def crew_handles_def shaped_def)
  with assms(1,3) show "custody w0 ?i w'" by (simp add: custody_def)
qed

lemma equipped_custody:
  fixes impl p a b m c
  defines "B \<equiv> set (blocks impl)" and "i \<equiv> equipped p a b m c impl"
  assumes "custody w0 impl w" "unequipped impl"
    "owns w0 w' (insert c (insert m (insert b (insert a B)))) (insert m (set (sections_of impl))) {}"
    and new: "a \<notin> B" "b \<notin> insert a B" "m \<notin> insert b (insert a B)" "c \<notin> insert m (insert b (insert a B))"
  shows "custody w0 i w'" "armed_impl impl i"
proof -
  show "armed_impl impl i" unfolding armed_impl_def i_def
    by (rule exI [of _ a], rule exI [of _ b], rule exI [of _ "\<lparr>mutex_impl = Some m\<rparr>"],
        rule exI [of _ "\<lparr>cond_impl = Some c\<rparr>"], rule exI [of _ p]) simp
  have none: "concat (map thread_blocks (replicate k zero_thread)) = []"
    "concat (map thread_handles (replicate k zero_thread)) = []" for k
    by (induction k) (simp_all add: thread_blocks_def thread_handles_def zero_thread_def)
  have parts: "blocks impl = core_blocks impl" "blocks i = core_blocks impl @ [m, c, b, a]"
    "set (sections_of i) = insert m (set (sections_of impl))" "crew_handles i = []" "shaped i = shaped impl"
    using assms(4) none by (auto simp: i_def unequipped_def blocks_def core_blocks_def sync_blocks_def context_blocks_def
      crew_blocks_def sections_of_def crew_handles_def shaped_def)
  have "set (blocks i) = insert c (insert m (insert b (insert a B)))" using parts by (auto simp: B_def)
  moreover have "distinct (blocks i)" using parts assms(3) new by (auto simp: custody_def B_def)
  ultimately show "custody w0 i w'" using assms(3,5) parts by (simp add: custody_def)
qed

lemma wp_undo_arrays:
  fixes impl i p
  defines "B \<equiv> set (blocks impl)" and "C \<equiv> set_option (map_option fst (worker_contexts i))"
    and "T \<equiv> set_option (map_option fst (threads i))"
  assumes cus: "custody w0 impl w" "unequipped impl"
    and own: "owns w0 w' (B \<union> (C \<union> T)) (set (sections_of impl)) {}" "(C \<union> T) \<inter> B = {}"
    and one: "threads i = None \<or> worker_contexts i = None"
    and i: "i = impl\<lparr>fault_plan := p, threads := threads i, worker_contexts := worker_contexts i\<rparr>"
    and bad: "\<And>w''. custody w0 (undone p (worker_mutex impl) (worker_condition impl) impl) w''
      \<Longrightarrow> P (SCHEDULER_ERROR_ALLOCATION, undone p (worker_mutex impl) (worker_condition impl) impl) w''"
  shows "wp (start_rollback i SCHEDULER_STATE_INITIALIZED SCHEDULER_ERROR_ALLOCATION) P w'"
proof -
  obtain l where gate: "mutex_impl (lifecycle_mutex impl) = Some l" "cond_impl (lifecycle_condition impl) \<noteq> None"
    using cus(1) by (auto simp: custody_def shaped_def)
  have fields: "lifecycle_mutex i = lifecycle_mutex impl" "lifecycle_condition i = lifecycle_condition impl"
    by (subst i, simp)+
  show ?thesis
  proof (rule wp_rollback [OF own(1), of _ l])
    show "mutex_impl (lifecycle_mutex i) = Some l" "cond_impl (lifecycle_condition i) \<noteq> None" "l \<in> set (sections_of impl)"
      using gate fields by (simp_all add: sections_of_def)
    fix w''
    assume "owns w0 w'' (B \<union> (C \<union> T) - set_option (map_option fst (worker_contexts i))
        - set_option (map_option fst (threads i))) (set (sections_of impl)) {}"
    moreover have "B \<union> (C \<union> T) - C - T = B" using own(2) by auto
    ultimately have "owns w0 w'' B (set (sections_of impl)) {}" by (simp add: C_def T_def)
    note fin = bad [OF undone_custody(1) [OF cus this [unfolded B_def]]]
    have "i\<lparr>worker_contexts := None, threads := None, sched_state := SCHEDULER_STATE_INITIALIZED\<rparr>
        = undone p (worker_mutex impl) (worker_condition impl) impl" by (subst i) simp
    with fin show "P (SCHEDULER_ERROR_ALLOCATION, i\<lparr>worker_contexts := None, threads := None,
        sched_state := SCHEDULER_STATE_INITIALIZED\<rparr>) w''" by simp
  qed (use own(2) one unequipped_owns(2) [OF cus] in \<open>auto simp: B_def C_def T_def\<close>)
qed

lemma wp_injected_allocate:
  assumes "owns w0 w B S {}" "\<And>a w'. owns w0 w' (B \<union> set_option a) S {} \<Longrightarrow> set_option a \<inter> B = {} \<Longrightarrow> Q a w'"
  shows "wp (if fault then ret None else allocate) Q w"
  using assms(1) assms(2) [where a = None] assms(2) [where a = "Some _"] by (auto intro!: wp_allocate [OF assms(1)])

text \<open>What follows the allocation of the arrays, and the whole part.\<close>

lemma wp_start_allocated:
  fixes impl p a b
  defines "n \<equiv> unat (worker_count impl)"
  defines "i \<equiv> impl\<lparr>fault_plan := p, threads := map_option (\<lambda>a. (a, replicate n zero_thread)) a,
     worker_contexts := map_option (\<lambda>b. (b, replicate n zero_context)) b\<rparr>"
  assumes cus: "custody w0 impl w" "unequipped impl"
    and bad: "\<And>r impl' w'. custody w0 impl' w' \<Longrightarrow> rolled_back impl impl' \<Longrightarrow> r \<noteq> SCHEDULER_OK \<Longrightarrow> P (r, impl') w'"
    and good: "\<And>impl' w'. custody w0 impl' w' \<Longrightarrow> armed_impl impl impl' \<Longrightarrow> P (SCHEDULER_OK, impl') w'"
    and own: "owns w0 w' (set (blocks impl) \<union> set_option a \<union> set_option b) (set (sections_of impl)) {}"
    and new: "set_option a \<inter> set (blocks impl) = {}" "set_option b \<inter> (set (blocks impl) \<union> set_option a) = {}"
  shows "wp (if threads i = None \<or> worker_contexts i = None
      then start_rollback i SCHEDULER_STATE_INITIALIZED SCHEDULER_ERROR_ALLOCATION else start_sync i) P w'"
proof (cases "a = None \<or> b = None")
  case True
  have "wp (start_rollback i SCHEDULER_STATE_INITIALIZED SCHEDULER_ERROR_ALLOCATION) P w'"
  proof (rule wp_undo_arrays [where i = i and p = p, OF cus])
    fix w'' assume c: "custody w0 (undone p (worker_mutex impl) (worker_condition impl) impl) w''"
    have "rolled_back impl (undone p (worker_mutex impl) (worker_condition impl) impl)"
      by (rule undone_custody(2) [OF cus unequipped_owns(1) [OF cus]])
    from bad [OF c this, of SCHEDULER_ERROR_ALLOCATION]
    show "P (SCHEDULER_ERROR_ALLOCATION, undone p (worker_mutex impl) (worker_condition impl) impl) w''" by simp
  qed (use own new True in \<open>auto simp: i_def Un_ac option.map_comp comp_def option.map_ident\<close>)
  with True show ?thesis by (auto simp: i_def)
next
  case False
  then obtain x y where ab: "a = Some x" "b = Some y" by auto
  obtain l where gate: "mutex_impl (lifecycle_mutex impl) = Some l" "cond_impl (lifecycle_condition impl) \<noteq> None"
    using cus(1) by (auto simp: custody_def shaped_def)
  have "wp (start_sync i) P w'"
  proof (rule wp_start_sync [where B = "set (blocks impl)" and S = "set (sections_of impl)" and H = "{}" and a = x and b = y and l = l])
    show "owns w0 w' (insert y (insert x (set (blocks impl)))) (set (sections_of impl)) {}" using own ab by simp
  qed (use new ab gate unequipped_owns(2) [OF cus] bad [OF undone_custody [OF cus]] good [OF equipped_custody [OF cus]]
      in \<open>simp_all add: i_def n_def sections_of_def\<close>)
  with ab show ?thesis by (simp add: i_def)
qed

lemma wp_start_resources:
  assumes cus: "custody w0 impl w" and bare: "threads impl = None" "worker_contexts impl = None"
      "\<not> worker_sync_initialized impl"
    and bad: "\<And>r impl' w'. custody w0 impl' w' \<Longrightarrow> rolled_back impl impl' \<Longrightarrow> r \<noteq> SCHEDULER_OK \<Longrightarrow> P (r, impl') w'"
    and good: "\<And>impl' w'. custody w0 impl' w' \<Longrightarrow> armed_impl impl impl' \<Longrightarrow> P (SCHEDULER_OK, impl') w'"
  shows "wp (start_resources impl) P w"
proof (cases "worker_count impl > SIZE_MAX div SIZEOF_SCHED_THREAD
    \<or> worker_count impl > SIZE_MAX div SIZEOF_WORKER_CONTEXT")
  case True
  have un: "unequipped impl" using bare by (simp add: unequipped_def)
  have same: "impl\<lparr>sched_state := SCHEDULER_STATE_INITIALIZED\<rparr>
      = undone (fault_plan impl) (worker_mutex impl) (worker_condition impl) impl" using bare by simp
  have "wp (set_scheduler_state impl SCHEDULER_STATE_INITIALIZED)
      (\<lambda>x. wp (case x of (_, impl) \<Rightarrow> ret (SCHEDULER_ERROR_ALLOCATION, impl)) P) w"
  proof (rule wp_set_state [OF custody_gate [OF cus]])
    show "wp (case (SCHEDULER_OK, impl\<lparr>sched_state := SCHEDULER_STATE_INITIALIZED\<rparr>) of
        (_, impl) \<Rightarrow> ret (SCHEDULER_ERROR_ALLOCATION, impl)) P w"
      unfolding same wp_ret prod.case by (rule bad [OF undone_custody [OF cus un unequipped_owns(1) [OF cus un]]]) simp
  qed
  with True show ?thesis by (simp add: start_resources_def)
next
  case False
  have un: "unequipped impl" using bare by (simp add: unequipped_def)
  have swap: "impl\<lparr>threads := x, fault_plan := p\<rparr> = impl\<lparr>fault_plan := p, threads := x\<rparr>" for x p by simp
  have "wp (start_arrays impl) (\<lambda>i. wp (if threads i = None \<or> worker_contexts i = None
      then start_rollback i SCHEDULER_STATE_INITIALIZED SCHEDULER_ERROR_ALLOCATION else start_sync i) P) w"
    unfolding start_arrays_def injected_eq Let_def prod.case wp_bind wp_ret
    apply (rule wp_injected_allocate [OF unequipped_owns(1) [OF cus un]])
    apply (rule wp_injected_allocate, assumption)
    subgoal premises prems for a w1 b w2 using wp_start_allocated [where P = P, OF cus un bad good prems(3) prems(2) prems(4)]
      by (cases a; cases b) (simp_all add: swap)
    done
  with False show ?thesis by (simp add: start_resources_def)
qed

end
