(* ===== verification/Scheduler_Release.thy ===== *)
theory Scheduler_Release
  imports Scheduler_Custody
begin

text \<open>
  The crew of a scheduler: creating a worker, joining and releasing it, the joining loop over
  all of them, and giving up a start once workers may run. Every statement says what the step
  leaves in the scheduler's custody.
\<close>

section \<open>Work under a lock\<close>

text \<open>
  A computation that neither looks at the held sections nor changes them runs under a lock as
  it does without.
\<close>

definition held_free :: "'a native \<Rightarrow> bool" where
  "held_free m \<longleftrightarrow> (\<forall>w h. run_state m (w\<lparr>held := h\<rparr>)
     = (fst (run_state m w), (snd (run_state m w))\<lparr>held := h\<rparr>))"

lemma held_free_ret [simp]: "held_free (ret x)"
  by (simp add: held_free_def)

lemma held_free_bind: "held_free m \<Longrightarrow> (\<And>x. held_free (f x)) \<Longrightarrow> held_free (State_Monad.bind m f)"
  by (simp add: held_free_def split: prod.splits)

lemma held_free_ask [simp]: "held_free ask"
  by (simp add: held_free_def run_ask_eq next_answer_def)

lemma held_free_allocate [simp]: "held_free allocate"
  unfolding allocate_def by (rule held_free_bind [OF held_free_ask]) (simp add: held_free_def)

lemma held_free_thread [simp]: "held_free beginthreadex"
  unfolding beginthreadex_def by (rule held_free_bind [OF held_free_ask]) (simp add: held_free_def)

lemma held_free_free [simp]: "held_free (free p)"
  by (cases p) (simp_all add: held_free_def)

lemma held_free_create [simp]: "held_free (sched_thread_create t f c)"
  unfolding sched_thread_create_def
  by (auto simp: split: option.splits prod.splits intro!: held_free_bind)

lemma wp_under_lock:
  assumes "held_free m" "wp m (\<lambda>r w'. P r (w'\<lparr>held := h\<rparr>)) w"
  shows "wp m P (w\<lparr>held := h\<rparr>)"
  using assms by (simp add: held_free_def wp_def)

section \<open>One thread more, one thread less\<close>

lemma concat_update:
  assumes "i < length ts"
  shows "concat (map f (ts[i := t])) = concat (map f (take i ts)) @ f t @ concat (map f (drop (Suc i) ts))"
    "concat (map f ts) = concat (map f (take i ts)) @ f (ts ! i) @ concat (map f (drop (Suc i) ts))"
proof -
  show "concat (map f (ts[i := t])) = concat (map f (take i ts)) @ f t @ concat (map f (drop (Suc i) ts))"
    by (simp add: upd_conv_take_nth_drop [OF assms])
  show "concat (map f ts) = concat (map f (take i ts)) @ f (ts ! i) @ concat (map f (drop (Suc i) ts))"
    by (subst id_take_nth_drop [OF assms]) simp
qed

lemma thread_parts [simp]:
  "thread_blocks \<lparr>thread_impl = None\<rparr> = []" "thread_handles \<lparr>thread_impl = None\<rparr> = []"
  "thread_blocks \<lparr>thread_impl = Some x\<rparr> = [thread_block x, start_block (start x)]"
  "thread_handles \<lparr>thread_impl = Some x\<rparr> = [handle x]"
  "thread_blocks zero_thread = []" "thread_handles zero_thread = []"
  by (simp_all add: thread_blocks_def thread_handles_def zero_thread_def)

text \<open>Everything but the thread array stays.\<close>

definition rest_parts :: "SchedulerImplementation \<Rightarrow> addr list \<times> addr list \<times> bool" where
  "rest_parts impl = (core_blocks impl @ sync_blocks impl @ context_blocks impl, sections_of impl, shaped impl)"

lemma rest_parts_same:
  assumes "rest_parts impl' = rest_parts impl"
  shows "blocks impl' = core_blocks impl @ sync_blocks impl @ context_blocks impl @ crew_blocks impl'"
    "sections_of impl' = sections_of impl" "shaped impl' = shaped impl"
  using assms by (auto simp: rest_parts_def blocks_def)

lemma custody_gains_thread:
  assumes cus: "custody w0 impl w" and ts: "threads impl = Some (a, ts)" "i < length ts" "ts ! i = zero_thread"
    and new: "x \<notin> set (blocks impl)" "y \<notin> insert x (set (blocks impl))" "h \<notin> set (crew_handles impl)"
    and own: "owns w0 w' (insert y (insert x (set (blocks impl)))) (set (sections_of impl)) (insert h (set (crew_handles impl)))"
    and impl': "rest_parts impl' = rest_parts impl" "threads impl' = Some (a, ts[i := \<lparr>thread_impl = Some t\<rparr>])"
      "thread_block t = x" "start_block (start t) = y" "handle t = h"
  shows "custody w0 impl' w'"
proof (rule custodyI)
  note same = rest_parts_same [OF impl'(1)]
  have crew: "crew_blocks impl' = a # concat (map thread_blocks (take i ts)) @ [x, y]
      @ concat (map thread_blocks (drop (Suc i) ts))"
    "crew_handles impl' = concat (map thread_handles (take i ts)) @ [h] @ concat (map thread_handles (drop (Suc i) ts))"
    using impl'(2-5) by (simp_all add: crew_blocks_def crew_handles_def concat_update(1) [OF ts(2)])
  have old: "crew_blocks impl = a # concat (map thread_blocks (take i ts)) @ concat (map thread_blocks (drop (Suc i) ts))"
    "crew_handles impl = concat (map thread_handles (take i ts)) @ concat (map thread_handles (drop (Suc i) ts))"
    using ts concat_update(2) [OF ts(2), of thread_blocks] concat_update(2) [OF ts(2), of thread_handles]
    by (simp_all add: crew_blocks_def crew_handles_def)
  have sets: "set (blocks impl') = insert y (insert x (set (blocks impl)))"
    "set (crew_handles impl') = insert h (set (crew_handles impl))"
    unfolding same(1) crew by (auto simp: blocks_def old)
  show "owns w0 w' (set (blocks impl')) (set (sections_of impl')) (set (crew_handles impl'))"
    using own by (simp only: sets same(2))
  show "shaped impl'" using cus same by (simp add: custody_def)
  show "distinct (blocks impl')" using cus new(1,2) unfolding same(1) crew
    by (auto simp: custody_def blocks_def old)
  show "distinct (crew_handles impl')" using cus new(3) unfolding crew by (auto simp: custody_def old)
qed

lemma custody_loses_thread:
  assumes cus: "custody w0 impl w" and ts: "threads impl = Some (a, ts)" "i < length ts" "thread_impl (ts ! i) = Some t"
    and own: "owns w0 w' (set (blocks impl) - {start_block (start t)} - {thread_block t})
       (set (sections_of impl)) (set (crew_handles impl) - {handle t})"
    and impl': "rest_parts impl' = rest_parts impl" "threads impl' = Some (a, ts[i := \<lparr>thread_impl = None\<rparr>])"
  shows "custody w0 impl' w'"
proof (rule custodyI)
  note same = rest_parts_same [OF impl'(1)]
  have crew: "crew_blocks impl' = a # concat (map thread_blocks (take i ts)) @ concat (map thread_blocks (drop (Suc i) ts))"
    "crew_handles impl' = concat (map thread_handles (take i ts)) @ concat (map thread_handles (drop (Suc i) ts))"
    using impl'(2) by (simp_all add: crew_blocks_def crew_handles_def concat_update(1) [OF ts(2)])
  have old: "crew_blocks impl = a # concat (map thread_blocks (take i ts)) @ [thread_block t, start_block (start t)]
      @ concat (map thread_blocks (drop (Suc i) ts))"
    "crew_handles impl = concat (map thread_handles (take i ts)) @ [handle t] @ concat (map thread_handles (drop (Suc i) ts))"
    using ts concat_update(2) [OF ts(2), of thread_blocks] concat_update(2) [OF ts(2), of thread_handles]
    by (simp_all add: crew_blocks_def crew_handles_def thread_blocks_def [of "ts ! i"] thread_handles_def [of "ts ! i"])
  have d: "distinct (blocks impl)" "distinct (crew_handles impl)" using cus by (simp_all add: custody_def)
  have sets: "set (blocks impl') = set (blocks impl) - {start_block (start t)} - {thread_block t}"
    "set (crew_handles impl') = set (crew_handles impl) - {handle t}"
    using d unfolding same(1) crew by (auto simp: blocks_def old)
  show "owns w0 w' (set (blocks impl')) (set (sections_of impl')) (set (crew_handles impl'))"
    using own by (simp only: sets same(2))
  show "shaped impl'" using cus same by (simp add: custody_def)
  show "distinct (blocks impl')" using d unfolding same(1) crew by (auto simp: blocks_def old)
  show "distinct (crew_handles impl')" using d unfolding crew by (auto simp: old)
qed


section \<open>Starting and releasing a worker\<close>

text \<open>
  A scheduler with its worker arrays: the thread and context arrays are there, and the worker
  synchronization is.
\<close>

definition staffed :: "SchedulerImplementation \<Rightarrow> bool" where
  "staffed impl \<longleftrightarrow> worker_sync_initialized impl \<and> (\<exists>a ts b cs. threads impl = Some (a, ts)
     \<and> worker_contexts impl = Some (b, cs) \<and> length ts = unat (worker_count impl)
     \<and> length cs = unat (worker_count impl))"

definition enlisted :: "nat \<Rightarrow> SchedulerFaultPlan \<Rightarrow> SchedulerImplementation \<Rightarrow> SchedulerImplementation" where
  "enlisted i p impl = (put_context i ((the (context_at impl i))\<lparr>ctx_scheduler := Some (sched_block impl),
     worker_index := of_nat i\<rparr>) impl)\<lparr>fault_plan := p\<rparr>"

definition hired :: "nat \<Rightarrow> SchedulerFaultPlan \<Rightarrow> WindowsThread \<Rightarrow> SchedulerImplementation \<Rightarrow> SchedulerImplementation" where
  "hired i p t impl = (let impl = put_thread i \<lparr>thread_impl = Some t\<rparr> (enlisted i p impl)
     in impl\<lparr>started_worker_count := started_worker_count impl + 1,
          created_worker_count := created_worker_count impl + 1\<rparr>)"

lemma enlisted_fields [simp]:
  "threads (enlisted i p impl) = threads impl" "worker_mutex (enlisted i p impl) = worker_mutex impl"
  "rest_parts (enlisted i p impl) = rest_parts impl"
  by (simp_all add: enlisted_def put_context_def rest_parts_def core_blocks_def sync_blocks_def context_blocks_def
      sections_of_def shaped_def split: option.splits prod.splits)

lemma put_thread_fields [simp]:
  "threads (put_thread i t impl) = map_option (\<lambda>(a, ts). (a, ts[i := t])) (threads impl)"
  "worker_mutex (put_thread i t impl) = worker_mutex impl" "rest_parts (put_thread i t impl) = rest_parts impl"
  by (simp_all add: put_thread_def rest_parts_def core_blocks_def sync_blocks_def context_blocks_def
      sections_of_def shaped_def)

lemma custody_same:
  assumes "custody w0 impl w" "rest_parts impl' = rest_parts impl" "threads impl' = threads impl"
  shows "custody w0 impl' w"
proof -
  note same = rest_parts_same [OF assms(2)]
  have "crew_blocks impl' = crew_blocks impl" "crew_handles impl' = crew_handles impl"
    using assms(3) by (simp_all add: crew_blocks_def crew_handles_def)
  then have "parts impl' = parts impl" using same by (simp add: parts_def blocks_def [of impl])
  from custody_parts [OF this] assms(1) show ?thesis by simp
qed

lemma wp_start_worker:
  assumes cus: "custody w0 impl w" and st: "staffed impl" "thread_at impl i = Some zero_thread"
    and bad: "\<And>p w'. custody w0 (count_startup_failure (enlisted i p impl)) w'
       \<Longrightarrow> P (SCHEDULER_ERROR_SYSTEM, count_startup_failure (enlisted i p impl)) w'"
    and good: "\<And>p t w'. custody w0 (hired i p t impl) w' \<Longrightarrow> start_result (start t) = 0
       \<Longrightarrow> P (SCHEDULER_OK, hired i p t impl) w'"
  shows "wp (start_worker i impl) P w"
proof -
  obtain a ts where ts: "threads impl = Some (a, ts)" "i < length ts" "ts ! i = zero_thread"
    using st(2) by (auto simp: thread_at_def split: option.splits if_splits)
  obtain l where l: "mutex_impl (worker_mutex impl) = Some l" "l \<in> sections w" "l \<notin> set (held w)"
    using custody_crew [OF cus] st(1) by (auto simp: staffed_def elim: crew_okE)
  have own: "owns w0 w (set (blocks impl)) (set (sections_of impl)) (set (crew_handles impl))"
    using cus by (simp add: custody_def)
  let ?p = "snd (fault_fires (fault_plan impl) SCHEDULER_FAULT_WORKER_CREATION)"
  let ?impl = "enlisted i ?p impl"
  have enl: "(put_context i ((the (context_at impl i))\<lparr>ctx_scheduler := Some (sched_block impl),
      worker_index := of_nat i\<rparr>) impl)\<lparr>fault_plan := ?p\<rparr> = ?impl"
    by (simp add: enlisted_def)
  have at: "thread_at ?impl i = Some zero_thread" using st(2) by (simp add: thread_at_def)
  have same: "put_thread i zero_thread ?impl = ?impl"
    using ts by (simp add: put_thread_def list_update_same_conv)
  have counted: "custody w0 (count_startup_failure ?impl) w'" if "owns w0 w' (set (blocks impl)) (set (sections_of impl))
      (set (crew_handles impl))" for w'
  proof -
    have "custody w0 impl w'" using cus that by (simp add: custody_def)
    then show ?thesis by (rule custody_same) (simp_all add: count_startup_failure_def rest_parts_def
      core_blocks_def sync_blocks_def context_blocks_def sections_of_def shaped_def enlisted_def put_context_def
      split: prod.splits option.splits)
  qed
  have unlock: "wp (sched_mutex_unlock (Some (worker_mutex impl))) Q (w'\<lparr>held := l # held w'\<rparr>)"
    if "owns w0 w' B (set (sections_of impl)) H" "Q SCHED_SYNC_OK w'" for w' B H Q
  proof (rule wp_unlock [OF l(1)])
    have "l \<in> set (sections_of impl)" using l(1) st(1) by (simp add: sections_of_def staffed_def)
    then show "l \<in> sections (w'\<lparr>held := l # held w'\<rparr>)" using that(1) by (simp add: owns_def)
  qed (use that(2) in simp_all)
  have failed: "wp (let impl = count_startup_failure (put_thread i (the (Some zero_thread)) ?impl)
      in State_Monad.bind (sched_mutex_unlock (Some (worker_mutex impl)))
         (\<lambda>_. ret (SCHEDULER_ERROR_SYSTEM, impl))) P (w'\<lparr>held := l # held w'\<rparr>)"
    if "owns w0 w' (set (blocks impl)) (set (sections_of impl)) (set (crew_handles impl))" for w'
    using unlock [OF that] bad [OF counted [OF that]] by (simp add: same Let_def)
  let ?hire = "\<lambda>x y h. \<lparr>thread_block = x, handle = h, start = \<lparr>start_block = y, start_function = worker_entry_pointer,
      user_context = Element (fst (the (worker_contexts ?impl))) i, start_result = 0\<rparr>\<rparr>"
  have made: "wp (let impl = (put_thread i \<lparr>thread_impl = Some (?hire x y h)\<rparr> ?impl)\<lparr>
        started_worker_count := started_worker_count (put_thread i \<lparr>thread_impl = Some (?hire x y h)\<rparr> ?impl) + 1,
        created_worker_count := created_worker_count (put_thread i \<lparr>thread_impl = Some (?hire x y h)\<rparr> ?impl) + 1\<rparr>
      in State_Monad.bind (sched_mutex_unlock (Some (worker_mutex impl)))
         (\<lambda>unlocked. ret (if unlocked \<noteq> SCHED_SYNC_OK then SCHEDULER_ERROR_SYSTEM else SCHEDULER_OK, impl)))
      P (w'\<lparr>held := l # held w'\<rparr>)"
    if "x \<notin> set (blocks impl)" "y \<notin> insert x (set (blocks impl))" "h \<notin> set (crew_handles impl)"
      "owns w0 w' (insert y (insert x (set (blocks impl)))) (set (sections_of impl)) (insert h (set (crew_handles impl)))"
    for x y h w'
  proof -
    have "custody w0 (hired i ?p (?hire x y h) impl) w'"
      by (rule custody_gains_thread [OF cus ts that, where t = "?hire x y h"])
        (simp_all add: hired_def Let_def ts rest_parts_def put_thread_def core_blocks_def sync_blocks_def
          context_blocks_def sections_of_def shaped_def enlisted_def put_context_def split: option.splits prod.splits)
    from good [OF this] unlock [OF that(4)] show ?thesis by (simp add: hired_def Let_def)
  qed
  let ?c = "put_context i ((the (context_at impl i))\<lparr>ctx_scheduler := Some (sched_block impl),
      worker_index := of_nat i\<rparr>) impl"
  have ctx: "worker_mutex ?c = worker_mutex impl" "fault_plan ?c = fault_plan impl"
    by (simp_all add: put_context_def)
  have create: "wp (if fault then ret (SCHED_SYNC_ERROR_SYSTEM, Some zero_thread)
      else sched_thread_create (Some zero_thread) (Some worker_entry_pointer) (Element (fst (the (worker_contexts ?impl))) i)) Q
      (w\<lparr>held := l # held w\<rparr>)"
    if bad': "\<And>w'. owns w0 w' (set (blocks impl)) (set (sections_of impl)) (set (crew_handles impl))
        \<Longrightarrow> Q (SCHED_SYNC_ERROR_SYSTEM, Some zero_thread) (w'\<lparr>held := l # held w'\<rparr>)"
      and good': "\<And>x y h w'. x \<notin> set (blocks impl) \<Longrightarrow> y \<notin> insert x (set (blocks impl)) \<Longrightarrow> h \<notin> set (crew_handles impl)
        \<Longrightarrow> owns w0 w' (insert y (insert x (set (blocks impl)))) (set (sections_of impl)) (insert h (set (crew_handles impl)))
        \<Longrightarrow> Q (SCHED_SYNC_OK, Some \<lparr>thread_impl = Some (?hire x y h)\<rparr>) (w'\<lparr>held := l # held w'\<rparr>)" for fault Q
  proof (cases fault)
    case True
    with bad' [OF own] show ?thesis by simp
  next
    case False
    have held: "held w' = held w" if "owns w0 w' B S H" for w' B S H using that own by (simp add: owns_def)
    have "wp (sched_thread_create (Some zero_thread) (Some worker_entry_pointer) (Element (fst (the (worker_contexts ?impl))) i))
        (\<lambda>r w'. Q r (w'\<lparr>held := l # held w\<rparr>)) w"
      by (rule wp_thread_create [OF own]) (use bad' good' held in \<open>auto simp: zero_thread_def\<close>)
    with False show ?thesis by (simp add: wp_under_lock)
  qed
  show ?thesis
    unfolding start_worker_def Let_def [of ?c] wp_bind ctx(1)
    apply (rule wp_lock [OF l(1,2)])
    apply (simp add: injected_eq ctx enl del: wp_if split del: if_split)
    apply (unfold at)
    apply (rule create)
    subgoal for w' using failed [of w'] by (simp add: Let_def)
    subgoal for x y h w' using made [of x y h w'] by (simp add: Let_def)
    done
qed

lemma wp_thread_join:
  assumes "owns w0 w B S H" "thread_impl t = Some x" "handle x \<in> H"
    and "\<not> next_answer w \<Longrightarrow> P (SCHED_SYNC_ERROR_SYSTEM, None) (w\<lparr>fate := tl (fate w)\<rparr>)"
    and "next_answer w \<Longrightarrow> P (SCHED_SYNC_OK, Some (start_result (start x))) (w\<lparr>fate := tl (fate w)\<rparr>)"
  shows "wp (sched_thread_join (Some t) True) P w"
proof -
  have "handle x \<in> handles w" using assms(1,3) by (auto simp: owns_def)
  with assms(2,4,5) show ?thesis
    by (simp add: sched_thread_join_def WaitForSingleObject_def wp_def run_ask_eq)
qed

text \<open>What a round of the joining loop makes of a worker that ended with \<open>wr\<close>.\<close>

definition join_fault :: "SchedulerImplementation \<Rightarrow> bool" where
  "join_fault impl = fst (fault_fires (fault_plan impl) SCHEDULER_FAULT_WORKER_JOIN)"

definition dismissed :: "nat \<Rightarrow> int \<Rightarrow> SchedulerImplementation \<Rightarrow> SchedulerImplementation" where
  "dismissed i wr impl = (let
     impl' = impl\<lparr>fault_plan := snd (fault_fires (fault_plan impl) SCHEDULER_FAULT_WORKER_JOIN)\<rparr>;
     impl' = (if join_fault impl then count_join_failure impl' else impl');
     impl' = (if join_fault impl \<or> wr \<noteq> WORKER_RESULT_OK then impl'
        else impl'\<lparr>joined_worker_count := joined_worker_count impl' + 1\<rparr>)
     in put_thread i \<lparr>thread_impl = None\<rparr> impl')"

definition release_result :: "int \<Rightarrow> SchedulerImplementation \<Rightarrow> SchedulerResult \<Rightarrow> SchedulerResult" where
  "release_result wr impl r = (if join_fault impl \<or> wr \<noteq> WORKER_RESULT_OK then SCHEDULER_ERROR_SYSTEM else r)"

lemma wp_note_failure:
  assumes "crew_ok impl w" "P (count_join_failure impl) w"
  shows "wp (note_join_failure impl) P w"
  using assms by (simp add: wp_def run_note_join_failure)

lemma plan_keeps [simp]:
  "rest_parts (impl\<lparr>fault_plan := p\<rparr>) = rest_parts impl" "rest_parts (count_join_failure impl) = rest_parts impl"
  "rest_parts (impl\<lparr>joined_worker_count := k\<rparr>) = rest_parts impl"
  "threads (count_join_failure impl) = threads impl"
  by (simp_all add: rest_parts_def core_blocks_def sync_blocks_def context_blocks_def
      sections_of_def shaped_def count_join_failure_def split: prod.splits)

lemma dismissed_parts:
  "rest_parts (dismissed i wr impl) = rest_parts impl"
  "threads (dismissed i wr impl) = map_option (\<lambda>(a, ts). (a, ts[i := \<lparr>thread_impl = None\<rparr>])) (threads impl)"
  by (simp_all add: dismissed_def Let_def)

lemma sections_in: "shaped impl \<Longrightarrow> set (sections_of impl) \<subseteq> set (core_blocks impl @ sync_blocks impl)"
  by (erule shapedE) (auto simp: sections_of_def core_blocks_def sync_blocks_def)

lemma thread_in_custody:
  assumes cus: "custody w0 impl w" and ts: "threads impl = Some (a, ts)" "i < length ts" "thread_impl (ts ! i) = Some x"
  shows "handle x \<in> set (crew_handles impl)" "thread_block x \<in> set (blocks impl)"
    "start_block (start x) \<in> set (blocks impl)" "thread_block x \<noteq> start_block (start x)"
    "thread_block x \<notin> set (sections_of impl)" "start_block (start x) \<notin> set (sections_of impl)"
proof -
  have crew: "crew_blocks impl = a # concat (map thread_blocks (take i ts)) @ [thread_block x, start_block (start x)]
      @ concat (map thread_blocks (drop (Suc i) ts))"
    "crew_handles impl = concat (map thread_handles (take i ts)) @ [handle x] @ concat (map thread_handles (drop (Suc i) ts))"
    using ts concat_update(2) [OF ts(2), of thread_blocks] concat_update(2) [OF ts(2), of thread_handles]
    by (simp_all add: crew_blocks_def crew_handles_def thread_blocks_def [of "ts ! i"] thread_handles_def [of "ts ! i"])
  have d: "distinct (blocks impl)" and sh: "shaped impl" using cus by (simp_all add: custody_def)
  show "handle x \<in> set (crew_handles impl)" "thread_block x \<in> set (blocks impl)"
    "start_block (start x) \<in> set (blocks impl)" by (simp_all add: crew blocks_def)
  show "thread_block x \<noteq> start_block (start x)" using d by (auto simp: crew blocks_def)
  show "thread_block x \<notin> set (sections_of impl)" "start_block (start x) \<notin> set (sections_of impl)"
    using d sections_in [OF sh] by (auto simp: crew blocks_def)
qed

lemma wp_release_worker:
  assumes cus: "custody w0 impl w" and sync: "worker_sync_initialized impl"
    and none: "(\<And>t. thread_at impl i = Some t \<Longrightarrow> thread_impl t = None) \<Longrightarrow> P (aj, r, impl) w"
    and bad: "\<And>w' t x. thread_at impl i = Some t \<Longrightarrow> thread_impl t = Some x \<Longrightarrow> \<not> next_answer w
      \<Longrightarrow> custody w0 (count_join_failure impl) w' \<Longrightarrow> P (False, SCHEDULER_ERROR_SYSTEM, count_join_failure impl) w'"
    and good: "\<And>w' t x wr. thread_at impl i = Some t \<Longrightarrow> thread_impl t = Some x \<Longrightarrow> next_answer w
      \<Longrightarrow> wr = start_result (start x) \<Longrightarrow> custody w0 (dismissed i wr impl) w'
      \<Longrightarrow> P (aj, release_result wr impl r, dismissed i wr impl) w'"
  shows "wp (release_worker i (aj, r, impl)) P w"
proof (cases "\<exists>t x. thread_at impl i = Some t \<and> thread_impl t = Some x")
  case False
  with none have "P (aj, r, impl) w" by (metis not_None_eq)
  with False show ?thesis by (auto simp: release_worker_def split: option.splits)
next
  case True
  then obtain t x where t: "thread_at impl i = Some t" "thread_impl t = Some x" by blast
  then obtain a ts where ts: "threads impl = Some (a, ts)" "i < length ts" "thread_impl (ts ! i) = Some x" "ts ! i = t"
    by (auto simp: thread_at_def split: option.splits if_splits)
  let ?w = "w\<lparr>fate := tl (fate w)\<rparr>"
  have own: "owns w0 w (set (blocks impl)) (set (sections_of impl)) (set (crew_handles impl))"
    using cus by (simp add: custody_def)
  then have own': "owns w0 ?w (set (blocks impl)) (set (sections_of impl)) (set (crew_handles impl))" by simp
  have cus': "custody w0 impl ?w" using cus by simp
  have crew: "crew_ok impl ?w" using custody_crew [OF cus' sync] .
  note part = thread_in_custody [OF cus ts(1-3)]
  let ?p = "snd (fault_fires (fault_plan impl) SCHEDULER_FAULT_WORKER_JOIN)"
  have failed: "custody w0 (count_join_failure impl) ?w"
    by (rule custody_same [OF cus']) simp_all
  have destroy: "wp (sched_thread_destroy (Some t)) (\<lambda>t'. wp (ret (aj, r', put_thread i (the t') impl')) P) ?w"
    if "put_thread i \<lparr>thread_impl = None\<rparr> impl' = dismissed i wr impl" "r' = release_result wr impl r"
      "wr = start_result (start x)" "next_answer w" for impl' r' wr
  proof (rule wp_thread_destroy [OF own' t(2) part])
    fix w' assume "owns w0 w' (set (blocks impl) - {start_block (start x)} - {thread_block x})
      (set (sections_of impl)) (set (crew_handles impl) - {handle x})"
    then have "custody w0 (dismissed i wr impl) w'"
      by (rule custody_loses_thread [OF cus ts(1-3)]) (simp_all add: dismissed_parts ts(1))
    from good [OF t that(4,3) this] show "wp (ret (aj, r', put_thread i (the (Some (t\<lparr>thread_impl := None\<rparr>))) impl')) P w'"
      by (simp add: that(1,2))
  qed
  obtain l where l: "mutex_impl (worker_mutex impl) = Some l" "l \<in> sections ?w"
    using crew by (auto elim: crew_okE)
  let ?wr = "start_result (start x)"
  have joined: "wp (State_Monad.bind (if fst (fault_fires (fault_plan impl) SCHEDULER_FAULT_WORKER_JOIN)
        then State_Monad.bind (note_join_failure (impl\<lparr>fault_plan := ?p\<rparr>))
          (\<lambda>impl. ret (SCHEDULER_ERROR_SYSTEM, WORKER_RESULT_SYNCHRONIZATION, impl))
        else ret (r, ?wr, impl\<lparr>fault_plan := ?p\<rparr>))
      (\<lambda>(result, worker_result, impl). State_Monad.bind
        (if worker_result \<noteq> WORKER_RESULT_OK then ret (SCHEDULER_ERROR_SYSTEM, impl)
         else State_Monad.bind (sched_mutex_lock (Some (worker_mutex impl)))
           (\<lambda>locked. if locked \<noteq> SCHED_SYNC_OK then ret (SCHEDULER_ERROR_SYSTEM, impl)
              else let impl = impl\<lparr>joined_worker_count := joined_worker_count impl + 1\<rparr>
                in State_Monad.bind (sched_mutex_unlock (Some (worker_mutex impl)))
                  (\<lambda>unlocked. ret (if unlocked \<noteq> SCHED_SYNC_OK then SCHEDULER_ERROR_SYSTEM else result, impl))))
        (\<lambda>(result, impl). State_Monad.bind (sched_thread_destroy (Some t))
          (\<lambda>t. ret (aj, result, put_thread i (the t) impl))))) P ?w"
    if ans: "next_answer w"
  proof (cases "join_fault impl")
    case True
    have crew': "crew_ok (impl\<lparr>fault_plan := ?p\<rparr>) ?w" using crew by (simp add: crew_ok_def)
    have "wp (sched_thread_destroy (Some t)) (\<lambda>t'. wp (ret (aj, SCHEDULER_ERROR_SYSTEM,
        put_thread i (the t') (count_join_failure (impl\<lparr>fault_plan := ?p\<rparr>)))) P) ?w"
      by (rule destroy [OF _ _ refl ans]) (simp_all add: dismissed_def release_result_def True Let_def)
    with True crew' show ?thesis
      by (simp add: join_fault_def) (rule wp_note_failure, simp_all)
  next
    case False
    note dest = destroy [OF _ _ refl ans]
    show ?thesis
    proof (cases "?wr = WORKER_RESULT_OK")
      case True
      have "wp (sched_thread_destroy (Some t)) (\<lambda>t'. wp (ret (aj, r, put_thread i (the t')
          (impl\<lparr>fault_plan := ?p, joined_worker_count := joined_worker_count impl + 1\<rparr>))) P) ?w"
        by (rule dest) (simp_all add: dismissed_def release_result_def True False Let_def)
      with True False l show ?thesis
        by (simp add: join_fault_def Let_def) (rule wp_lock [of _ l], simp_all, rule wp_unlock [of _ l], simp_all)
    next
      case wr: False
      have "wp (sched_thread_destroy (Some t)) (\<lambda>t'. wp (ret (aj, SCHEDULER_ERROR_SYSTEM, put_thread i (the t')
          (impl\<lparr>fault_plan := ?p\<rparr>))) P) ?w"
        by (rule dest) (simp_all add: dismissed_def release_result_def wr False Let_def)
      with wr False show ?thesis by (simp add: join_fault_def)
    qed
  qed
  show ?thesis
    unfolding release_worker_def prod.case t(1) option.case using t(2)
    apply (simp del: wp_bind)
    apply (simp only: wp_bind [of "sched_thread_join (Some t) True"])
    apply (rule wp_thread_join [OF own t(2) part(1)])
    using wp_note_failure [OF crew] bad [OF t _ failed] joined by (auto simp: Let_def injected_eq)
qed

text \<open>What is left of the workers after the last round.\<close>

definition disbanded :: "SchedulerImplementation \<Rightarrow> SchedulerImplementation" where
  "disbanded impl = (fold collect (started_contexts impl) impl)\<lparr>worker_contexts := None, threads := None,
     started_worker_count := 0, ready_worker_count := 0\<rparr>"

definition all_dismissed :: "SchedulerImplementation \<Rightarrow> bool" where
  "all_dismissed impl \<longleftrightarrow> (\<forall>a ts t. threads impl = Some (a, ts) \<longrightarrow> t \<in> set ts \<longrightarrow> thread_impl t = None)"

lemma collect_keeps:
  "worker_contexts (fold collect cs impl) = worker_contexts impl" "threads (fold collect cs impl) = threads impl"
  "worker_mutex (fold collect cs impl) = worker_mutex impl" "rest_parts (fold collect cs impl) = rest_parts impl"
  "worker_infrastructure_failure (fold collect cs impl) = worker_infrastructure_failure impl"
proof -
  have one: "worker_contexts (collect c impl) = worker_contexts impl \<and> threads (collect c impl) = threads impl
    \<and> worker_mutex (collect c impl) = worker_mutex impl \<and> rest_parts (collect c impl) = rest_parts impl
    \<and> worker_infrastructure_failure (collect c impl) = worker_infrastructure_failure impl" for c impl
    by (simp add: collect_def rest_parts_def core_blocks_def sync_blocks_def context_blocks_def
      sections_of_def shaped_def split: prod.splits)
  show "worker_contexts (fold collect cs impl) = worker_contexts impl" "threads (fold collect cs impl) = threads impl"
    "worker_mutex (fold collect cs impl) = worker_mutex impl" "rest_parts (fold collect cs impl) = rest_parts impl"
    "worker_infrastructure_failure (fold collect cs impl) = worker_infrastructure_failure impl"
    by (induction cs arbitrary: impl) (simp_all add: one)
qed

lemma dismissed_crew:
  assumes "all_dismissed impl"
  shows "crew_handles impl = []" "crew_blocks impl = map fst (case threads impl of None \<Rightarrow> [] | Some x \<Rightarrow> [x])"
  using assms by (auto simp: all_dismissed_def crew_handles_def crew_blocks_def thread_handles_def thread_blocks_def
      split: option.splits)

lemma wp_release_finish:
  assumes cus: "custody w0 impl w" and sync: "worker_sync_initialized impl" and gone: "all_dismissed impl"
    and fin: "\<And>w'. custody w0 (disbanded impl) w' \<Longrightarrow> P (if worker_infrastructure_failure impl
       then SCHEDULER_ERROR_SYSTEM else r, disbanded impl) w'"
  shows "wp (release_finish (True, r, impl)) P w"
proof -
  let ?i = "fold collect (started_contexts impl) impl"
  obtain l where l: "mutex_impl (worker_mutex impl) = Some l" "l \<in> sections w" "l \<in> set (sections_of impl)"
    using custody_crew [OF cus sync] sync by (auto elim!: crew_okE simp: sections_of_def)
  have own: "owns w0 w (set (blocks impl)) (set (sections_of impl)) {}" and d: "distinct (blocks impl)"
    and sh: "shaped impl"
    using cus dismissed_crew(1) [OF gone] by (simp_all add: custody_def)
  have bl: "blocks impl = core_blocks impl @ sync_blocks impl @ context_blocks impl @ crew_blocks impl"
    by (simp add: blocks_def)
  have ctx: "context_blocks impl = map fst (case worker_contexts impl of None \<Rightarrow> [] | Some x \<Rightarrow> [x])"
    by (auto simp: context_blocks_def split: option.splits)
  let ?left = "set (blocks impl) - set_option (map_option fst (worker_contexts impl))
     - set_option (map_option fst (threads impl))"
  have left: "?left = set (core_blocks impl @ sync_blocks impl)"
    using d by (auto simp: bl ctx dismissed_crew(2) [OF gone] split: option.splits)
  have done': "custody w0 (disbanded impl) w'" if "owns w0 w' ?left (set (sections_of impl)) {}" for w'
  proof -
    have rp: "core_blocks ?i @ sync_blocks ?i @ context_blocks ?i
        = core_blocks impl @ sync_blocks impl @ context_blocks impl"
      "sections_of ?i = sections_of impl" "shaped ?i = shaped impl"
      using collect_keeps(4) [of "started_contexts impl" impl] by (simp_all add: rest_parts_def)
    have "context_blocks ?i = context_blocks impl" by (simp add: context_blocks_def collect_keeps)
    with rp(1) have core: "core_blocks ?i @ sync_blocks ?i = core_blocks impl @ sync_blocks impl" by simp
    have "blocks (disbanded impl) = core_blocks ?i @ sync_blocks ?i" "sections_of (disbanded impl) = sections_of ?i"
      "crew_handles (disbanded impl) = []" "shaped (disbanded impl) = shaped ?i"
      by (simp_all add: disbanded_def blocks_def core_blocks_def sync_blocks_def context_blocks_def crew_blocks_def
        sections_of_def crew_handles_def shaped_def)
    moreover have "distinct (core_blocks impl @ sync_blocks impl)" using d by (auto simp: bl)
    ultimately show ?thesis using rp core that left sh by (simp add: custody_def)
  qed
  have inS: "a \<notin> set (sections_of impl)" if "a \<in> set (context_blocks impl @ crew_blocks impl)" for a
    using that d sections_in [OF sh] by (auto simp: bl)
  have free1: "wp (free (map_option fst (worker_contexts impl))) Q w'"
    if "owns w0 w' (set (blocks impl)) (set (sections_of impl)) {}"
      "\<And>w''. owns w0 w'' (set (blocks impl) - set_option (map_option fst (worker_contexts impl)))
         (set (sections_of impl)) {} \<Longrightarrow> Q () w''" for Q w'
    by (rule wp_free_option [OF that(1)]) (use that(2) inS in \<open>auto simp: bl ctx\<close>)
  have free2: "wp (free (map_option fst (threads impl))) Q w'"
    if "owns w0 w' (set (blocks impl) - set_option (map_option fst (worker_contexts impl))) (set (sections_of impl)) {}"
      "\<And>w''. owns w0 w'' ?left (set (sections_of impl)) {} \<Longrightarrow> Q () w''" for Q w'
    by (rule wp_free_option [OF that(1)])
      (use that(2) inS d in \<open>auto simp: bl ctx dismissed_crew(2) [OF gone] split: option.splits\<close>)
  have held: "held w' = held w" if "owns w0 w' B S H" for w' B S H using that own by (simp add: owns_def)
  have frees: "wp (free (map_option fst (worker_contexts impl))) (\<lambda>_. wp (free (map_option fst (threads impl))) Q)
      (w\<lparr>held := l # held w\<rparr>)"
    if "\<And>w'. owns w0 w' ?left (set (sections_of impl)) {} \<Longrightarrow> Q () (w'\<lparr>held := l # held w'\<rparr>)" for Q
    apply (rule wp_under_lock, simp)
    apply (rule free1 [OF own])
    apply (rule wp_under_lock, simp)
    apply (rule free2, assumption)
    subgoal for w1 w2 using that [of w2] held [of w2] by simp
    done
  define r' where "r' = (if worker_infrastructure_failure impl then SCHEDULER_ERROR_SYSTEM else r)"
  show ?thesis
    unfolding release_finish_def prod.case Let_def r'_def [symmetric]
    apply (simp add: collect_keeps)
    apply (rule wp_lock [OF l(1,2)])
    apply (simp add: collect_keeps)
    apply (rule frees)
    apply (rule wp_unlock [OF l(1)])
      subgoal for w' using l(3) by (simp add: owns_def)
     apply simp
    subgoal for w' using fin [OF done', of w'] by (simp add: disbanded_def flip: r'_def)
    done
qed

section \<open>All workers\<close>

lemma wp_conseq: "wp m Q w \<Longrightarrow> (\<And>r w'. Q r w' \<Longrightarrow> P r w') \<Longrightarrow> wp m P w"
  by (simp add: wp_def)

text \<open>A worker thread that is still to be joined, and what the release leaves alone.\<close>

definition present :: "SchedulerImplementation \<Rightarrow> nat \<Rightarrow> bool" where
  "present impl i \<longleftrightarrow> (case thread_at impl i of None \<Rightarrow> False | Some t \<Rightarrow> thread_impl t \<noteq> None)"

lemma present_iff: "present impl i \<longleftrightarrow> (\<exists>t. thread_at impl i = Some t \<and> thread_impl t \<noteq> None)"
  by (auto simp: present_def split: option.splits)

definition outer :: "SchedulerImplementation
    \<Rightarrow> SchedulerState \<times> size_t \<times> size_t \<times> ConcurrentTaskQueue \<times> u64 \<times> u64 \<times> u64 \<times> bool" where
  "outer impl = (sched_state impl, active_submitter_count impl, worker_count impl, task_queue impl,
     submitted_count impl, accepted_count impl, rejected_count impl, lifecycle_accounting_overflow impl)"

lemma all_dismissed_present: "all_dismissed impl \<longleftrightarrow> (\<forall>i. \<not> present impl i)"
proof (cases "threads impl")
  case (Some x)
  then show ?thesis by (cases x) (auto simp: all_dismissed_def present_iff thread_at_def in_set_conv_nth)
qed (simp add: all_dismissed_def present_iff thread_at_def)

lemma dismissed_present: "present (dismissed i wr impl) j \<longleftrightarrow> present impl j \<and> j \<noteq> i"
  by (cases "j = i") (auto simp: present_iff thread_at_def dismissed_parts split: option.splits if_splits)

lemma dismissed_outer:
  "outer (dismissed i wr impl) = outer impl" "worker_sync_initialized (dismissed i wr impl) = worker_sync_initialized impl"
  "started_worker_count (dismissed i wr impl) = started_worker_count impl"
  by (simp_all add: dismissed_def outer_def put_thread_def count_join_failure_def Let_def split: prod.splits)

lemma join_failure_outer:
  "outer (count_join_failure impl) = outer impl" "present (count_join_failure impl) j = present impl j"
  "worker_sync_initialized (count_join_failure impl) = worker_sync_initialized impl"
  "started_worker_count (count_join_failure impl) = started_worker_count impl"
  by (simp_all add: count_join_failure_def outer_def present_iff thread_at_def split: prod.splits)

definition loop_result ::
  "world \<Rightarrow> nat list \<Rightarrow> bool \<times> SchedulerResult \<times> SchedulerImplementation
     \<Rightarrow> bool \<times> SchedulerResult \<times> SchedulerImplementation \<Rightarrow> world \<Rightarrow> bool" where
  "loop_result w0 is acc acc' w' \<longleftrightarrow> (case (acc, acc') of ((aj, r, impl), (aj', r', impl')) \<Rightarrow>
     custody w0 impl' w' \<and> outer impl' = outer impl \<and> worker_sync_initialized impl'
     \<and> started_worker_count impl' = started_worker_count impl
     \<and> (\<forall>j. present impl' j \<longrightarrow> present impl j) \<and> (\<forall>j. j \<notin> set is \<longrightarrow> present impl' j = present impl j)
     \<and> (aj' \<longrightarrow> aj \<and> (\<forall>i \<in> set is. \<not> present impl' i))
     \<and> (\<not> aj' \<longrightarrow> aj \<longrightarrow> (\<exists>j \<in> set is. present impl' j)))"

lemma wp_release_loop:
  assumes "custody w0 impl w" "worker_sync_initialized impl" "distinct is"
  shows "wp (release_loop is (aj, r, impl)) (loop_result w0 is (aj, r, impl)) w"
  using assms
proof (induction "is" arbitrary: aj r impl w)
  case Nil
  then show ?case by (simp add: loop_result_def)
next
  case (Cons i "is")
  have next': "wp (release_loop is (aj', r', impl')) (loop_result w0 (i # is) (aj, r, impl)) w'"
    if "custody w0 impl' w'" "outer impl' = outer impl" "worker_sync_initialized impl'"
      "started_worker_count impl' = started_worker_count impl"
      "\<And>j. j \<noteq> i \<Longrightarrow> present impl' j = present impl j" "present impl' i \<longrightarrow> present impl i"
      "aj' \<longrightarrow> aj \<and> \<not> present impl' i" "\<not> aj' \<longrightarrow> aj \<longrightarrow> present impl' i"
    for aj' r' impl' w'
  proof (rule wp_conseq [OF Cons.IH [OF that(1,3)]])
    show "distinct is" using Cons.prems by simp
    fix acc w'' assume loop: "loop_result w0 is (aj', r', impl') acc w''"
    obtain a b c where acc: "acc = (a, b, c)" by (cases acc)
    have all: "present c j \<Longrightarrow> present impl j" for j
      using loop that(5,6) by (cases "j = i") (auto simp: loop_result_def acc)
    have out: "present c j = present impl j" if "j \<notin> set (i # is)" for j
      using loop \<open>\<And>j. j \<noteq> i \<Longrightarrow> present impl' j = present impl j\<close> that by (simp add: loop_result_def acc)
    have i: "present c i = present impl' i" using loop Cons.prems(3) by (simp add: loop_result_def acc)
    have pos: "a \<Longrightarrow> aj \<and> (\<forall>j \<in> set (i # is). \<not> present c j)"
      using loop that(7) i by (simp add: loop_result_def acc)
    have neg: "\<exists>j \<in> set (i # is). present c j" if "\<not> a" aj
      using loop that \<open>\<not> aj' \<longrightarrow> aj \<longrightarrow> present impl' i\<close> i by (cases aj') (simp_all add: loop_result_def acc)
    show "loop_result w0 (i # is) (aj, r, impl) acc w''"
      unfolding loop_result_def acc prod.case
    proof (intro conjI allI impI)
      show "custody w0 c w''" "outer c = outer impl" "worker_sync_initialized c"
        "started_worker_count c = started_worker_count impl"
        using loop that(2,4) by (simp_all add: loop_result_def acc)
    qed (use all out pos neg in blast)+
  qed
  show ?case
    unfolding release_loop.simps wp_bind
  proof (rule wp_release_worker [OF Cons.prems(1,2)], goal_cases)
    case 1
    then have "\<not> present impl i" by (auto simp: present_iff)
    with Cons.prems show ?case by (intro next') auto
  next
    case (2 w' t x)
    then have "present impl i" by (auto simp: present_iff)
    with 2 Cons.prems show ?case by (intro next') (auto simp: join_failure_outer)
  next
    case (3 w' t x wr)
    with Cons.prems show ?case by (intro next') (auto simp: dismissed_outer dismissed_present)
  qed
qed

lemma collect_outer:
  "outer (fold collect cs impl) = outer impl"
  "worker_sync_initialized (fold collect cs impl) = worker_sync_initialized impl"
proof -
  have one: "outer (collect c impl) = outer impl \<and> worker_sync_initialized (collect c impl) = worker_sync_initialized impl"
    for c impl by (simp add: collect_def outer_def split: prod.splits)
  show "outer (fold collect cs impl) = outer impl"
    "worker_sync_initialized (fold collect cs impl) = worker_sync_initialized impl"
    by (induction cs arbitrary: impl) (simp_all add: one)
qed

lemma disbanded_fields [simp]:
  "threads (disbanded impl) = None" "worker_contexts (disbanded impl) = None"
  "started_worker_count (disbanded impl) = 0" "ready_worker_count (disbanded impl) = 0"
  "worker_sync_initialized (disbanded impl) = worker_sync_initialized impl"
  by (simp_all add: disbanded_def collect_outer)

lemma disbanded_outer: "outer (disbanded impl) = outer impl"
  using collect_outer(1) [of "started_contexts impl" impl] by (simp add: disbanded_def outer_def)

text \<open>
  The release ends in one of two ways: every worker is joined and nothing of the workers is
  left, or a join failed and the threads that were not joined are kept.
\<close>

definition bare :: "SchedulerImplementation \<Rightarrow> bool" where
  "bare impl \<longleftrightarrow> threads impl = None \<and> worker_contexts impl = None"

lemma wp_release_workers:
  assumes cus: "custody w0 impl w" "worker_sync_initialized impl"
    and beyond: "\<And>j. present impl j \<Longrightarrow> j < unat (started_worker_count impl)"
    and all: "\<And>r impl' w'. custody w0 impl' w' \<Longrightarrow> outer impl' = outer impl \<Longrightarrow> worker_sync_initialized impl'
       \<Longrightarrow> bare impl' \<Longrightarrow> P (r, impl') w'"
    and some: "\<And>impl' w' j. custody w0 impl' w' \<Longrightarrow> outer impl' = outer impl \<Longrightarrow> worker_sync_initialized impl'
       \<Longrightarrow> present impl' j \<Longrightarrow> P (SCHEDULER_ERROR_SYSTEM, impl') w'"
  shows "wp (release_workers impl) P w"
  unfolding release_workers_def wp_bind
proof (rule wp_conseq [OF wp_release_loop [OF cus]])
  let ?is = "[0..<unat (started_worker_count impl)]"
  show "distinct ?is" by simp
  fix acc w' assume loop: "loop_result w0 ?is (True, SCHEDULER_OK, impl) acc w'"
  obtain aj r i where acc: "acc = (aj, r, i)" by (cases acc)
  have i: "custody w0 i w'" "outer i = outer impl" "worker_sync_initialized i"
    using loop by (simp_all add: loop_result_def acc)
  have stay: "present impl j" if "present i j" for j using loop that by (simp add: loop_result_def acc)
  show "wp (release_finish acc) P w'"
  proof (cases aj)
    case True
    then have gone: "\<not> present i j" if "j < unat (started_worker_count impl)" for j
      using loop that by (simp add: loop_result_def acc)
    have "\<not> present i j" for j using gone [of j] beyond [of j] stay [of j] by (meson)
    then have "all_dismissed i" by (simp add: all_dismissed_present)
    then have "wp (release_finish (True, r, i)) P w'"
    proof (rule wp_release_finish [OF i(1,3)])
      fix w'' assume "custody w0 (disbanded i) w''"
      then show "P (if worker_infrastructure_failure i then SCHEDULER_ERROR_SYSTEM else r, disbanded i) w''"
        by (rule all) (simp_all add: disbanded_outer i(2,3) bare_def)
    qed
    with True show ?thesis by (simp add: acc)
  next
    case False
    then obtain j where "present i j" using loop by (auto simp: loop_result_def acc)
    from some [OF i(1-3) this] False show ?thesis by (simp add: release_finish_def acc)
  qed
qed

lemma wp_shut_queue:
  assumes cus: "custody w0 impl w" and cq: "cq_ok (task_queue impl) w"
    and fin: "\<And>q w'. custody w0 (impl\<lparr>task_queue := q\<rparr>) w' \<Longrightarrow> owned q = owned (task_queue impl)
       \<Longrightarrow> P (CONCURRENT_TASK_QUEUE_OK, impl\<lparr>task_queue := q\<rparr>) w'"
  shows "wp (shut_queue impl) P w"
proof -
  obtain q where q: "run_state (concurrent_task_queue_shutdown (Some (task_queue impl))) w
      = ((CONCURRENT_TASK_QUEUE_OK, Some q), issue (task_queue impl) [All_consumers, All_producers] w)"
    "owned q = owned (task_queue impl)"
    using shutdown_refined [OF cq] by (auto elim!: refinedE)
  have sec: "queue_section q = queue_section (task_queue impl)"
    using q(2) cq by (cases "implementation q"; cases "implementation (task_queue impl)")
      (auto simp: owned_def queue_section_def cq_ok_def)
  have "parts (impl\<lparr>task_queue := q\<rparr>) = parts impl"
    using q(2) sec by (simp add: parts_def blocks_def core_blocks_def queue_blocks_def sync_blocks_def context_blocks_def
      crew_blocks_def sections_of_def crew_handles_def shaped_def)
  from custody_parts [OF this, of w0 w] cus
  have "custody w0 (impl\<lparr>task_queue := q\<rparr>) (issue (task_queue impl) [All_consumers, All_producers] w)"
    by (simp add: issue_def)
  from fin [OF this q(2)] q(1) show ?thesis by (simp add: shut_queue_def wp_def)
qed

text \<open>Giving up a start: everything is given back, unless a join failed.\<close>

lemma wp_start_abort:
  assumes cus: "custody w0 impl w" "worker_sync_initialized impl" and cq: "cq_ok (task_queue impl) w"
    and beyond: "\<And>j. present impl j \<Longrightarrow> j < unat (started_worker_count impl)"
    and fin: "\<And>impl' w'. custody w0 impl' w' \<Longrightarrow> sched_state impl' = SCHEDULER_STATE_FAILED
       \<Longrightarrow> active_submitter_count impl' = active_submitter_count impl
       \<Longrightarrow> bare impl' \<or> (\<exists>j. present impl' j) \<Longrightarrow> P (SCHEDULER_ERROR_SYSTEM, impl') w'"
  shows "wp (start_abort impl) P w"
  unfolding start_abort_def wp_bind
proof (rule wp_shut_queue [OF cus(1) cq])
  fix q w1
  assume c1: "custody w0 (impl\<lparr>task_queue := q\<rparr>) w1"
  have keep: "present (impl\<lparr>task_queue := q\<rparr>) j = present impl j" for j by (simp add: present_iff thread_at_def)
  have state: "wp (set_scheduler_state i SCHEDULER_STATE_FAILED)
      (\<lambda>x. wp (case x of (_, impl) \<Rightarrow> ret (SCHEDULER_ERROR_SYSTEM, impl)) P) w2"
    if "custody w0 i w2" "outer i = outer (impl\<lparr>task_queue := q\<rparr>)" "bare i \<or> (\<exists>j. present i j)" for i w2
  proof (rule wp_set_state [OF custody_gate [OF that(1)]])
    have "parts (i\<lparr>sched_state := SCHEDULER_STATE_FAILED\<rparr>) = parts i"
      by (simp add: parts_def blocks_def core_blocks_def sync_blocks_def context_blocks_def crew_blocks_def
        sections_of_def crew_handles_def shaped_def)
    from custody_parts [OF this, of w0 w2] that(1)
    have "custody w0 (i\<lparr>sched_state := SCHEDULER_STATE_FAILED\<rparr>) w2" by simp
    then have "P (SCHEDULER_ERROR_SYSTEM, i\<lparr>sched_state := SCHEDULER_STATE_FAILED\<rparr>) w2"
      by (rule fin) (use that(2,3) in \<open>auto simp: outer_def bare_def present_iff thread_at_def\<close>)
    then show "wp (case (SCHEDULER_OK, i\<lparr>sched_state := SCHEDULER_STATE_FAILED\<rparr>) of
        (_, impl) \<Rightarrow> ret (SCHEDULER_ERROR_SYSTEM, impl)) P w2"
      by simp
  qed
  show "wp (case (CONCURRENT_TASK_QUEUE_OK, impl\<lparr>task_queue := q\<rparr>) of (_, impl) \<Rightarrow>
      State_Monad.bind (release_workers impl) (\<lambda>(_, impl). State_Monad.bind
        (set_scheduler_state impl SCHEDULER_STATE_FAILED) (\<lambda>(_, impl). ret (SCHEDULER_ERROR_SYSTEM, impl)))) P w1"
    unfolding prod.case wp_bind
  proof (rule wp_release_workers [OF c1], goal_cases)
    case (2 j)
    then show ?case using beyond [of j] keep [of j] by simp
  next
    case (3 r i w2)
    then show ?case using state [of i w2] by simp
  next
    case (4 i w2 j)
    then show ?case using state [of i w2] by auto
  qed (simp add: cus(2))
qed

end
