(* ===== verification/Scheduler_Calls.thy ===== *)
theory Scheduler_Calls
  imports Scheduler_Release
begin

text \<open>
  The scheduler's calls as a single caller sees them: initialization and destruction take and
  give back every resource, each call in each lifecycle state returns the code that the header
  promises, and a non-blocking submission has exactly the effect of its outcome.
\<close>

section \<open>Destruction\<close>

text \<open>The scheduler can be destroyed: no submitter, no worker, and a state that allows it.\<close>

definition settled :: "SchedulerImplementation \<Rightarrow> bool" where
  "settled impl \<longleftrightarrow> bare impl \<and> active_submitter_count impl = 0
     \<and> sched_state impl \<in> {SCHEDULER_STATE_INITIALIZED, SCHEDULER_STATE_STOPPED, SCHEDULER_STATE_FAILED}"

lemma destroy_settled:
  assumes cus: "custody w0 impl w" and "settled impl"
  obtains w' where "run_state (scheduler_destroy (Some \<lparr>sched_impl = Some impl\<rparr>)) w
      = ((SCHEDULER_OK, Some \<lparr>sched_impl = None\<rparr>), w')" "same_resources w0 w'"
proof -
  obtain l where l: "mutex_impl (lifecycle_mutex impl) = Some l" "l \<in> sections w" "l \<notin> set (held w)"
    using custody_gate [OF cus] by (auto elim: gate_okE)
  have "wp (destroy_parts impl) (\<lambda>_ w'. same_resources w0 w') w"
    using assms(2) by (intro wp_destroy_parts [OF cus]) (auto simp: settled_def bare_def dest: owns_done)
  then have "same_resources w0 (snd (run_state (destroy_parts impl) w))" by (simp add: wp_def)
  moreover have "run_state (scheduler_destroy (Some \<lparr>sched_impl = Some impl\<rparr>)) w
      = ((SCHEDULER_OK, Some \<lparr>sched_impl = None\<rparr>), snd (run_state (destroy_parts impl) w))"
    using l assms(2) by (auto simp: scheduler_destroy_def settled_def bare_def sync_simps split: prod.splits)
  ultimately show ?thesis using that by blast
qed

lemma destroy_refused:
  assumes "gate_ok impl w" "\<not> settled impl"
  shows "run_state (scheduler_destroy (Some \<lparr>sched_impl = Some impl\<rparr>)) w
    = ((SCHEDULER_ERROR_INVALID_STATE, Some \<lparr>sched_impl = Some impl\<rparr>), w)"
  using assms by (auto elim!: gate_okE simp: scheduler_destroy_def settled_def bare_def sync_simps)

lemma fresh_settled: "fresh_scheduler cap n impl \<Longrightarrow> settled impl"
  by (auto simp: fresh_scheduler_def settled_def bare_def zero_scheduler_def)

lemma fresh_card:
  assumes "custody w impl w'" "fresh_scheduler cap n impl"
  shows "card (live w' - live w) = 8"
proof -
  have "sync_blocks impl = []" "context_blocks impl = []" "crew_blocks impl = []"
    using assms(2) by (auto simp: fresh_scheduler_def sync_blocks_def context_blocks_def crew_blocks_def zero_scheduler_def)
  moreover have "length (core_blocks impl) = 8"
    using assms(1) by (auto simp: custody_def core_blocks_def elim!: shapedE)
  moreover have "live w' - live w = set (blocks impl)" "distinct (blocks impl)"
    using assms(1) by (auto simp: custody_def owns_def)
  ultimately show ?thesis by (simp add: blocks_def distinct_card)
qed

section \<open>One submission\<close>

text \<open>What a submission adds to the counters, and when one of them has reached its end.\<close>

definition submission_counts :: "SchedulerImplementation \<Rightarrow> u64 \<times> u64 \<times> u64 \<times> bool" where
  "submission_counts impl = (submitted_count impl, accepted_count impl, rejected_count impl,
     lifecycle_accounting_overflow impl)"

definition has_room :: "SchedulerImplementation \<Rightarrow> bool" where
  "has_room impl \<longleftrightarrow> submitted_count impl \<noteq> UINT64_MAX \<and> accepted_count impl \<noteq> UINT64_MAX
     \<and> rejected_count impl \<noteq> UINT64_MAX"

lemma counted_submission:
  assumes "has_room impl" "sched_state impl = SCHEDULER_STATE_RUNNING"
  shows "submission_counts (discharged r ((admitted impl)\<lparr>task_queue := q\<rparr>))
    = (submitted_count impl + 1, accepted_count impl + (if r = SCHEDULER_OK then 1 else 0),
       rejected_count impl + (if r = SCHEDULER_OK then 0 else 1), lifecycle_accounting_overflow impl)"
  using assms by (simp add: submission_counts_def has_room_def admitted_def discharged_def count_defs bump_eq Let_def)

lemma counted_refusal:
  assumes "has_room impl" "sched_state impl \<noteq> SCHEDULER_STATE_RUNNING"
  shows "submission_counts (admitted impl)
    = (submitted_count impl + 1, accepted_count impl, rejected_count impl + 1, lifecycle_accounting_overflow impl)"
  using assms by (simp add: submission_counts_def has_room_def admitted_def count_defs bump_eq)

lemma submission_keeps:
  "sched_state (admitted impl) = sched_state impl" "task_queue (admitted impl) = task_queue impl"
  "sync_parts (admitted impl) = sync_parts impl"
  "sched_state (discharged r impl) = sched_state impl" "task_queue (discharged r impl) = task_queue impl"
  "active_submitter_count (discharged r impl) = active_submitter_count impl - 1"
  by (simp_all add: admitted_def discharged_def count_defs sync_parts_def Let_def split: prod.splits)

lemma run_try_submit:
  assumes gate: "gate_ok impl w" and cq: "cq_ok (task_queue impl) w"
    and run: "sched_state impl = SCHEDULER_STATE_RUNNING" "active_submitter_count impl \<noteq> SIZE_MAX"
    and spec: "spec_try_enqueue ts t (cq_view (task_queue impl)) = (r, ks, A)"
  obtains q w' where "cq_view q = A" "cq_ok q w" "owned q = owned (task_queue impl)"
    "run_state (scheduler_try_submit ts (Some \<lparr>sched_impl = Some impl\<rparr>) (Some t)) w
      = ((map_try_enqueue_result r,
          Some \<lparr>sched_impl = Some (discharged (map_try_enqueue_result r) ((admitted impl)\<lparr>task_queue := q\<rparr>))\<rparr>), w')"
    "w' = (let w1 = issue (task_queue impl) ks w
       in if active_submitter_count impl = 0 then w1\<lparr>wakes := wakes w1 @ [gate_wake impl]\<rparr> else w1)"
proof -
  obtain q where q: "run_state (concurrent_task_queue_try_enqueue ts (Some (task_queue impl)) (Some t)) w
      = ((r, Some q), issue (task_queue impl) ks w)" "cq_ok q w" "owned q = owned (task_queue impl)" "cq_view q = A"
    using try_enqueue_refined [OF cq, of ts t] spec by (auto elim!: refinedE)
  let ?i = "(admitted impl)\<lparr>task_queue := q\<rparr>"
  have act: "active_submitter_count (admitted impl) = active_submitter_count impl + 1"
    using run(1) by (simp add: admitted_def)
  have sync: "sync_parts ?i = sync_parts impl" using submission_keeps(3) by (simp add: sync_parts_def)
  have gate': "gate_ok ?i (issue (task_queue impl) ks w)" using gate
    by (simp add: sync_parts_ok [OF sync] issue_def)
  have "active_submitter_count impl + 1 \<noteq> 0" using run(2) by (simp add: eq_neg_iff_add_eq_0 [symmetric])
  moreover have "active_submitter_count impl + 1 = 1 \<longleftrightarrow> active_submitter_count impl = 0" by simp
  ultimately have "run_state (deregister_submitter ?i (map_try_enqueue_result r)) (issue (task_queue impl) ks w)
      = ((map_try_enqueue_result r, discharged (map_try_enqueue_result r) ?i),
         if active_submitter_count impl = 0
         then (issue (task_queue impl) ks w)\<lparr>wakes := wakes (issue (task_queue impl) ks w) @ [gate_wake impl]\<rparr>
         else issue (task_queue impl) ks w)"
    using run_deregister [OF gate', of "map_try_enqueue_result r"] act by (simp add: sync_parts_ok [OF sync])
  then show ?thesis using run_register [OF gate, of t] run(1) q
    by (intro that [of q]) (simp_all add: scheduler_try_submit_def gate_result_def submission_keeps Let_def)
qed

section \<open>A small scheduler to try things on\<close>

definition sched_world :: world where
  "sched_world = \<lparr>next_block = 8, live = {0, 1, 2, 3, 4, 5, 6, 7}, sections = {2, 6}, held = [], handles = {},
     wakes = [], fate = [], misuse = False\<rparr>"

definition sample_sched :: SchedulerImplementation where
  "sample_sched = (zero_scheduler 5)\<lparr>task_queue := empty_sample, lifecycle_mutex := \<lparr>mutex_impl = Some 6\<rparr>,
     lifecycle_condition := \<lparr>cond_impl = Some 7\<rparr>, execute := Some 1, worker_count := 1\<rparr>"

lemma sample_sched_ok: "gate_ok sample_sched sched_world" "cq_ok (task_queue sample_sched) sched_world"
  by (simp_all add: gate_ok_def sample_sched_def sched_world_def empty_sample_def sample_impl_def cq_ok_def
      impl_ok_def queue_wf_def ring_def)

section \<open>Properties\<close>

text \<open>
  C14. Whatever allocation or native call fails, an init that does not succeed leaves the
  scheduler object and every resource as they were. One that succeeds takes eight heap blocks and
  leaves an initialized scheduler with an empty open queue of the requested bound, and destroying
  it succeeds and gives everything back.
\<close>

theorem scheduler_init_destroy:
  assumes "ledger_ok w" "set (held w) \<subseteq> sections w" "sched_impl s = None"
    and run: "run_state (scheduler_init (Some s) cap n (Some fn) fc) w = ((r, out), w')"
  shows "(r \<noteq> SCHEDULER_OK \<and> out = Some s \<and> same_resources w w')
    \<or> (r = SCHEDULER_OK \<and> card (live w' - live w) = 8
       \<and> (\<exists>impl w''. out = Some \<lparr>sched_impl = Some impl\<rparr> \<and> fresh_scheduler cap n impl
            \<and> run_state (scheduler_destroy out) w' = ((SCHEDULER_OK, Some \<lparr>sched_impl = None\<rparr>), w'')
            \<and> same_resources w w''))"
proof (cases "cap = 0 \<or> n = 0")
  case True
  then show ?thesis using run by (auto simp: scheduler_init_def)
next
  case False
  then have args: "cap \<noteq> 0" "n \<noteq> 0" by auto
  have "wp (scheduler_init (Some s) cap n (Some fn) fc) (\<lambda>(r, out) w'.
      (r \<noteq> SCHEDULER_OK \<and> out = Some s \<and> same_resources w w')
    \<or> (r = SCHEDULER_OK \<and> (\<exists>impl. out = Some \<lparr>sched_impl = Some impl\<rparr> \<and> fresh_scheduler cap n impl
         \<and> custody w impl w'))) w"
    by (rule wp_init [OF owns_start [OF assms(1,2)] args assms(3)]) (auto dest: owns_done)
  from wp_run [OF this run]
  consider "r \<noteq> SCHEDULER_OK" "out = Some s" "same_resources w w'"
    | impl where "r = SCHEDULER_OK" "out = Some \<lparr>sched_impl = Some impl\<rparr>" "fresh_scheduler cap n impl" "custody w impl w'"
    by auto
  then show ?thesis
  proof cases
    case (2 impl)
    obtain w'' where "run_state (scheduler_destroy (Some \<lparr>sched_impl = Some impl\<rparr>)) w'
        = ((SCHEDULER_OK, Some \<lparr>sched_impl = None\<rparr>), w'')" "same_resources w w''"
      using destroy_settled [OF 2(4) fresh_settled [OF 2(3)]] .
    with 2 fresh_card [OF 2(4,3)] show ?thesis by simp
  qed simp
qed

theorem scheduler_init_destroy_witness:
  "ledger_ok sched_world \<and> (\<exists>r w'. run_state (scheduler_init (Some \<lparr>sched_impl = None\<rparr>) 4 2 (Some 1) None)
      (sched_world\<lparr>fate := [True, True, True, True, True, False]\<rparr>) = ((r, Some \<lparr>sched_impl = None\<rparr>), w')
      \<and> r = SCHEDULER_ERROR_SYSTEM \<and> live w' = live sched_world)"
proof -
  let ?w = "sched_world\<lparr>fate := [True, True, True, True, True, False]\<rparr>"
  let ?run = "run_state (scheduler_init (Some \<lparr>sched_impl = None\<rparr>) 4 2 (Some 1) None) ?w"
  have ok: "ledger_ok ?w" "set (held ?w) \<subseteq> sections ?w" "ledger_ok sched_world"
    by (simp_all add: sched_world_def ledger_ok_def)
  have "fst (fst ?run) = SCHEDULER_ERROR_SYSTEM"
    by (simp add: sched_world_def scheduler_init_def concurrent_task_queue_init_def task_queue_init_def
        allocate_def run_ask InitializeCriticalSectionEx_def sched_mutex_init_def
        sched_condition_init_def map_sync_result_def zero_implementation_def zero_concurrent_queue_def
        map_queue_init_result_def Let_def split: prod.splits)
  moreover obtain r out w' where run: "?run = ((r, out), w')" by (metis prod.collapse)
  ultimately have "r = SCHEDULER_ERROR_SYSTEM" "out = Some \<lparr>sched_impl = None\<rparr>" "same_resources ?w w'"
    using scheduler_init_destroy [OF ok(1,2) _ run] by auto
  with run ok(3) show ?thesis by (auto simp: same_resources_def)
qed

text \<open>
  C15. A non-blocking submission to a running scheduler, when nobody interferes: it returns what
  the queue's state says (shut, full, or accepted), exactly an accepted task is appended to the
  queue, the call is counted once as submitted and once as accepted or rejected, and the
  caller is not registered any more. To a scheduler that is not running it returns the error of
  the lifecycle state, is counted as submitted and rejected, and leaves queue and world alone.
\<close>

theorem try_submit_exact:
  assumes gate: "gate_ok impl w" and cq: "cq_ok (task_queue impl) w" and room: "has_room impl"
    and few: "active_submitter_count impl \<noteq> SIZE_MAX"
  defines "A \<equiv> cq_view (task_queue impl)"
  defines "r \<equiv> (if sched_state impl \<noteq> SCHEDULER_STATE_RUNNING then gate_result (sched_state impl)
     else if closed A then SCHEDULER_ERROR_SHUTDOWN
     else if length (elems A) = bound A then SCHEDULER_ERROR_QUEUE_FULL else SCHEDULER_OK)"
  shows "\<exists>impl' w'. run_state (scheduler_try_submit ts (Some \<lparr>sched_impl = Some impl\<rparr>) (Some t)) w
      = ((r, Some \<lparr>sched_impl = Some impl'\<rparr>), w')
    \<and> elems (cq_view (task_queue impl')) = (if r = SCHEDULER_OK then elems A @ [t] else elems A)
    \<and> submission_counts impl' = (submitted_count impl + 1,
         accepted_count impl + (if r = SCHEDULER_OK then 1 else 0),
         rejected_count impl + (if r = SCHEDULER_OK then 0 else 1), lifecycle_accounting_overflow impl)
    \<and> active_submitter_count impl' = active_submitter_count impl
    \<and> sched_state impl' = sched_state impl \<and> same_resources w w'
    \<and> (sched_state impl \<noteq> SCHEDULER_STATE_RUNNING \<longrightarrow> w' = w \<and> task_queue impl' = task_queue impl)"
proof (cases "sched_state impl = SCHEDULER_STATE_RUNNING")
  case True
  obtain x ks A' where spec: "spec_try_enqueue ts t (cq_view (task_queue impl)) = (x, ks, A')" by (metis prod_cases3)
  obtain q w' where q: "cq_view q = A'"
    "run_state (scheduler_try_submit ts (Some \<lparr>sched_impl = Some impl\<rparr>) (Some t)) w
      = ((map_try_enqueue_result x,
          Some \<lparr>sched_impl = Some (discharged (map_try_enqueue_result x) ((admitted impl)\<lparr>task_queue := q\<rparr>))\<rparr>), w')"
    "w' = (let w1 = issue (task_queue impl) ks w
       in if active_submitter_count impl = 0 then w1\<lparr>wakes := wakes w1 @ [gate_wake impl]\<rparr> else w1)"
    by (rule run_try_submit [OF gate cq True few spec])
  have r: "map_try_enqueue_result x = r" "elems A' = (if r = SCHEDULER_OK then elems A @ [t] else elems A)"
    using spec True by (auto simp: r_def A_def spec_try_enqueue_def map_try_enqueue_result_def spec_insert_def
        split: if_splits)
  have "same_resources w w'" by (simp add: q(3) Let_def issue_def same_resources_def)
  with q(1,2) r True counted_submission [OF room True, of r q] show ?thesis
    by (auto simp: submission_keeps) (simp_all add: admitted_def)
next
  case False
  then have "gate_result (sched_state impl) \<noteq> SCHEDULER_OK" "r = gate_result (sched_state impl)"
    by (simp_all add: gate_result_def r_def)
  moreover have "active_submitter_count (admitted impl) = active_submitter_count impl"
    using False by (simp add: admitted_def)
  ultimately show ?thesis using False run_register [OF gate, of t] counted_refusal [OF room False]
    by (auto simp: scheduler_try_submit_def submission_keeps A_def)
qed

theorem try_submit_exact_witness:
  "\<exists>impl' w'. run_state (scheduler_try_submit True
      (Some \<lparr>sched_impl = Some (sample_sched\<lparr>sched_state := SCHEDULER_STATE_RUNNING\<rparr>)\<rparr>) (Some 42)) sched_world
      = ((SCHEDULER_OK, Some \<lparr>sched_impl = Some impl'\<rparr>), w')
    \<and> elems (cq_view (task_queue impl')) = [42] \<and> submission_counts impl' = (1, 1, 0, False)"
proof -
  let ?i = "sample_sched\<lparr>sched_state := SCHEDULER_STATE_RUNNING\<rparr>"
  have ok: "gate_ok ?i sched_world" "cq_ok (task_queue ?i) sched_world"
    using sample_sched_ok by (simp_all add: gate_ok_def)
  have fields: "has_room ?i" "active_submitter_count ?i \<noteq> SIZE_MAX" "submitted_count ?i = 0"
    "accepted_count ?i = 0" "rejected_count ?i = 0" "lifecycle_accounting_overflow ?i = False"
    by (simp_all add: has_room_def sample_sched_def zero_scheduler_def)
  have view: "cq_view (task_queue sample_sched) = \<lparr>elems = [], bound = 1, closed = False, consumers = 0,
    producers = 0, high = 0\<rparr>" using empty_sample_view by (simp add: sample_sched_def)
  have zero: "submitted_count sample_sched = 0" "accepted_count sample_sched = 0" "rejected_count sample_sched = 0"
    "\<not> lifecycle_accounting_overflow sample_sched" using fields(3-) by simp_all
  from try_submit_exact [OF ok fields(1,2), of True 42] show ?thesis
    by (simp add: view zero) blast
qed

text \<open>
  C16. Calls at the wrong time are refused and change nothing: start of a scheduler that is not
  initialized, shutdown and join before the scheduler runs, destroy while a submitter or a
  worker is there or the scheduler runs. Shutdown and join of a stopped scheduler succeed and
  change nothing either. A null scheduler and one that was never initialized are told apart.
\<close>

theorem lifecycle_guards:
  assumes "gate_ok impl w" "s = \<lparr>sched_impl = Some impl\<rparr>"
  shows "(sched_state impl \<noteq> SCHEDULER_STATE_INITIALIZED \<longrightarrow>
      run_state (scheduler_start_begin (Some s)) w = ((Returned SCHEDULER_ERROR_INVALID_STATE, Some s), w))
    \<and> (sched_state impl \<notin> {SCHEDULER_STATE_RUNNING, SCHEDULER_STATE_SHUTTING_DOWN} \<longrightarrow>
      run_state (scheduler_shutdown_begin (Some s)) w = ((Returned (if sched_state impl = SCHEDULER_STATE_STOPPED
        then SCHEDULER_OK else SCHEDULER_ERROR_INVALID_STATE), SCHEDULER_OK, Some s), w))
    \<and> (sched_state impl \<notin> {SCHEDULER_STATE_SHUTTING_DOWN, SCHEDULER_STATE_FAILED} \<longrightarrow>
      run_state (scheduler_join_begin (Some s)) w = ((Returned (if sched_state impl = SCHEDULER_STATE_STOPPED
        then SCHEDULER_OK else SCHEDULER_ERROR_INVALID_STATE), Some s), w))
    \<and> (\<not> settled impl \<longrightarrow>
      run_state (scheduler_destroy (Some s)) w = ((SCHEDULER_ERROR_INVALID_STATE, Some s), w))
    \<and> (run_state (scheduler_init (Some s) cap n (Some fn) fc) w
      = ((if cap = 0 \<or> n = 0 then SCHEDULER_ERROR_INVALID_ARGUMENT else SCHEDULER_ERROR_INVALID_STATE, Some s), w))
    \<and> (run_state (scheduler_start_begin None) w = ((Returned SCHEDULER_ERROR_INVALID_ARGUMENT, None), w))
    \<and> (run_state (scheduler_start_begin (Some \<lparr>sched_impl = None\<rparr>)) w
      = ((Returned SCHEDULER_ERROR_INVALID_STATE, Some \<lparr>sched_impl = None\<rparr>), w))
    \<and> (run_state (scheduler_shutdown_begin (Some \<lparr>sched_impl = None\<rparr>)) w
      = ((Returned SCHEDULER_ERROR_INVALID_STATE, SCHEDULER_OK, Some \<lparr>sched_impl = None\<rparr>), w))
    \<and> (run_state (scheduler_join_begin (Some \<lparr>sched_impl = None\<rparr>)) w
      = ((Returned SCHEDULER_ERROR_INVALID_STATE, Some \<lparr>sched_impl = None\<rparr>), w))
    \<and> (run_state (scheduler_destroy (Some \<lparr>sched_impl = None\<rparr>)) w = ((SCHEDULER_OK, Some \<lparr>sched_impl = None\<rparr>), w))"
proof (intro conjI)
  obtain a where a: "mutex_impl (lifecycle_mutex impl) = Some a" using assms(1) by (auto elim: gate_okE)
  show "sched_state impl \<noteq> SCHEDULER_STATE_INITIALIZED \<longrightarrow>
      run_state (scheduler_start_begin (Some s)) w = ((Returned SCHEDULER_ERROR_INVALID_STATE, Some s), w)"
    using run_start_gate [OF assms(1)] by (simp add: scheduler_start_begin_def assms(2))
  show "sched_state impl \<notin> {SCHEDULER_STATE_RUNNING, SCHEDULER_STATE_SHUTTING_DOWN} \<longrightarrow>
      run_state (scheduler_shutdown_begin (Some s)) w = ((Returned (if sched_state impl = SCHEDULER_STATE_STOPPED
        then SCHEDULER_OK else SCHEDULER_ERROR_INVALID_STATE), SCHEDULER_OK, Some s), w)"
    using run_shutdown_gate [OF assms(1)] by (simp add: scheduler_shutdown_begin_def assms(2) closing_def)
  show "sched_state impl \<notin> {SCHEDULER_STATE_SHUTTING_DOWN, SCHEDULER_STATE_FAILED} \<longrightarrow>
      run_state (scheduler_join_begin (Some s)) w = ((Returned (if sched_state impl = SCHEDULER_STATE_STOPPED
        then SCHEDULER_OK else SCHEDULER_ERROR_INVALID_STATE), Some s), w)"
    using run_join_gate [OF assms(1) a] by (simp add: scheduler_join_begin_def assms(2) join_open_def)
  show "\<not> settled impl \<longrightarrow>
      run_state (scheduler_destroy (Some s)) w = ((SCHEDULER_ERROR_INVALID_STATE, Some s), w)"
    using destroy_refused [OF assms(1)] by (simp add: assms(2))
  show "run_state (scheduler_init (Some s) cap n (Some fn) fc) w
      = ((if cap = 0 \<or> n = 0 then SCHEDULER_ERROR_INVALID_ARGUMENT else SCHEDULER_ERROR_INVALID_STATE, Some s), w)"
    by (simp add: scheduler_init_def assms(2))
qed (simp_all add: scheduler_start_begin_def scheduler_shutdown_begin_def scheduler_join_begin_def scheduler_destroy_def)

theorem lifecycle_guards_witness:
  "run_state (scheduler_join_begin (Some \<lparr>sched_impl = Some sample_sched\<rparr>)) sched_world
      = ((Returned SCHEDULER_ERROR_INVALID_STATE, Some \<lparr>sched_impl = Some sample_sched\<rparr>), sched_world)
    \<and> run_state (scheduler_shutdown_begin (Some \<lparr>sched_impl = Some (sample_sched\<lparr>sched_state := SCHEDULER_STATE_STOPPED\<rparr>)\<rparr>)) sched_world
      = ((Returned SCHEDULER_OK, SCHEDULER_OK, Some \<lparr>sched_impl = Some (sample_sched\<lparr>sched_state := SCHEDULER_STATE_STOPPED\<rparr>)\<rparr>), sched_world)"
proof -
  let ?i = "sample_sched\<lparr>sched_state := SCHEDULER_STATE_STOPPED\<rparr>"
  have st: "sched_state sample_sched = SCHEDULER_STATE_INITIALIZED" by (simp add: sample_sched_def)
  have ok: "gate_ok ?i sched_world" using sample_sched_ok(1) by (simp add: gate_ok_def)
  from lifecycle_guards [OF sample_sched_ok(1) refl, of 1 1 1 None] lifecycle_guards [OF ok refl, of 1 1 1 None] st show ?thesis by simp
qed

end
