(* ===== verification/Scheduler_System.thy ===== *)
theory Scheduler_System
  imports Scheduler_Calls Queue_System
begin

text \<open>
  The whole scheduler at work: any number of submitting threads, the workers, and one
  controlling thread that makes the lifecycle calls (the header asks for their serialization).
  A step runs one part of a call, from one point where its mutexes are free to the next; the
  steps of different threads interleave in any order. A wait may return without a wake-up or
  fail, any allocation or thread creation may fail, and a callback returns any number. The
  state also keeps what an observer would write down: the accepted and the removed pointers,
  the callbacks with their results, and what the lifecycle calls returned.
\<close>

section \<open>Threads\<close>

text \<open>A submitter: not in a call, past the gate, asleep or woken in the queue, about to leave.\<close>

datatype submitter =
    SIdle
  | SInside addr bool
  | SWaiting addr
  | SLeaving SchedulerResult

text \<open>A worker, from its creation over each atomic update of its counters to its join.\<close>

datatype worker =
    WAbsent
  | WStarting
  | WLoop
  | WWaiting
  | WTook addr
  | WCounted addr
  | WStarted addr
  | WRunning addr bool
  | WReturned int bool
  | WAccounted bool
  | WShut int
  | WLeaving int
  | WFinished int
  | WJoined

text \<open>The controlling thread; a release is part of a start that gives up, or of a join.\<close>

datatype duty = Aborting | Joining

datatype controller =
    CIdle
  | CResources
  | CCreate nat
  | CStartAsleep
  | CStartNotified
  | COpen
  | CAbort
  | CRelease duty nat bool SchedulerResult
  | CFail
  | CJoined SchedulerResult
  | CShutQueue
  | CShutAwait SchedulerResult
  | CShutAsleep SchedulerResult
  | CShutNotified SchedulerResult
  | CJoinAsleep
  | CJoinNotified

datatype api = Start_call | Shutdown_call | Join_call

record net =
  core :: SchedulerImplementation
  env :: world
  qpcs :: "pc list"
  enqd :: "addr list"
  deqd :: "addr list"
  subs :: "submitter list"
  crew :: "worker list"
  ctl :: controller
  called :: "(nat \<times> addr \<times> int) list"
  log :: "(api \<times> SchedulerResult) list"
  ticks :: nat

datatype event =
    Submit nat addr bool
  | Insert nat "nat option"
  | Insert_resume nat "nat option"
  | Insert_fail nat
  | Deregister nat
  | Ready nat
  | Take nat "nat option"
  | Take_resume nat "nat option"
  | Take_fail nat
  | Account nat
  | Callback nat int
  | Abandon_queue nat
  | Exit nat
  | Spurious_wake nat
  | Lifecycle api
  | Control "bool list"
  | Control_spurious
  | Control_fail

text \<open>
  The queue sees one thread per submitter, then one per worker, then the controlling one.
\<close>

abbreviation worker_thread :: "nat \<Rightarrow> net \<Rightarrow> nat" where
  "worker_thread j s \<equiv> length (subs s) + j"

abbreviation control_thread :: "net \<Rightarrow> nat" where
  "control_thread s \<equiv> length (subs s) + length (crew s)"

definition queue_sys :: "net \<Rightarrow> sys" where
  "queue_sys s = \<lparr>cq = task_queue (core s), wld = env s, pcs = qpcs s, accepted = enqd s, taken = deqd s\<rparr>"

definition absorb :: "net \<Rightarrow> sys \<Rightarrow> net" where
  "absorb s q = s\<lparr>core := (core s)\<lparr>task_queue := cq q\<rparr>, env := wld q, qpcs := pcs q, enqd := accepted q,
     deqd := taken q\<rparr>"

section \<open>Wake-ups of the controlling thread\<close>

fun control_sleeps_on :: "SchedulerImplementation \<Rightarrow> controller \<Rightarrow> addr option" where
  "control_sleeps_on impl CStartAsleep = cond_impl (worker_condition impl)"
| "control_sleeps_on impl (CShutAsleep r) = cond_impl (lifecycle_condition impl)"
| "control_sleeps_on impl CJoinAsleep = cond_impl (lifecycle_condition impl)"
| "control_sleeps_on impl c = None"

fun control_notified :: "controller \<Rightarrow> controller" where
  "control_notified CStartAsleep = CStartNotified"
| "control_notified (CShutAsleep r) = CShutNotified r"
| "control_notified CJoinAsleep = CJoinNotified"
| "control_notified c = c"

definition control_rouse :: "SchedulerImplementation \<Rightarrow> wake list \<Rightarrow> controller \<Rightarrow> controller" where
  "control_rouse impl ks c = (case control_sleeps_on impl c of
      None \<Rightarrow> c
    | Some a \<Rightarrow> if WakeAll a \<in> set ks \<or> Wake a \<in> set ks then control_notified c else c)"

text \<open>The end of a part that leaves the queue alone.\<close>

definition conclude :: "SchedulerImplementation \<Rightarrow> world \<Rightarrow> net \<Rightarrow> net" where
  "conclude impl w s = s\<lparr>core := impl, env := w\<lparr>wakes := [], fate := []\<rparr>,
     ctl := control_rouse impl (wakes w) (ctl s)\<rparr>"

section \<open>Submitters\<close>

definition submit_gate :: "nat \<Rightarrow> addr \<Rightarrow> bool \<Rightarrow> net \<Rightarrow> net option" where
  "submit_gate i t blocking s =
     (if i < length (subs s) \<and> subs s ! i = SIdle
      then (case run_state (register_submitter (Some \<lparr>sched_impl = Some (core s)\<rparr>) (Some t)) (env s) of
          ((r, out), w) \<Rightarrow> Some ((conclude (the (sched_impl (the out))) w s)
            \<lparr>subs := (subs s)[i := if r = SCHEDULER_OK then SInside t blocking else SIdle]\<rparr>))
      else None)"

text \<open>Where a submitter is after a part of its insertion.\<close>

definition inserted :: "bool \<Rightarrow> addr \<Rightarrow> ConcurrentTaskQueueResult progress \<Rightarrow> submitter" where
  "inserted blocking t p = (case p of
      Asleep \<Rightarrow> SWaiting t
    | Returned r \<Rightarrow> SLeaving (if blocking then map_blocking_enqueue_result r else map_try_enqueue_result r))"

definition submit_insert ::
  "bool \<Rightarrow> nat option \<Rightarrow> nat \<Rightarrow> addr
     \<Rightarrow> (ConcurrentTaskQueueResult progress \<times> ConcurrentTaskQueue option) \<times> world \<Rightarrow> net \<Rightarrow> net option" where
  "submit_insert blocking choice i t outcome s =
     map_option (\<lambda>q. (absorb s q)\<lparr>subs := (subs s)[i := inserted blocking t (fst (fst outcome))]\<rparr>)
       (enqueue_end choice i t outcome (queue_sys s))"

definition submit_first :: "bool \<Rightarrow> nat option \<Rightarrow> nat \<Rightarrow> net \<Rightarrow> net option" where
  "submit_first ts choice i s = (if i < length (subs s) then (case subs s ! i of
      SInside t blocking \<Rightarrow> submit_insert blocking choice i t
        (if blocking
         then run_state (concurrent_task_queue_enqueue_begin ts (Some (task_queue (core s))) (Some t)) (env s)
         else returned (run_state (concurrent_task_queue_try_enqueue ts (Some (task_queue (core s))) (Some t)) (env s))) s
    | _ \<Rightarrow> None) else None)"

definition submit_resume :: "bool \<Rightarrow> bool \<Rightarrow> nat option \<Rightarrow> nat \<Rightarrow> net \<Rightarrow> net option" where
  "submit_resume ts ok choice i s = (if i < length (subs s) then (case subs s ! i of
      SWaiting t \<Rightarrow>
        if i < length (qpcs s) \<and> qpcs s ! i = (if ok then EnqNotified t else EnqAsleep t)
        then submit_insert True choice i t (run_state (concurrent_task_queue_enqueue_resume ts (task_queue (core s))
            (the (implementation (task_queue (core s)))) t) ((env s)\<lparr>fate := [ok]\<rparr>)) s
        else None
    | _ \<Rightarrow> None) else None)"

definition submit_leave :: "nat \<Rightarrow> net \<Rightarrow> net option" where
  "submit_leave i s = (if i < length (subs s) then (case subs s ! i of
      SLeaving r \<Rightarrow> (case run_state (deregister_submitter (core s) r) (env s) of
          ((r', impl), w) \<Rightarrow> Some ((conclude impl w s)\<lparr>subs := (subs s)[i := SIdle]\<rparr>))
    | _ \<Rightarrow> None) else None)"

section \<open>Workers\<close>

text \<open>The thread stores what the worker function returned, and ends.\<close>

definition thread_ends :: "nat \<Rightarrow> int \<Rightarrow> SchedulerImplementation \<Rightarrow> SchedulerImplementation" where
  "thread_ends j r impl = (case thread_at impl j of
      None \<Rightarrow> impl
    | Some t \<Rightarrow> put_thread j \<lparr>thread_impl = map_option
        (\<lambda>x. x\<lparr>start := snd (windows_thread_entry (\<lambda>_ _. r) (start x))\<rparr>) (thread_impl t)\<rparr> impl)"

definition worker_report :: "nat \<Rightarrow> net \<Rightarrow> net option" where
  "worker_report j s = (if j < length (crew s) \<and> crew s ! j = WStarting
     then (case run_state (scheduler_worker_ready (context_at (core s) j) (core s)) (env s) of
         ((r, impl), w) \<Rightarrow> (case r of
             None \<Rightarrow> Some ((conclude impl w s)\<lparr>crew := (crew s)[j := WLoop]\<rparr>)
           | Some r \<Rightarrow> Some ((conclude (thread_ends j r impl) w s)\<lparr>crew := (crew s)[j := WFinished r]\<rparr>)))
     else None)"

definition removed :: "(ConcurrentTaskQueueResult \<times> task_ptr) progress \<Rightarrow> worker" where
  "removed p = (case p of
      Asleep \<Rightarrow> WWaiting
    | Returned (r, x) \<Rightarrow> (case worker_received r x of
        Call t \<Rightarrow> WTook t
      | Leave r \<Rightarrow> WLeaving r
      | Abandon r \<Rightarrow> WShut r))"

definition worker_remove ::
  "nat option \<Rightarrow> nat
     \<Rightarrow> ((ConcurrentTaskQueueResult \<times> task_ptr) progress \<times> ConcurrentTaskQueue option) \<times> world
     \<Rightarrow> net \<Rightarrow> net option" where
  "worker_remove choice j outcome s =
     map_option (\<lambda>q. (absorb s q)\<lparr>crew := (crew s)[j := removed (fst (fst outcome))]\<rparr>)
       (dequeue_end choice (worker_thread j s) outcome (queue_sys s))"

definition worker_take :: "bool \<Rightarrow> nat option \<Rightarrow> nat \<Rightarrow> net \<Rightarrow> net option" where
  "worker_take ts choice j s = (if j < length (crew s) \<and> crew s ! j = WLoop
     then worker_remove choice j
       (run_state (concurrent_task_queue_dequeue_begin ts (Some (task_queue (core s))) True) (env s)) s
     else None)"

definition worker_resume :: "bool \<Rightarrow> bool \<Rightarrow> nat option \<Rightarrow> nat \<Rightarrow> net \<Rightarrow> net option" where
  "worker_resume ts ok choice j s = (if j < length (crew s) \<and> crew s ! j = WWaiting
       \<and> worker_thread j s < length (qpcs s)
       \<and> qpcs s ! worker_thread j s = (if ok then DeqNotified else DeqAsleep)
     then worker_remove choice j (run_state (concurrent_task_queue_dequeue_resume ts (task_queue (core s))
         (the (implementation (task_queue (core s))))) ((env s)\<lparr>fate := [ok]\<rparr>)) s
     else None)"

text \<open>The updates of the counters, one step each.\<close>

definition put_counts :: "nat \<Rightarrow> WorkerContext \<Rightarrow> worker \<Rightarrow> net \<Rightarrow> net option" where
  "put_counts j c p s = Some (s\<lparr>core := put_context j c (core s), crew := (crew s)[j := p]\<rparr>)"

definition worker_account :: "nat \<Rightarrow> net \<Rightarrow> net option" where
  "worker_account j s = (if j < length (crew s) then (case context_at (core s) j of
      None \<Rightarrow> None
    | Some c \<Rightarrow> (case crew s ! j of
        WTook t \<Rightarrow> put_counts j (account_dequeued c) (WCounted t) s
      | WCounted t \<Rightarrow> put_counts j (account_started c) (WStarted t) s
      | WStarted t \<Rightarrow> (case account_running c of (b, c) \<Rightarrow> put_counts j c (WRunning t b) s)
      | WReturned r b \<Rightarrow> put_counts j (account_outcome r c) (WAccounted b) s
      | WAccounted b \<Rightarrow> put_counts j (account_idle b c) WLoop s
      | _ \<Rightarrow> None)) else None)"

definition worker_callback :: "nat \<Rightarrow> int \<Rightarrow> net \<Rightarrow> net option" where
  "worker_callback j r s = (if j < length (crew s) then (case crew s ! j of
      WRunning t b \<Rightarrow> Some (s\<lparr>crew := (crew s)[j := WReturned r b], called := called s @ [(j, t, r)]\<rparr>)
    | _ \<Rightarrow> None) else None)"

text \<open>Shutting the queue, on behalf of a worker or of the controlling thread.\<close>

definition net_shut :: "nat \<Rightarrow> net \<Rightarrow> (ConcurrentTaskQueueResult \<times> net) option" where
  "net_shut i s = (case run_state (concurrent_task_queue_shutdown (Some (task_queue (core s)))) (env s) of
     ((r, out), w) \<Rightarrow> map_option (\<lambda>q. (r, absorb s q)) (settle None i Idle out w (queue_sys s)))"

definition worker_abandon :: "nat \<Rightarrow> net \<Rightarrow> net option" where
  "worker_abandon j s = (if j < length (crew s) then (case crew s ! j of
      WShut r \<Rightarrow> map_option (\<lambda>(_, s'). s'\<lparr>crew := (crew s)[j := WLeaving r]\<rparr>) (net_shut (worker_thread j s) s)
    | _ \<Rightarrow> None) else None)"

definition worker_exit :: "nat \<Rightarrow> net \<Rightarrow> net option" where
  "worker_exit j s = (if j < length (crew s) then (case crew s ! j of
      WLeaving r \<Rightarrow> (case run_state (record_worker_exit (core s) r) (env s) of
          ((r', impl), w) \<Rightarrow>
            Some ((conclude (thread_ends j r' impl) w s)\<lparr>crew := (crew s)[j := WFinished r']\<rparr>))
    | _ \<Rightarrow> None) else None)"

section \<open>The controlling thread\<close>

definition call_returns :: "api \<Rightarrow> SchedulerResult \<Rightarrow> net \<Rightarrow> net" where
  "call_returns call r s = s\<lparr>ctl := CIdle, log := log s @ [(call, r)]\<rparr>"

text \<open>What follows the wait of start, of shutdown and of join.\<close>

definition start_waited :: "SchedulerResult progress \<Rightarrow> net \<Rightarrow> net" where
  "start_waited p s = s\<lparr>ctl := (case p of
      Asleep \<Rightarrow> CStartAsleep
    | Returned r \<Rightarrow> if r \<noteq> SCHEDULER_OK then CAbort else COpen)\<rparr>"

definition shutdown_waited :: "SchedulerResult \<Rightarrow> SchedulerResult progress \<Rightarrow> net \<Rightarrow> net" where
  "shutdown_waited result p s = (case p of
      Asleep \<Rightarrow> s\<lparr>ctl := CShutAsleep result\<rparr>
    | Returned r \<Rightarrow> call_returns Shutdown_call r s)"

definition join_waited :: "SchedulerResult progress \<Rightarrow> net \<Rightarrow> net" where
  "join_waited p s = (case p of
      Asleep \<Rightarrow> s\<lparr>ctl := CJoinAsleep\<rparr>
    | Returned r \<Rightarrow> if r \<noteq> SCHEDULER_OK then call_returns Join_call r s
        else s\<lparr>ctl := CRelease Joining 0 True SCHEDULER_OK\<rparr>)"

definition lifecycle_call :: "api \<Rightarrow> net \<Rightarrow> net option" where
  "lifecycle_call call s = (if ctl s \<noteq> CIdle then None else (case call of
      Start_call \<Rightarrow> (case run_state (start_gate (core s)) (env s) of ((r, impl), w) \<Rightarrow>
        Some (let s' = conclude impl w s
          in if r \<noteq> SCHEDULER_OK then call_returns call r s' else s'\<lparr>ctl := CResources\<rparr>))
    | Shutdown_call \<Rightarrow> (case run_state (shutdown_gate (core s)) (env s) of ((gate, impl), w) \<Rightarrow>
        Some (let s' = conclude impl w s
          in (case gate of Some r \<Rightarrow> call_returns call r s' | None \<Rightarrow> s'\<lparr>ctl := CShutQueue\<rparr>)))
    | Join_call \<Rightarrow> (case run_state (join_gate (core s)) (env s) of (gate, w) \<Rightarrow> (case gate of
          Some r \<Rightarrow> Some (call_returns call r (conclude (core s) w s))
        | None \<Rightarrow> (case run_state (await_submitters (core s)) w of (p, w) \<Rightarrow>
            Some (join_waited p (conclude (core s) w s)))))))"

text \<open>
  A round of the joining loop waits for the worker's thread, unless there is none or the wait
  fails.
\<close>

fun finished :: "worker \<Rightarrow> bool" where
  "finished (WFinished r) \<longleftrightarrow> True"
| "finished p \<longleftrightarrow> False"

definition join_enabled :: "nat \<Rightarrow> bool list \<Rightarrow> net \<Rightarrow> bool" where
  "join_enabled j fs s \<longleftrightarrow> \<not> present (core s) j \<or> fs = [False]
     \<or> (fs = [] \<and> j < length (crew s) \<and> finished (crew s ! j))"

definition control_create :: "nat \<Rightarrow> bool list \<Rightarrow> net \<Rightarrow> net option" where
  "control_create i fs s =
     (if i < unat (worker_count (core s))
      then (case run_state (start_worker i (core s)) ((env s)\<lparr>fate := fs\<rparr>) of ((r, impl), w) \<Rightarrow>
        Some (let s' = conclude impl w s in
          if r \<noteq> SCHEDULER_OK then s'\<lparr>ctl := CAbort\<rparr>
          else s'\<lparr>ctl := CCreate (Suc i), crew := (crew s)[i := WStarting]\<rparr>))
      else (case run_state (start_ready (core s)) (env s) of (p, w) \<Rightarrow>
        Some (start_waited p (conclude (core s) w s))))"

definition control_release :: "duty \<Rightarrow> nat \<Rightarrow> bool \<Rightarrow> SchedulerResult \<Rightarrow> bool list \<Rightarrow> net \<Rightarrow> net option" where
  "control_release d i all_joined r fs s =
     (if i < unat (started_worker_count (core s))
      then (if join_enabled i fs s
        then (case run_state (release_worker i (all_joined, r, core s)) ((env s)\<lparr>fate := fs\<rparr>) of
          ((all_joined', r', impl), w) \<Rightarrow> Some ((conclude impl w s)\<lparr>ctl := CRelease d (Suc i) all_joined' r',
            crew := (if present (core s) i \<and> \<not> present impl i then (crew s)[i := WJoined] else crew s)\<rparr>))
        else None)
      else (case run_state (release_finish (all_joined, r, core s)) (env s) of ((r', impl), w) \<Rightarrow>
        Some ((conclude impl w s)\<lparr>ctl := (case d of Aborting \<Rightarrow> CFail | Joining \<Rightarrow> CJoined r')\<rparr>)))"

text \<open>The wait of the controlling thread returns, with success or not.\<close>

definition control_resume :: "bool \<Rightarrow> net \<Rightarrow> net option" where
  "control_resume ok s = (let w = (env s)\<lparr>fate := [ok]\<rparr> in case control_notified (ctl s) of
      CStartNotified \<Rightarrow> (case run_state (start_await_resume (core s)) w of (p, w) \<Rightarrow>
        Some (start_waited p (conclude (core s) w s)))
    | CShutNotified r \<Rightarrow> (case run_state (scheduler_shutdown_resume (core s) r) w of (p, w) \<Rightarrow>
        Some (shutdown_waited r p (conclude (core s) w s)))
    | CJoinNotified \<Rightarrow> (case run_state (await_submitters_resume (core s)) w of (p, w) \<Rightarrow>
        Some (join_waited p (conclude (core s) w s)))
    | _ \<Rightarrow> None)"

definition control :: "bool list \<Rightarrow> net \<Rightarrow> net option" where
  "control fs s = (case ctl s of
      CResources \<Rightarrow> (case run_state (start_resources (core s)) ((env s)\<lparr>fate := fs\<rparr>) of ((r, impl), w) \<Rightarrow>
        Some (let s' = conclude impl w s in
          if r \<noteq> SCHEDULER_OK then call_returns Start_call r s' else s'\<lparr>ctl := CCreate 0\<rparr>))
    | CCreate i \<Rightarrow> control_create i fs s
    | COpen \<Rightarrow> (case run_state (start_open (core s)) (env s) of ((r, impl), w) \<Rightarrow>
        Some (let s' = conclude impl w s in
          if r \<noteq> SCHEDULER_OK then s'\<lparr>ctl := CAbort\<rparr> else call_returns Start_call r s'))
    | CAbort \<Rightarrow> map_option (\<lambda>(_, s'). s'\<lparr>ctl := CRelease Aborting 0 True SCHEDULER_OK\<rparr>)
        (net_shut (control_thread s) s)
    | CRelease d i all_joined r \<Rightarrow> control_release d i all_joined r fs s
    | CFail \<Rightarrow> (case run_state (set_scheduler_state (core s) SCHEDULER_STATE_FAILED) (env s) of ((_, impl), w) \<Rightarrow>
        Some (call_returns Start_call SCHEDULER_ERROR_SYSTEM (conclude impl w s)))
    | CJoined r \<Rightarrow> (case run_state (join_finish (r, core s)) (env s) of ((r, impl), w) \<Rightarrow>
        Some (call_returns Join_call r (conclude impl w s)))
    | CShutQueue \<Rightarrow> map_option (\<lambda>(r, s'). s'\<lparr>ctl := CShutAwait (map_queue_shutdown_result r)\<rparr>)
        (net_shut (control_thread s) s)
    | CShutAwait r \<Rightarrow> (case run_state (shutdown_await (core s) r) (env s) of (p, w) \<Rightarrow>
        Some (shutdown_waited r p (conclude (core s) w s)))
    | _ \<Rightarrow> if control_notified (ctl s) = ctl s then control_resume True s else None)"

definition react :: "bool \<Rightarrow> event \<Rightarrow> net \<Rightarrow> net option" where
  "react ts e s = (case e of
      Submit i t blocking \<Rightarrow> submit_gate i t blocking s
    | Insert i choice \<Rightarrow> submit_first ts choice i s
    | Insert_resume i choice \<Rightarrow> submit_resume ts True choice i s
    | Insert_fail i \<Rightarrow> submit_resume ts False None i s
    | Deregister i \<Rightarrow> submit_leave i s
    | Ready j \<Rightarrow> worker_report j s
    | Take j choice \<Rightarrow> worker_take ts choice j s
    | Take_resume j choice \<Rightarrow> worker_resume ts True choice j s
    | Take_fail j \<Rightarrow> worker_resume ts False None j s
    | Account j \<Rightarrow> worker_account j s
    | Callback j r \<Rightarrow> worker_callback j r s
    | Abandon_queue j \<Rightarrow> worker_abandon j s
    | Exit j \<Rightarrow> worker_exit j s
    | Spurious_wake i \<Rightarrow>
        if i < length (qpcs s) \<and> notify (qpcs s ! i) \<noteq> qpcs s ! i
        then Some (s\<lparr>qpcs := (qpcs s)[i := notify (qpcs s ! i)]\<rparr>) else None
    | Lifecycle call \<Rightarrow> lifecycle_call call s
    | Control fs \<Rightarrow> control fs s
    | Control_spurious \<Rightarrow>
        if control_notified (ctl s) \<noteq> ctl s then Some (s\<lparr>ctl := control_notified (ctl s)\<rparr>) else None
    | Control_fail \<Rightarrow> if control_notified (ctl s) \<noteq> ctl s then control_resume False s else None)"

definition net_step :: "bool \<Rightarrow> event \<Rightarrow> net \<Rightarrow> net option" where
  "net_step ts e s = map_option (\<lambda>s'. s'\<lparr>ticks := Suc (ticks s)\<rparr>) (react ts e s)"

end
