(* ===== verification/Scheduler_Threads.thy ===== *)
theory Scheduler_Threads
  imports Scheduler_System
begin

text \<open>
  The queue inside the whole scheduler: where the threads are in it, that a part of a submission
  or of a worker's removal is a step of the queue's own system, and what each such part leaves.
\<close>

section \<open>Counting threads\<close>

definition tallied :: "('a \<Rightarrow> bool) \<Rightarrow> 'a list \<Rightarrow> nat" where
  "tallied P xs = length (filter P xs)"

lemma tallied_update:
  assumes "i < length xs"
  shows "tallied P (xs[i := x]) + (if P (xs ! i) then 1 else 0) = tallied P xs + (if P x then 1 else 0)"
proof -
  have "tallied P xs = tallied P (take i xs) + (if P (xs ! i) then 1 else 0) + tallied P (drop (Suc i) xs)"
    by (subst id_take_nth_drop [OF assms]) (simp add: tallied_def)
  moreover have "tallied P (xs[i := x]) = tallied P (take i xs) + (if P x then 1 else 0) + tallied P (drop (Suc i) xs)"
    by (simp add: upd_conv_take_nth_drop [OF assms] tallied_def)
  ultimately show ?thesis by simp
qed

lemma tallied_le: "tallied P xs \<le> length xs"
  by (simp add: tallied_def)

lemma tallied_pos: "0 < tallied P xs \<longleftrightarrow> (\<exists>i < length xs. P (xs ! i))"
  by (auto simp: tallied_def filter_empty_conv set_conv_nth)

lemma tallied_zero: "tallied P xs = 0 \<longleftrightarrow> (\<forall>i < length xs. \<not> P (xs ! i))"
  using tallied_pos [of P xs] by auto

lemma tallied_all: "tallied P xs = length xs \<longleftrightarrow> (\<forall>i < length xs. P (xs ! i))"
proof -
  have "tallied P xs = length xs \<longleftrightarrow> (\<forall>x \<in> set xs. P x)"
  proof (induction xs)
    case (Cons x xs)
    have "length (filter P xs) \<noteq> Suc (length xs)" using length_filter_le [of P xs] by linarith
    with Cons show ?case by (auto simp: tallied_def)
  qed (simp add: tallied_def)
  then show ?thesis by (simp add: all_set_conv_all_nth)
qed

section \<open>Where the threads are in the queue\<close>

definition sub_place :: "submitter \<Rightarrow> pc \<Rightarrow> bool" where
  "sub_place p q \<longleftrightarrow> (case p of SWaiting t \<Rightarrow> q = EnqAsleep t \<or> q = EnqNotified t | _ \<Rightarrow> q = Idle)"

definition worker_place :: "worker \<Rightarrow> pc \<Rightarrow> bool" where
  "worker_place p q \<longleftrightarrow> (case p of WWaiting \<Rightarrow> q = DeqAsleep \<or> q = DeqNotified | _ \<Rightarrow> q = Idle)"

definition places :: "pc list \<Rightarrow> submitter list \<Rightarrow> worker list \<Rightarrow> bool" where
  "places ps ss ws \<longleftrightarrow> length ps = Suc (length ss + length ws)
     \<and> (\<forall>i < length ss. sub_place (ss ! i) (ps ! i))
     \<and> (\<forall>j < length ws. worker_place (ws ! j) (ps ! (length ss + j)))
     \<and> ps ! (length ss + length ws) = Idle"

lemma place_notified:
  "sub_place p q \<Longrightarrow> sub_place p (notify q)" "worker_place w q \<Longrightarrow> worker_place w (notify q)"
  by (auto simp: sub_place_def worker_place_def split: submitter.splits worker.splits)

text \<open>A thread changes its place, and any thread may have been woken.\<close>

definition placed :: "pc list \<Rightarrow> nat \<Rightarrow> pc \<Rightarrow> pc list \<Rightarrow> bool" where
  "placed ps i p ps' \<longleftrightarrow> length ps' = length ps
     \<and> (\<forall>k < length ps. ps' ! k = ps[i := p] ! k \<or> ps' ! k = notify (ps[i := p] ! k))"

lemma notify_notify [simp]: "notify (notify p) = notify p"
  by (cases p) simp_all

lemma deliver_placed:
  "deliver c ks choice ps = Some ps' \<Longrightarrow> length ps' = length ps
     \<and> (\<forall>k < length ps. ps' ! k = ps ! k \<or> ps' ! k = notify (ps ! k))"
proof (induction c ks choice ps arbitrary: ps' rule: deliver.induct)
  case (2 c a ks choice ps)
  show ?case
  proof (cases "list_ex (sleeps_on c a) ps")
    case True
    with 2(3) obtain i where i: "choice = Some i" "i < length ps" "sleeps_on c a (ps ! i)"
      "deliver c ks None (ps[i := notify (ps ! i)]) = Some ps'"
      by (auto split: option.splits if_splits)
    from 2(1) [OF True i(1) _ i(4)] i have "length ps' = length ps" and
      near: "k < length ps \<Longrightarrow> ps' ! k = ps[i := notify (ps ! i)] ! k \<or> ps' ! k = notify (ps[i := notify (ps ! i)] ! k)" for k
      by simp_all
    moreover have "ps' ! k = ps ! k \<or> ps' ! k = notify (ps ! k)" if "k < length ps" for k
      using near [OF that] that by (cases "k = i") auto
    ultimately show ?thesis by simp
  next
    case False
    with 2 show ?thesis by simp
  qed
next
  case (3 c a ks choice ps)
  let ?f = "\<lambda>p. if sleeps_on c a p then notify p else p"
  from 3 have "length ps' = length ps" and near: "k < length ps \<Longrightarrow> ps' ! k = ?f (ps ! k) \<or> ps' ! k = notify (?f (ps ! k))" for k
    by simp_all
  moreover have "ps' ! k = ps ! k \<or> ps' ! k = notify (ps ! k)" if "k < length ps" for k
    using near [OF that] by (auto split: if_splits)
  ultimately show ?case by simp
qed (auto split: if_splits)

lemma places_sub:
  assumes "places ps ss ws" "placed ps i q ps'" "i < length ss" "sub_place p q"
  shows "places ps' (ss[i := p]) ws"
proof -
  have len: "length ps = Suc (length ss + length ws)" "length ps' = length ps"
    using assms(1,2) by (auto simp: places_def placed_def)
  have near: "ps' ! k = ps[i := q] ! k \<or> ps' ! k = notify (ps[i := q] ! k)" if "k < length ps" for k
    using assms(2) that by (simp add: placed_def)
  show ?thesis unfolding places_def
  proof (intro conjI allI impI)
    fix k assume k: "k < length (ss[i := p])"
    then have "sub_place (ss[i := p] ! k) (ps[i := q] ! k)"
      using assms by (cases "k = i") (auto simp: places_def)
    then show "sub_place (ss[i := p] ! k) (ps' ! k)" using near [of k] k len place_notified(1) by fastforce
  next
    fix j assume j: "j < length ws"
    then have "worker_place (ws ! j) (ps[i := q] ! (length ss + j))" using assms(1,3) by (auto simp: places_def)
    then show "worker_place (ws ! j) (ps' ! (length (ss[i := p]) + j))"
      using near [of "length ss + j"] j len place_notified(2) by fastforce
  next
    show "ps' ! (length (ss[i := p]) + length ws) = Idle"
      using near [of "length ss + length ws"] len assms(1,3) by (auto simp: places_def)
  qed (use len in simp)
qed

lemma places_worker:
  assumes "places ps ss ws" "placed ps (length ss + j) q ps'" "j < length ws" "worker_place p q"
  shows "places ps' ss (ws[j := p])"
proof -
  let ?i = "length ss + j"
  have len: "length ps = Suc (length ss + length ws)" "length ps' = length ps"
    using assms(1,2) by (auto simp: places_def placed_def)
  have near: "ps' ! k = ps[?i := q] ! k \<or> ps' ! k = notify (ps[?i := q] ! k)" if "k < length ps" for k
    using assms(2) that by (simp add: placed_def)
  show ?thesis unfolding places_def
  proof (intro conjI allI impI)
    fix k assume k: "k < length ss"
    then have "sub_place (ss ! k) (ps[?i := q] ! k)" using assms by (auto simp: places_def)
    then show "sub_place (ss ! k) (ps' ! k)" using near [of k] k len place_notified(1) by fastforce
  next
    fix k assume k: "k < length (ws[j := p])"
    then have "worker_place (ws[j := p] ! k) (ps[?i := q] ! (length ss + k))"
      using assms len by (cases "k = j") (auto simp: places_def)
    then show "worker_place (ws[j := p] ! k) (ps' ! (length ss + k))"
      using near [of "length ss + k"] k len place_notified(2) by fastforce
  next
    show "ps' ! (length ss + length (ws[j := p])) = Idle"
      using near [of "length ss + length ws"] len assms(1,3) by (auto simp: places_def)
  qed (use len in simp)
qed

lemma places_control:
  assumes "places ps ss ws" "placed ps (length ss + length ws) Idle ps'"
  shows "places ps' ss ws"
proof -
  have same: "ps[length ss + length ws := Idle] = ps" using assms(1) by (simp add: places_def list_update_same_conv)
  have len: "length ps = Suc (length ss + length ws)" "length ps' = length ps"
    using assms by (auto simp: places_def placed_def)
  have near: "ps' ! k = ps ! k \<or> ps' ! k = notify (ps ! k)" if "k < length ps" for k
    using assms(2) that by (simp add: placed_def same)
  show ?thesis using assms(1) len near place_notified unfolding places_def
    by (metis add_less_cancel_left less_Suc_eq notify.simps(3) trans_less_add1)
qed


section \<open>A queue call as part of the whole\<close>

lemma settled_effect:
  assumes "cq_ok cq' w" "owned cq' = owned c" "wakes w = []"
    and "settle choice i p (Some cq') (issue c ks w) q = Some q'"
  shows "cq q' = cq' \<and> wld q' = w \<and> accepted q' = accepted q \<and> taken q' = taken q \<and> placed (pcs q) i p (pcs q')"
  using assms(4) issue_wakes(2) [OF assms(3), of c ks] deliver_placed [of cq' "wakes (issue c ks w)" choice "(pcs q)[i := p]"]
  by (auto simp: settle_def placed_def split: option.splits)

text \<open>What is left after a part of an insertion, and after a part of a removal.\<close>

lemma enqueue_effect:
  assumes ref: "refined c w outcome (p, ks, A)" and "wakes w = []" "enqueue_end choice i t outcome q = Some q'"
  shows "fst (fst outcome) = p \<and> wld q' = w \<and> cq_ok (cq q') w \<and> owned (cq q') = owned c \<and> cq_view (cq q') = A
    \<and> taken q' = taken q \<and> accepted q' = accepted q @ (if p = Returned CONCURRENT_TASK_QUEUE_OK then [t] else [])
    \<and> placed (pcs q) i (if p = Asleep then EnqAsleep t else Idle) (pcs q')"
proof -
  obtain cq' where cq': "outcome = ((p, Some cq'), issue c ks w)" "cq_ok cq' w" "owned cq' = owned c" "cq_view cq' = A"
    using ref by (auto elim!: refinedE)
  note eff = settled_effect [OF cq'(2,3) assms(2)]
  show ?thesis
  proof (cases p)
    case Asleep
    with assms(3) cq' eff [of choice i "EnqAsleep t" ks q q'] show ?thesis by (simp add: enqueue_end_def)
  next
    case (Returned r)
    with assms(3) cq' eff [of choice i Idle ks "if r = CONCURRENT_TASK_QUEUE_OK then q\<lparr>accepted := accepted q @ [t]\<rparr> else q" q']
    show ?thesis by (cases "r = CONCURRENT_TASK_QUEUE_OK") (auto simp: enqueue_end_def)
  qed
qed

definition handed_out :: "(ConcurrentTaskQueueResult \<times> task_ptr) progress \<Rightarrow> addr list" where
  "handed_out p = (case p of Returned (r, Some t) \<Rightarrow> [t] | _ \<Rightarrow> [])"

lemma dequeue_effect:
  assumes ref: "refined c w outcome (p, ks, A)" and "wakes w = []" "dequeue_end choice i outcome q = Some q'"
  shows "fst (fst outcome) = p \<and> wld q' = w \<and> cq_ok (cq q') w \<and> owned (cq q') = owned c \<and> cq_view (cq q') = A
    \<and> accepted q' = accepted q \<and> taken q' = taken q @ handed_out p
    \<and> placed (pcs q) i (if p = Asleep then DeqAsleep else Idle) (pcs q')"
proof -
  obtain cq' where cq': "outcome = ((p, Some cq'), issue c ks w)" "cq_ok cq' w" "owned cq' = owned c" "cq_view cq' = A"
    using ref by (auto elim!: refinedE)
  note eff = settled_effect [OF cq'(2,3) assms(2)]
  show ?thesis
  proof (cases p)
    case Asleep
    with assms(3) cq' eff [of choice i DeqAsleep ks q q'] show ?thesis by (simp add: dequeue_end_def handed_out_def)
  next
    case (Returned rx)
    obtain r x where rx: "rx = (r, x)" by (cases rx)
    with Returned assms(3) cq' eff [of choice i Idle ks "case x of None \<Rightarrow> q | Some t \<Rightarrow> q\<lparr>taken := taken q @ [t]\<rparr>" q']
    show ?thesis by (cases x) (auto simp: dequeue_end_def handed_out_def)
  qed
qed

section \<open>Custody and places\<close>

definition plumbing :: "world \<Rightarrow> net \<Rightarrow> bool" where
  "plumbing w0 s \<longleftrightarrow> custody w0 (core s) (env s) \<and> fate (env s) = [] \<and> sys_inv (queue_sys s)
     \<and> places (qpcs s) (subs s) (crew s) \<and> length (crew s) = unat (worker_count (core s))
     \<and> crew s \<noteq> []"

lemma plumbingD:
  assumes "plumbing w0 s"
  shows "custody w0 (core s) (env s)" "fate (env s) = []" "sys_inv (queue_sys s)" "places (qpcs s) (subs s) (crew s)"
    "gate_ok (core s) (env s)" "cq_ok (task_queue (core s)) (env s)" "wakes (env s) = []"
    "length (crew s) = unat (worker_count (core s))" "crew s \<noteq> []"
  using assms custody_gate [of w0 "core s" "env s"]
  by (simp_all add: plumbing_def sys_inv_def sys_ok_def queue_sys_def)

lemma parts_queue:
  assumes "custody w0 impl w" "owned q = owned (task_queue impl)" "cq_ok q w"
  shows "custody w0 (impl\<lparr>task_queue := q\<rparr>) w"
proof -
  have "queue_section q = queue_section (task_queue impl)" "queue_blocks q = queue_blocks (task_queue impl)"
    using assms(2,3) assms(1) by (cases "implementation q"; cases "implementation (task_queue impl)";
      auto simp: owned_def queue_section_def cq_ok_def queue_blocks_def custody_def shaped_def)+
  then have "parts (impl\<lparr>task_queue := q\<rparr>) = parts impl"
    using assms(2) by (simp add: parts_def blocks_def core_blocks_def sync_blocks_def context_blocks_def
      crew_blocks_def sections_of_def crew_handles_def shaped_def)
  from custody_parts [OF this] assms(1) show ?thesis by simp
qed

text \<open>A step of the queue's system is a step of the whole.\<close>

lemma absorb_fields [simp]:
  "queue_sys (absorb s q) = q" "core (absorb s q) = (core s)\<lparr>task_queue := cq q\<rparr>" "env (absorb s q) = wld q"
  "qpcs (absorb s q) = pcs q" "subs (absorb s q) = subs s" "crew (absorb s q) = crew s"
  "ctl (absorb s q) = ctl s" "called (absorb s q) = called s" "enqd (absorb s q) = accepted q"
  "deqd (absorb s q) = taken q" "log (absorb s q) = log s" "ticks (absorb s q) = ticks s"
  by (simp_all add: absorb_def queue_sys_def)

lemma queue_sys_fields [simp]:
  "cq (queue_sys s) = task_queue (core s)" "wld (queue_sys s) = env s" "pcs (queue_sys s) = qpcs s"
  "accepted (queue_sys s) = enqd s" "taken (queue_sys s) = deqd s"
  "queue_sys (s\<lparr>subs := ss\<rparr>) = queue_sys s" "queue_sys (s\<lparr>crew := ws\<rparr>) = queue_sys s"
  "queue_sys (s\<lparr>ctl := c\<rparr>) = queue_sys s" "queue_sys (s\<lparr>called := cs\<rparr>) = queue_sys s"
  "queue_sys (s\<lparr>log := l\<rparr>) = queue_sys s" "queue_sys (s\<lparr>ticks := k\<rparr>) = queue_sys s"
  by (simp_all add: queue_sys_def)

lemma plumbing_absorb:
  assumes "plumbing w0 s" "step ts a (queue_sys s) = Some q" "wld q = (env s)\<lparr>fate := []\<rparr>"
    "owned (cq q) = owned (task_queue (core s))" "places (pcs q) ss ws" "length ws = length (crew s)"
  shows "plumbing w0 ((absorb s q)\<lparr>subs := ss, crew := ws\<rparr>)"
proof -
  note s = plumbingD [OF assms(1)]
  have inv: "sys_inv q" by (rule program.step_inv [OF s(3) assms(2)])
  have env: "(env s)\<lparr>fate := []\<rparr> = env s" using s(2) by simp
  have cok: "cq_ok (cq q) (env s)" using inv assms(3) env by (simp add: sys_inv_def sys_ok_def)
  have "ws \<noteq> []" using s(9) assms(6) by auto
  with parts_queue [OF s(1) assms(4) cok] inv s assms env show ?thesis by (simp add: plumbing_def)
qed

section \<open>The parts that use the queue\<close>

definition queue_moves :: "net \<Rightarrow> abs_queue \<Rightarrow> addr list \<Rightarrow> addr list \<Rightarrow> net \<Rightarrow> bool" where
  "queue_moves s A es ds s' \<longleftrightarrow> (\<exists>q. s' = absorb s q \<and> cq_view (cq q) = A \<and> accepted q = enqd s @ es
     \<and> taken q = deqd s @ ds \<and> wld q = env s)"

definition insert_spec ::
  "bool \<Rightarrow> bool \<Rightarrow> addr \<Rightarrow> abs_queue \<Rightarrow> ConcurrentTaskQueueResult progress \<times> signal list \<times> abs_queue" where
  "insert_spec ts blocking t A = (if blocking then spec_enqueue ts t A else at_once (spec_try_enqueue ts t A))"

abbreviation queue_of :: "net \<Rightarrow> abs_queue" where
  "queue_of s \<equiv> cq_view (task_queue (core s))"

abbreviation newly :: "ConcurrentTaskQueueResult progress \<Rightarrow> addr \<Rightarrow> addr list" where
  "newly p t \<equiv> (if p = Returned CONCURRENT_TASK_QUEUE_OK then [t] else [])"

lemma inserted_place: "sub_place (inserted b t p) (if p = Asleep then EnqAsleep t else Idle)"
  by (simp add: sub_place_def inserted_def split: progress.splits)

lemma removed_place: "worker_place (removed p) (if p = Asleep then DeqAsleep else Idle)"
  by (simp add: worker_place_def removed_def split: progress.splits prod.splits worker_next.splits)

lemma submit_insert_effect:
  assumes pl: "plumbing w0 s" and i: "i < length (subs s)"
    and ref: "refined (task_queue (core s)) (env s) outcome (p, ks, A)"
    and run: "submit_insert b choice i t outcome s = Some s'"
    and stp: "\<And>q. enqueue_end choice i t outcome (queue_sys s) = Some q \<Longrightarrow> step ts a (queue_sys s) = Some q"
  obtains s1 where "queue_moves s A (newly p t) [] s1" "s' = s1\<lparr>subs := (subs s)[i := inserted b t p]\<rparr>" "plumbing w0 s'"
proof -
  note s = plumbingD [OF pl]
  obtain q where q: "enqueue_end choice i t outcome (queue_sys s) = Some q"
    "s' = (absorb s q)\<lparr>subs := (subs s)[i := inserted b t (fst (fst outcome))]\<rparr>"
    using run by (auto simp: submit_insert_def)
  note eff = enqueue_effect [OF ref s(7) q(1)]
  have "places (pcs q) ((subs s)[i := inserted b t p]) (crew s)"
    by (rule places_sub [OF s(4) _ i inserted_place]) (use eff in simp)
  with plumbing_absorb [OF pl stp [OF q(1)], where ss = "(subs s)[i := inserted b t p]" and ws = "crew s"] eff s(2)
  have "plumbing w0 ((absorb s q)\<lparr>subs := (subs s)[i := inserted b t p], crew := crew s\<rparr>)" by simp
  moreover have "(absorb s q)\<lparr>subs := (subs s)[i := inserted b t p], crew := crew s\<rparr> = s'"
    using q(2) eff by (simp add: absorb_def)
  ultimately show ?thesis using that [of "absorb s q"] eff q(2) by (auto simp: queue_moves_def)
qed

lemma worker_remove_effect:
  assumes pl: "plumbing w0 s" and j: "j < length (crew s)"
    and ref: "refined (task_queue (core s)) (env s) outcome (p, ks, A)"
    and run: "worker_remove choice j outcome s = Some s'"
    and stp: "\<And>q. dequeue_end choice (worker_thread j s) outcome (queue_sys s) = Some q \<Longrightarrow> step ts a (queue_sys s) = Some q"
  obtains s1 where "queue_moves s A [] (handed_out p) s1" "s' = s1\<lparr>crew := (crew s)[j := removed p]\<rparr>" "plumbing w0 s'"
proof -
  note s = plumbingD [OF pl]
  obtain q where q: "dequeue_end choice (worker_thread j s) outcome (queue_sys s) = Some q"
    "s' = (absorb s q)\<lparr>crew := (crew s)[j := removed (fst (fst outcome))]\<rparr>"
    using run by (auto simp: worker_remove_def)
  note eff = dequeue_effect [OF ref s(7) q(1)]
  have "places (pcs q) (subs s) ((crew s)[j := removed p])"
    by (rule places_worker [OF s(4) _ j removed_place]) (use eff in simp)
  with plumbing_absorb [OF pl stp [OF q(1)], where ss = "subs s" and ws = "(crew s)[j := removed p]"] eff s(2)
  have "plumbing w0 ((absorb s q)\<lparr>subs := subs s, crew := (crew s)[j := removed p]\<rparr>)" by simp
  moreover have "(absorb s q)\<lparr>subs := subs s, crew := (crew s)[j := removed p]\<rparr> = s'"
    using q(2) eff by (simp add: absorb_def)
  ultimately show ?thesis using that [of "absorb s q"] eff q(2) by (auto simp: queue_moves_def)
qed

lemma place_idle:
  assumes "plumbing w0 s"
  shows "i < length (subs s) \<Longrightarrow> subs s ! i = SInside t b \<Longrightarrow> idle i (qpcs s)"
    "j < length (crew s) \<Longrightarrow> crew s ! j = WLoop \<Longrightarrow> idle (worker_thread j s) (qpcs s)"
    "j < length (crew s) \<Longrightarrow> crew s ! j = WShut r \<Longrightarrow> idle (worker_thread j s) (qpcs s)"
    "idle (control_thread s) (qpcs s)"
  using plumbingD(4) [OF assms] by (auto simp: places_def sub_place_def worker_place_def)

lemma submit_first_effect:
  assumes pl: "plumbing w0 s" and run: "submit_first ts choice i s = Some s'"
  obtains t b p ks A s1 where "i < length (subs s)" "subs s ! i = SInside t b"
    "insert_spec ts b t (queue_of s) = (p, ks, A)" "queue_moves s A (newly p t) [] s1"
    "s' = s1\<lparr>subs := (subs s)[i := inserted b t p]\<rparr>" "plumbing w0 s'"
proof -
  let ?o = "\<lambda>b t. if b
         then run_state (concurrent_task_queue_enqueue_begin ts (Some (task_queue (core s))) (Some t)) (env s)
         else returned (run_state (concurrent_task_queue_try_enqueue ts (Some (task_queue (core s))) (Some t)) (env s))"
  obtain t b where i: "i < length (subs s)" "subs s ! i = SInside t b" and r: "submit_insert b choice i t (?o b t) s = Some s'"
    using run by (auto simp: submit_first_def split: if_splits submitter.splits)
  obtain p ks A where spec: "insert_spec ts b t (queue_of s) = (p, ks, A)" by (metis prod_cases3)
  have ref: "refined (task_queue (core s)) (env s) (?o b t) (p, ks, A)"
    using spec plumbingD(6) [OF pl] by (auto simp: insert_spec_def spec [symmetric]
        intro!: enqueue_begin_refined refined_returned try_enqueue_refined)
  have "step ts (if b then Enqueue i t choice else TryEnqueue i t choice) (queue_sys s) = Some q"
    if "enqueue_end choice i t (?o b t) (queue_sys s) = Some q" for q
    using that place_idle(1) [OF pl i] by (auto simp: step_def)
  from submit_insert_effect [OF pl i(1) ref r this] that [OF i spec] show ?thesis by blast
qed

lemma resume_refined:
  assumes pl: "plumbing w0 s"
  shows "refined (task_queue (core s)) (env s) (run_state (concurrent_task_queue_enqueue_resume ts (task_queue (core s))
      (the (implementation (task_queue (core s)))) t) ((env s)\<lparr>fate := [ok]\<rparr>)) (spec_enqueue_resume ok ts t (queue_of s))"
    "refined (task_queue (core s)) (env s) (run_state (concurrent_task_queue_dequeue_resume ts (task_queue (core s))
      (the (implementation (task_queue (core s))))) ((env s)\<lparr>fate := [ok]\<rparr>)) (spec_dequeue_resume ok ts (queue_of s))"
proof -
  note s = plumbingD [OF pl]
  have ok: "cq_ok (task_queue (core s)) ((env s)\<lparr>fate := [ok]\<rparr>)" using s(6) by simp
  obtain impl where impl: "implementation (task_queue (core s)) = Some impl" using s(6) by (auto elim: cq_okE)
  have env: "(env s)\<lparr>fate := []\<rparr> = env s" using s(2) by simp
  show "refined (task_queue (core s)) (env s) (run_state (concurrent_task_queue_enqueue_resume ts (task_queue (core s))
      (the (implementation (task_queue (core s)))) t) ((env s)\<lparr>fate := [ok]\<rparr>)) (spec_enqueue_resume ok ts t (queue_of s))"
    using enqueue_resume_refined [OF ok impl, of ts t] impl env by (simp add: next_answer_def)
  show "refined (task_queue (core s)) (env s) (run_state (concurrent_task_queue_dequeue_resume ts (task_queue (core s))
      (the (implementation (task_queue (core s))))) ((env s)\<lparr>fate := [ok]\<rparr>)) (spec_dequeue_resume ok ts (queue_of s))"
    using dequeue_resume_refined [OF ok impl, of ts] impl env by (simp add: next_answer_def)
qed

text \<open>A failed wait has no choice of whom to wake.\<close>

lemma submit_resume_effect:
  assumes pl: "plumbing w0 s" and run: "submit_resume ts ok choice i s = Some s'" and "ok \<or> choice = None"
  obtains t p ks A s1 where "i < length (subs s)" "subs s ! i = SWaiting t"
    "spec_enqueue_resume ok ts t (queue_of s) = (p, ks, A)" "queue_moves s A (newly p t) [] s1"
    "s' = s1\<lparr>subs := (subs s)[i := inserted True t p]\<rparr>" "plumbing w0 s'"
proof -
  let ?o = "\<lambda>t. run_state (concurrent_task_queue_enqueue_resume ts (task_queue (core s))
            (the (implementation (task_queue (core s)))) t) ((env s)\<lparr>fate := [ok]\<rparr>)"
  obtain t where i: "i < length (subs s)" "subs s ! i = SWaiting t" "i < length (qpcs s)"
    "qpcs s ! i = (if ok then EnqNotified t else EnqAsleep t)" and r: "submit_insert True choice i t (?o t) s = Some s'"
    using run by (auto simp: submit_resume_def split: if_splits submitter.splits)
  obtain p ks A where spec: "spec_enqueue_resume ok ts t (queue_of s) = (p, ks, A)" by (metis prod_cases3)
  have ref: "refined (task_queue (core s)) (env s) (?o t) (p, ks, A)"
    using resume_refined(1) [OF pl, of ts t ok] spec by simp
  have "step ts (if ok then Resume i choice else Fail i) (queue_sys s) = Some q"
    if "enqueue_end choice i t (?o t) (queue_sys s) = Some q" for q
    using that i assms(3) by (auto simp: step_def resume_enqueue_def)
  from submit_insert_effect [OF pl i(1) ref r this] that [OF i(1,2) spec] show ?thesis by blast
qed

lemma worker_take_effect:
  assumes pl: "plumbing w0 s" and run: "worker_take ts choice j s = Some s'"
  obtains p ks A s1 where "j < length (crew s)" "crew s ! j = WLoop"
    "spec_dequeue ts (queue_of s) = (p, ks, A)" "queue_moves s A [] (handed_out p) s1"
    "s' = s1\<lparr>crew := (crew s)[j := removed p]\<rparr>" "plumbing w0 s'"
proof -
  let ?o = "run_state (concurrent_task_queue_dequeue_begin ts (Some (task_queue (core s))) True) (env s)"
  have j: "j < length (crew s)" "crew s ! j = WLoop" and r: "worker_remove choice j ?o s = Some s'"
    using run by (auto simp: worker_take_def split: if_splits)
  obtain p ks A where spec: "spec_dequeue ts (queue_of s) = (p, ks, A)" by (metis prod_cases3)
  have ref: "refined (task_queue (core s)) (env s) ?o (p, ks, A)"
    using dequeue_begin_refined [OF plumbingD(6) [OF pl], of ts] spec by simp
  have "step ts (Dequeue (worker_thread j s) choice) (queue_sys s) = Some q"
    if "dequeue_end choice (worker_thread j s) ?o (queue_sys s) = Some q" for q
    using that place_idle(2) [OF pl j] by (auto simp: step_def)
  from worker_remove_effect [OF pl j(1) ref r this] that [OF j spec] show ?thesis by blast
qed

lemma worker_resume_effect:
  assumes pl: "plumbing w0 s" and run: "worker_resume ts ok choice j s = Some s'" and "ok \<or> choice = None"
  obtains p ks A s1 where "j < length (crew s)" "crew s ! j = WWaiting"
    "spec_dequeue_resume ok ts (queue_of s) = (p, ks, A)" "queue_moves s A [] (handed_out p) s1"
    "s' = s1\<lparr>crew := (crew s)[j := removed p]\<rparr>" "plumbing w0 s'"
proof -
  let ?o = "run_state (concurrent_task_queue_dequeue_resume ts (task_queue (core s))
         (the (implementation (task_queue (core s))))) ((env s)\<lparr>fate := [ok]\<rparr>)"
  have j: "j < length (crew s)" "crew s ! j = WWaiting" "worker_thread j s < length (qpcs s)"
    "qpcs s ! worker_thread j s = (if ok then DeqNotified else DeqAsleep)" and r: "worker_remove choice j ?o s = Some s'"
    using run by (auto simp: worker_resume_def split: if_splits)
  obtain p ks A where spec: "spec_dequeue_resume ok ts (queue_of s) = (p, ks, A)" by (metis prod_cases3)
  have ref: "refined (task_queue (core s)) (env s) ?o (p, ks, A)"
    using resume_refined(2) [OF pl, of ts ok] spec by simp
  have "step ts (if ok then Resume (worker_thread j s) choice else Fail (worker_thread j s)) (queue_sys s) = Some q"
    if "dequeue_end choice (worker_thread j s) ?o (queue_sys s) = Some q" for q
    using that j assms(3) by (auto simp: step_def resume_dequeue_def)
  from worker_remove_effect [OF pl j(1) ref r this] that [OF j(1,2) spec] show ?thesis by blast
qed

text \<open>Shutting the queue, by a worker or by the controlling thread.\<close>

lemma net_shut_effect:
  assumes pl: "plumbing w0 s" and idl: "idle i (qpcs s)" and run: "net_shut i s = Some (r, s1)"
    and pls: "\<And>ps'. placed (qpcs s) i Idle ps' \<Longrightarrow> places ps' (subs s) ws" and len: "length ws = length (crew s)"
  shows "r = CONCURRENT_TASK_QUEUE_OK \<and> queue_moves s ((queue_of s)\<lparr>closed := True\<rparr>) [] [] s1
    \<and> plumbing w0 (s1\<lparr>crew := ws\<rparr>)"
proof -
  note s = plumbingD [OF pl]
  obtain cq' where cq': "run_state (concurrent_task_queue_shutdown (Some (task_queue (core s)))) (env s)
      = ((CONCURRENT_TASK_QUEUE_OK, Some cq'), issue (task_queue (core s)) [All_consumers, All_producers] (env s))"
    "cq_ok cq' (env s)" "owned cq' = owned (task_queue (core s))" "cq_view cq' = (queue_of s)\<lparr>closed := True\<rparr>"
    using shutdown_refined [OF s(6)] by (auto elim!: refinedE)
  obtain q where q: "settle None i Idle (Some cq') (issue (task_queue (core s)) [All_consumers, All_producers] (env s)) (queue_sys s) = Some q"
    "r = CONCURRENT_TASK_QUEUE_OK" "s1 = absorb s q" using run cq'(1) by (auto simp: net_shut_def)
  note eff = settled_effect [OF cq'(2,3) s(7) q(1)]
  have "step ts (Shutdown i) (queue_sys s) = Some q" for ts using idl cq'(1) q(1) by (simp add: step_def)
  from plumbing_absorb [OF pl this, of "subs s" ws] eff cq'(3) s(2) pls len
  have "plumbing w0 ((absorb s q)\<lparr>subs := subs s, crew := ws\<rparr>)" by simp
  moreover have "(absorb s q)\<lparr>subs := subs s, crew := ws\<rparr> = s1\<lparr>crew := ws\<rparr>" using q(3) by (simp add: absorb_def)
  ultimately show ?thesis using q eff cq'(4) by (auto simp: queue_moves_def)
qed

lemma worker_abandon_effect:
  assumes pl: "plumbing w0 s" and run: "worker_abandon j s = Some s'"
  obtains r s1 where "j < length (crew s)" "crew s ! j = WShut r"
    "queue_moves s ((queue_of s)\<lparr>closed := True\<rparr>) [] [] s1"
    "s' = s1\<lparr>crew := (crew s)[j := WLeaving r]\<rparr>" "plumbing w0 s'"
proof -
  obtain r x s1 where j: "j < length (crew s)" "crew s ! j = WShut r"
    and shut: "net_shut (worker_thread j s) s = Some (x, s1)" "s' = s1\<lparr>crew := (crew s)[j := WLeaving r]\<rparr>"
    using run by (auto simp: worker_abandon_def split: if_splits worker.splits)
  have "places ps' (subs s) ((crew s)[j := WLeaving r])" if "placed (qpcs s) (worker_thread j s) Idle ps'" for ps'
    by (rule places_worker [OF plumbingD(4) [OF pl] that j(1)]) (simp add: worker_place_def)
  from net_shut_effect [OF pl place_idle(3) [OF pl j] shut(1) this] that [OF j _ shut(2)] shut(2) show ?thesis
    by (simp)
qed

lemma control_shut_effect:
  assumes pl: "plumbing w0 s" and run: "net_shut (control_thread s) s = Some (r, s1)"
  shows "r = CONCURRENT_TASK_QUEUE_OK \<and> queue_moves s ((queue_of s)\<lparr>closed := True\<rparr>) [] [] s1 \<and> plumbing w0 s1"
proof -
  have "crew s1 = crew s" using run by (auto simp: net_shut_def split: prod.splits)
  then have same: "s1\<lparr>crew := crew s\<rparr> = s1" by simp
  from net_shut_effect [OF pl place_idle(4) [OF pl] run places_control [OF plumbingD(4) [OF pl]]] show ?thesis
    by (simp add: same)
qed

end
