(* ===== verification/Scheduler_Invariant.thy ===== *)
theory Scheduler_Invariant
  imports Scheduler_Threads "HOL-Library.Multiset"
begin

text \<open>
  The invariant of the whole scheduler, one predicate for each of its concerns (the resources and
  the queue, the submission gate, the crew, the accounting, the draining of the queue, the
  lifecycle), each with the fields it depends on, and that the submitters keep it.
\<close>

section \<open>The invariant\<close>

text \<open>
  The submission gate: the registered submitters are counted, every call that was counted as
  submitted is accepted, rejected or still inside, and what the queue accepted is counted or
  about to be.
\<close>

abbreviation inside :: "submitter list \<Rightarrow> nat" where
  "inside ss \<equiv> tallied (\<lambda>p. p \<noteq> SIdle) ss"

definition gate_inv :: "SchedulerImplementation \<Rightarrow> submitter list \<Rightarrow> addr list \<Rightarrow> nat \<Rightarrow> bool" where
  "gate_inv impl ss es k \<longleftrightarrow> unat (active_submitter_count impl) = inside ss
     \<and> unat (submitted_count impl) = unat (accepted_count impl) + unat (rejected_count impl) + inside ss
     \<and> length es = unat (accepted_count impl) + tallied (\<lambda>p. p = SLeaving SCHEDULER_OK) ss
     \<and> unat (submitted_count impl) \<le> k \<and> \<not> lifecycle_accounting_overflow impl \<and> length ss < 2 ^ 64"

definition gate_fields :: "SchedulerImplementation \<Rightarrow> size_t \<times> u64 \<times> u64 \<times> u64 \<times> bool" where
  "gate_fields impl = (active_submitter_count impl, submitted_count impl, accepted_count impl, rejected_count impl,
     lifecycle_accounting_overflow impl)"

lemma gate_frame: "gate_fields impl' = gate_fields impl \<Longrightarrow> gate_inv impl' ss es k = gate_inv impl ss es k"
  by (simp add: gate_inv_def gate_fields_def)

text \<open>The workers: which of them have a thread, report and count as active.\<close>

fun busy :: "worker \<Rightarrow> bool" where
  "busy WAbsent \<longleftrightarrow> False"
| "busy WStarting \<longleftrightarrow> False"
| "busy (WFinished r) \<longleftrightarrow> False"
| "busy WJoined \<longleftrightarrow> False"
| "busy p \<longleftrightarrow> True"

definition employed :: "worker \<Rightarrow> bool" where
  "employed p \<longleftrightarrow> p \<noteq> WAbsent \<and> p \<noteq> WJoined"

definition has_reported :: "worker \<Rightarrow> bool" where
  "has_reported p \<longleftrightarrow> p \<noteq> WAbsent \<and> p \<noteq> WStarting"

definition result_of :: "SchedulerImplementation \<Rightarrow> nat \<Rightarrow> int option" where
  "result_of impl j = map_option (\<lambda>x. start_result (start x)) (Option.bind (thread_at impl j) thread_impl)"

definition context_ok :: "SchedulerImplementation \<Rightarrow> worker \<Rightarrow> nat \<Rightarrow> bool" where
  "context_ok impl p j \<longleftrightarrow> (case context_at impl j of None \<Rightarrow> False
     | Some c \<Rightarrow> p \<noteq> WAbsent \<longrightarrow> ctx_scheduler c \<noteq> None \<and> worker_index c < worker_count impl)"

definition crew_inv :: "SchedulerImplementation \<Rightarrow> worker list \<Rightarrow> bool" where
  "crew_inv impl ws \<longleftrightarrow> unat (active_worker_count impl) = tallied busy ws
     \<and> unat (created_worker_count impl) = tallied (\<lambda>p. p \<noteq> WAbsent) ws
     \<and> (\<forall>j < length ws. present impl j \<longleftrightarrow> employed (ws ! j))
     \<and> (\<forall>j < length ws. \<forall>r. ws ! j = WFinished r \<longrightarrow> result_of impl j = Some r)
     \<and> (if threads impl = None then worker_contexts impl = None \<and> started_worker_count impl = 0 \<and> ready_worker_count impl = 0
        else staffed impl \<and> unat (started_worker_count impl) = tallied (\<lambda>p. p \<noteq> WAbsent) ws
          \<and> (\<forall>j < length ws. ws ! j = WAbsent \<longleftrightarrow> unat (started_worker_count impl) \<le> j)
          \<and> unat (ready_worker_count impl) = tallied has_reported ws
          \<and> (\<forall>j < length ws. context_ok impl (ws ! j) j))"

definition crew_fields where
  "crew_fields impl = (active_worker_count impl, created_worker_count impl, threads impl, worker_contexts impl,
     started_worker_count impl, ready_worker_count impl, worker_count impl, worker_sync_initialized impl, worker_startup_failure_count impl)"

lemma crew_same:
  assumes "threads impl' = threads impl" "worker_contexts impl' = worker_contexts impl" "worker_count impl' = worker_count impl"
    "worker_sync_initialized impl' = worker_sync_initialized impl" "active_worker_count impl' = active_worker_count impl"
    "created_worker_count impl' = created_worker_count impl" "started_worker_count impl' = started_worker_count impl"
    "ready_worker_count impl' = ready_worker_count impl"
  shows "crew_inv impl' ws = crew_inv impl ws" "present impl' = present impl"
proof -
  have "thread_at impl' = thread_at impl" "context_at impl' = context_at impl"
    using assms by (simp_all add: fun_eq_iff thread_at_def context_at_def)
  then have "present impl' = present impl" "result_of impl' = result_of impl" "context_ok impl' = context_ok impl"
    "staffed impl' = staffed impl"
    using assms by (simp_all add: fun_eq_iff present_iff result_of_def context_ok_def staffed_def split: option.splits)
  with assms show "crew_inv impl' ws = crew_inv impl ws" "present impl' = present impl"
    by (simp_all add: crew_inv_def)
qed

lemma crew_frame:
  assumes "crew_fields impl' = crew_fields impl"
  shows "crew_inv impl' ws = crew_inv impl ws" "present impl' = present impl"
  using assms crew_same [of impl' impl] by (simp_all add: crew_fields_def)

text \<open>
  The accounting of the workers: each context counts what its worker did, the totals of the
  scheduler take over when the contexts go, and every removed task was called back for or is
  in the hands of a worker.
\<close>

fun holds :: "worker \<Rightarrow> addr list" where
  "holds (WTook t) = [t]"
| "holds (WCounted t) = [t]"
| "holds (WStarted t) = [t]"
| "holds (WRunning t b) = [t]"
| "holds p = []"

abbreviation one_if :: "bool \<Rightarrow> nat" where
  "one_if b \<equiv> (if b then 1 else 0)"

definition tracks :: "nat \<Rightarrow> worker \<Rightarrow> (nat \<times> addr \<times> int) list \<Rightarrow> WorkerContext \<Rightarrow> bool" where
  "tracks j p cs c \<longleftrightarrow> (let h = filter (\<lambda>x. fst x = j) cs in
     unat (ctx_dequeued_count c) = length h
       + one_if (case p of WCounted t \<Rightarrow> True | WStarted t \<Rightarrow> True | WRunning t b \<Rightarrow> True | _ \<Rightarrow> False)
     \<and> unat (ctx_callback_started_count c) = length h
       + one_if (case p of WStarted t \<Rightarrow> True | WRunning t b \<Rightarrow> True | _ \<Rightarrow> False)
     \<and> unat (ctx_callback_succeeded_count c) + one_if (case p of WReturned r b \<Rightarrow> r = 0 | _ \<Rightarrow> False)
       = tallied (\<lambda>x. snd (snd x) = 0) h
     \<and> unat (ctx_callback_failed_count c) + one_if (case p of WReturned r b \<Rightarrow> r \<noteq> 0 | _ \<Rightarrow> False)
       = tallied (\<lambda>x. snd (snd x) \<noteq> 0) h
     \<and> unat (ctx_currently_running_count c)
       = one_if (case p of WRunning t b \<Rightarrow> True | WReturned r b \<Rightarrow> True | WAccounted b \<Rightarrow> True | _ \<Rightarrow> False)
     \<and> (case p of WRunning t b \<Rightarrow> b | WReturned r b \<Rightarrow> b | WAccounted b \<Rightarrow> b | _ \<Rightarrow> True)
     \<and> \<not> accounting_overflow c)"

definition totals :: "SchedulerImplementation \<Rightarrow> (nat \<times> addr \<times> int) list \<Rightarrow> bool" where
  "totals impl cs \<longleftrightarrow> unat (dequeued_count impl) = length cs \<and> unat (callback_started_count impl) = length cs
     \<and> unat (successful_callback_count impl) = tallied (\<lambda>x. snd (snd x) = 0) cs
     \<and> unat (failed_callback_count impl) = tallied (\<lambda>x. snd (snd x) \<noteq> 0) cs"

definition account_inv ::
  "SchedulerImplementation \<Rightarrow> worker list \<Rightarrow> addr list \<Rightarrow> (nat \<times> addr \<times> int) list \<Rightarrow> nat \<Rightarrow> bool" where
  "account_inv impl ws ds cs k \<longleftrightarrow> mset ds = mset (map (\<lambda>x. fst (snd x)) cs) + mset (concat (map holds ws))
     \<and> (\<forall>x \<in> set cs. fst x < length ws) \<and> length ds \<le> k
     \<and> \<not> worker_accounting_overflow impl \<and> worker_startup_failure_count impl \<le> 1
     \<and> unat (worker_runtime_failure_count impl) \<le> k \<and> unat (join_failure_count impl) \<le> k
     \<and> (if threads impl = None then totals impl cs
        else totals impl [] \<and> (\<forall>j < length ws. \<forall>c. context_at impl j = Some c \<longrightarrow> tracks j (ws ! j) cs c))"

definition account_fields where
  "account_fields impl = (threads impl = None, worker_contexts impl, dequeued_count impl, callback_started_count impl,
     successful_callback_count impl, failed_callback_count impl, worker_accounting_overflow impl,
     worker_startup_failure_count impl, worker_runtime_failure_count impl, join_failure_count impl)"

lemma account_frame: "account_fields impl' = account_fields impl \<Longrightarrow> account_inv impl' ws ds cs k = account_inv impl ws ds cs k"
  by (simp add: account_inv_def account_fields_def totals_def context_at_def)

lemma account_more: "account_inv impl ws ds cs k \<Longrightarrow> k \<le> k' \<Longrightarrow> account_inv impl ws ds cs k'"
  by (auto simp: account_inv_def)

lemma gate_more: "gate_inv impl ss es k \<Longrightarrow> k \<le> k' \<Longrightarrow> gate_inv impl ss es k'"
  by (auto simp: gate_inv_def)

text \<open>
  Draining: a worker leaves with success only from a shut and empty queue, and any other way of
  leaving is remembered.
\<close>

definition dry :: "abs_queue \<Rightarrow> bool" where
  "dry A \<longleftrightarrow> closed A \<and> elems A = []"

fun leaves_well :: "worker \<Rightarrow> bool" where
  "leaves_well (WLeaving r) \<longleftrightarrow> r = 0"
| "leaves_well (WFinished r) \<longleftrightarrow> r = 0"
| "leaves_well p \<longleftrightarrow> False"

fun withdrawn :: "worker \<Rightarrow> bool" where
  "withdrawn (WLeaving r) \<longleftrightarrow> True"
| "withdrawn (WFinished r) \<longleftrightarrow> True"
| "withdrawn WJoined \<longleftrightarrow> True"
| "withdrawn p \<longleftrightarrow> False"

definition drain_inv :: "SchedulerImplementation \<Rightarrow> abs_queue \<Rightarrow> worker list \<Rightarrow> bool" where
  "drain_inv impl A ws \<longleftrightarrow> (\<forall>p \<in> set ws. (leaves_well p \<longrightarrow> dry A) \<and> (withdrawn p \<longrightarrow> closed A)
       \<and> (p = WJoined \<longrightarrow> worker_infrastructure_failure impl \<or> dry A)
       \<and> (\<forall>r. p = WFinished r \<and> r \<noteq> 0 \<longrightarrow> worker_infrastructure_failure impl) \<and> p \<noteq> WShut 0)
     \<and> unat (joined_worker_count impl) \<le> tallied (\<lambda>p. p = WJoined) ws
     \<and> (worker_infrastructure_failure impl \<or> join_failure_count impl \<noteq> 0
        \<or> unat (joined_worker_count impl) = tallied (\<lambda>p. p = WJoined) ws)"

definition drain_fields where
  "drain_fields impl = (worker_infrastructure_failure impl, join_failure_count impl, joined_worker_count impl)"

lemma drain_frame:
  assumes "drain_fields impl' = drain_fields impl" "dry A \<Longrightarrow> dry A'" "closed A \<Longrightarrow> closed A'" "drain_inv impl A ws"
  shows "drain_inv impl' A' ws"
  using assms by (auto simp: drain_inv_def drain_fields_def)

text \<open>
  The lifecycle: what the state of the scheduler says about the controlling thread, the
  submitters, the workers and the queue.
\<close>

abbreviation unborn :: "worker list \<Rightarrow> bool" where
  "unborn ws \<equiv> \<forall>p \<in> set ws. p = WAbsent"

abbreviation complete :: "worker list \<Rightarrow> bool" where
  "complete ws \<equiv> WAbsent \<notin> set ws"

definition release_ok :: "SchedulerImplementation \<Rightarrow> nat \<Rightarrow> bool \<Rightarrow> SchedulerResult \<Rightarrow> bool" where
  "release_ok impl i all_joined r \<longleftrightarrow> i \<le> unat (started_worker_count impl)
     \<and> (if all_joined then \<forall>j < i. \<not> present impl j else \<exists>j < i. present impl j)
     \<and> (r = SCHEDULER_OK \<or> r = SCHEDULER_ERROR_SYSTEM)"

definition ended :: "SchedulerImplementation \<Rightarrow> bool" where
  "ended impl \<longleftrightarrow> threads impl = None \<or> (\<exists>j. present impl j)"

definition control_inv ::
  "SchedulerImplementation \<Rightarrow> abs_queue \<Rightarrow> submitter list \<Rightarrow> worker list \<Rightarrow> controller \<Rightarrow> bool" where
  "control_inv impl A ss ws c \<longleftrightarrow> (case c of
      CIdle \<Rightarrow> sched_state impl \<noteq> SCHEDULER_STATE_STARTING
        \<and> (sched_state impl = SCHEDULER_STATE_SHUTTING_DOWN \<longrightarrow> closed A)
    | CResources \<Rightarrow> sched_state impl = SCHEDULER_STATE_STARTING \<and> threads impl = None
        \<and> \<not> worker_sync_initialized impl \<and> unborn ws \<and> worker_startup_failure_count impl = 0
    | CCreate i \<Rightarrow> sched_state impl = SCHEDULER_STATE_STARTING \<and> threads impl \<noteq> None
        \<and> i = unat (started_worker_count impl) \<and> i \<le> length ws \<and> worker_startup_failure_count impl = 0
    | CStartAsleep \<Rightarrow> sched_state impl = SCHEDULER_STATE_STARTING \<and> threads impl \<noteq> None \<and> complete ws
        \<and> ready_worker_count impl < worker_count impl
    | CStartNotified \<Rightarrow> sched_state impl = SCHEDULER_STATE_STARTING \<and> threads impl \<noteq> None \<and> complete ws
    | COpen \<Rightarrow> sched_state impl = SCHEDULER_STATE_STARTING \<and> threads impl \<noteq> None \<and> complete ws
        \<and> (\<forall>p \<in> set ws. has_reported p)
    | CAbort \<Rightarrow> sched_state impl = SCHEDULER_STATE_STARTING \<and> threads impl \<noteq> None
    | CRelease d i all_joined r \<Rightarrow> closed A \<and> inside ss = 0 \<and> worker_sync_initialized impl
        \<and> release_ok impl i all_joined r
        \<and> (if d = Aborting then sched_state impl = SCHEDULER_STATE_STARTING
           else sched_state impl = SCHEDULER_STATE_SHUTTING_DOWN \<or> sched_state impl = SCHEDULER_STATE_FAILED)
    | CFail \<Rightarrow> sched_state impl = SCHEDULER_STATE_STARTING \<and> closed A \<and> ended impl \<and> worker_sync_initialized impl
    | CJoined r \<Rightarrow> closed A \<and> inside ss = 0 \<and> ended impl \<and> worker_sync_initialized impl
        \<and> (sched_state impl = SCHEDULER_STATE_SHUTTING_DOWN \<or> sched_state impl = SCHEDULER_STATE_FAILED)
        \<and> (r = SCHEDULER_OK \<or> r = SCHEDULER_ERROR_SYSTEM)
        \<and> (r = SCHEDULER_OK \<longrightarrow> threads impl = None \<and> \<not> worker_infrastructure_failure impl)
    | CShutQueue \<Rightarrow> sched_state impl = SCHEDULER_STATE_SHUTTING_DOWN
    | CShutAwait r \<Rightarrow> sched_state impl = SCHEDULER_STATE_SHUTTING_DOWN \<and> closed A \<and> r = SCHEDULER_OK
    | CShutAsleep r \<Rightarrow> sched_state impl = SCHEDULER_STATE_SHUTTING_DOWN \<and> closed A \<and> r = SCHEDULER_OK
        \<and> inside ss \<noteq> 0
    | CShutNotified r \<Rightarrow> sched_state impl = SCHEDULER_STATE_SHUTTING_DOWN \<and> closed A \<and> r = SCHEDULER_OK
    | CJoinAsleep \<Rightarrow> sched_state impl = SCHEDULER_STATE_SHUTTING_DOWN \<and> closed A \<and> inside ss \<noteq> 0
    | CJoinNotified \<Rightarrow> sched_state impl = SCHEDULER_STATE_SHUTTING_DOWN \<and> closed A)"

definition state_inv ::
  "SchedulerImplementation \<Rightarrow> abs_queue \<Rightarrow> submitter list \<Rightarrow> worker list \<Rightarrow> addr list
     \<Rightarrow> (api \<times> SchedulerResult) list \<Rightarrow> bool" where
  "state_inv impl A ss ws es lg \<longleftrightarrow>
     (\<not> complete ws \<longrightarrow> es = [])
   \<and> ((Join_call, SCHEDULER_OK) \<in> set lg \<longrightarrow> sched_state impl = SCHEDULER_STATE_STOPPED)
   \<and> (case sched_state impl of
        SCHEDULER_STATE_INITIALIZED \<Rightarrow> inside ss = 0 \<and> threads impl = None \<and> unborn ws \<and> \<not> worker_sync_initialized impl
          \<and> worker_startup_failure_count impl = 0
      | SCHEDULER_STATE_STARTING \<Rightarrow> inside ss = 0 \<and> es = []
      | SCHEDULER_STATE_RUNNING \<Rightarrow> threads impl \<noteq> None \<and> complete ws
      | SCHEDULER_STATE_SHUTTING_DOWN \<Rightarrow> complete ws \<and> worker_sync_initialized impl
      | SCHEDULER_STATE_STOPPED \<Rightarrow> inside ss = 0 \<and> threads impl = None \<and> worker_sync_initialized impl
          \<and> ((Join_call, SCHEDULER_ERROR_SYSTEM) \<in> set lg \<or> \<not> worker_infrastructure_failure impl)
      | SCHEDULER_STATE_FAILED \<Rightarrow> inside ss = 0 \<and> closed A \<and> worker_sync_initialized impl)"

definition net_inv :: "world \<Rightarrow> net \<Rightarrow> bool" where
  "net_inv w0 s \<longleftrightarrow> plumbing w0 s \<and> gate_inv (core s) (subs s) (enqd s) (ticks s) \<and> crew_inv (core s) (crew s)
     \<and> account_inv (core s) (crew s) (deqd s) (called s) (ticks s) \<and> drain_inv (core s) (queue_of s) (crew s)
     \<and> control_inv (core s) (queue_of s) (subs s) (crew s) (ctl s)
     \<and> state_inv (core s) (queue_of s) (subs s) (crew s) (enqd s) (log s)"

section \<open>Frames\<close>

lemma state_frame:
  assumes "sched_state impl' = sched_state impl" "threads impl' = threads impl"
    "worker_sync_initialized impl' = worker_sync_initialized impl"
    "worker_infrastructure_failure impl' = worker_infrastructure_failure impl"
    "worker_startup_failure_count impl' = worker_startup_failure_count impl"
  shows "state_inv impl' A ss ws es lg = state_inv impl A ss ws es lg"
  using assms by (cases "sched_state impl") (simp_all add: state_inv_def)

lemma life_frame:
  assumes "crew_fields impl' = crew_fields impl" "drain_fields impl' = drain_fields impl" "sched_state impl' = sched_state impl"
  shows "control_inv impl' A ss ws c = control_inv impl A ss ws c" "state_inv impl' A ss ws es lg = state_inv impl A ss ws es lg"
proof -
  have f: "threads impl' = threads impl" "worker_sync_initialized impl' = worker_sync_initialized impl"
    "started_worker_count impl' = started_worker_count impl" "ready_worker_count impl' = ready_worker_count impl"
    "worker_count impl' = worker_count impl" "worker_infrastructure_failure impl' = worker_infrastructure_failure impl"
    "worker_startup_failure_count impl' = worker_startup_failure_count impl"
    using assms by (simp_all add: crew_fields_def drain_fields_def)
  note p = crew_frame(2) [OF assms(1)]
  show "control_inv impl' A ss ws c = control_inv impl A ss ws c"
    by (cases c) (simp_all add: control_inv_def release_ok_def ended_def f p assms(3))
  show "state_inv impl' A ss ws es lg = state_inv impl A ss ws es lg"
    by (rule state_frame) (simp_all add: f assms(3))
qed

lemma plumbing_ticks [simp]: "plumbing w0 (s\<lparr>ticks := k\<rparr>) = plumbing w0 s"
  by (simp add: plumbing_def)

lemma net_invE:
  assumes "net_inv w0 s"
  obtains "plumbing w0 s" "gate_inv (core s) (subs s) (enqd s) (ticks s)" "crew_inv (core s) (crew s)"
    "account_inv (core s) (crew s) (deqd s) (called s) (ticks s)" "drain_inv (core s) (queue_of s) (crew s)"
    "control_inv (core s) (queue_of s) (subs s) (crew s) (ctl s)"
    "state_inv (core s) (queue_of s) (subs s) (crew s) (enqd s) (log s)"
  using assms by (simp add: net_inv_def)

lemma net_inv_tick:
  assumes "plumbing w0 s" "gate_inv (core s) (subs s) (enqd s) k" "crew_inv (core s) (crew s)"
    "account_inv (core s) (crew s) (deqd s) (called s) k" "drain_inv (core s) (queue_of s) (crew s)"
    "control_inv (core s) (queue_of s) (subs s) (crew s) (ctl s)"
    "state_inv (core s) (queue_of s) (subs s) (crew s) (enqd s) (log s)"
  shows "net_inv w0 (s\<lparr>ticks := k\<rparr>)"
  using assms by (simp add: net_inv_def)

lemma rouse_nothing [simp]: "control_rouse impl [] c = c"
  by (simp add: control_rouse_def split: option.splits)

lemma conclude_quiet: "plumbing w0 s \<Longrightarrow> conclude impl (env s) s = s\<lparr>core := impl\<rparr>"
  using plumbingD(2,7) [of w0 s] by (simp add: conclude_def)

text \<open>An implementation that differs only where custody does not look.\<close>

lemma plumbing_core:
  assumes pl: "plumbing w0 s" and "parts impl = parts (core s)" "task_queue impl = task_queue (core s)"
    "worker_count impl = worker_count (core s)" "places (qpcs s) ss ws" "length ws = length (crew s)"
  shows "plumbing w0 (s\<lparr>core := impl, subs := ss, crew := ws, ctl := c\<rparr>)"
proof -
  note s = plumbingD [OF pl]
  have "queue_sys (s\<lparr>core := impl\<rparr>) = queue_sys s" using assms(3) by (simp add: queue_sys_def)
  moreover have "ws \<noteq> []" using s(9) assms(6) by auto
  ultimately show ?thesis using s custody_parts [OF assms(2), of w0 "env s"] assms(4-6) by (simp add: plumbing_def)
qed

lemmas parts_defs = parts_def blocks_def core_blocks_def sync_blocks_def context_blocks_def crew_blocks_def
  sections_of_def crew_handles_def shaped_def

section \<open>Submitters keep the invariant\<close>

lemma bump_room:
  assumes "unat c \<le> k" "k < 2 ^ 64 - 1"
  shows "bump c v = (c + 1, v)" "unat (c + 1) = Suc (unat c)"
proof -
  have "c \<noteq> UINT64_MAX" using assms unat_max64 by auto
  then show "bump c v = (c + 1, v)" by (simp add: bump_eq)
  show "unat (c + 1) = Suc (unat c)" using assms by (subst unat_more) simp_all
qed

lemma admission_frames:
  "parts (admitted impl) = parts impl" "crew_fields (admitted impl) = crew_fields impl"
  "account_fields (admitted impl) = account_fields impl" "drain_fields (admitted impl) = drain_fields impl"
  "task_queue (admitted impl) = task_queue impl" "sched_state (admitted impl) = sched_state impl"
  "worker_count (admitted impl) = worker_count impl"
  "parts (discharged r impl) = parts impl" "crew_fields (discharged r impl) = crew_fields impl"
  "account_fields (discharged r impl) = account_fields impl" "drain_fields (discharged r impl) = drain_fields impl"
  "task_queue (discharged r impl) = task_queue impl" "sched_state (discharged r impl) = sched_state impl"
  "worker_count (discharged r impl) = worker_count impl"
  by (simp_all add: admitted_def discharged_def count_defs Let_def parts_defs crew_fields_def account_fields_def
      drain_fields_def split: prod.splits)

lemma running_idle:
  "control_inv impl A ss ws c \<Longrightarrow> sched_state impl = SCHEDULER_STATE_RUNNING \<Longrightarrow> c = CIdle"
  by (cases c) (auto simp: control_inv_def split: if_splits)

lemma submit_gate_inv:
  assumes inv: "net_inv w0 s" and k: "ticks s < 2 ^ 64 - 1" and run: "submit_gate i t b s = Some s'"
  shows "net_inv w0 (s'\<lparr>ticks := Suc (ticks s)\<rparr>)"
  using inv
proof (rule net_invE, goal_cases)
  case 1
  have i: "i < length (subs s)" "subs s ! i = SIdle" using run by (auto simp: submit_gate_def split: if_splits)
  let ?ss = "(subs s)[i := if sched_state (core s) = SCHEDULER_STATE_RUNNING then SInside t b else SIdle]"
  have s': "s' = s\<lparr>core := admitted (core s), subs := ?ss\<rparr>"
    using run i run_register [OF plumbingD(5) [OF 1(1)], of t] conclude_quiet [OF 1(1), of "admitted (core s)"]
    by (auto simp: submit_gate_def gate_result_def)
  have g: "unat (submitted_count (core s)) \<le> ticks s" "unat (rejected_count (core s)) \<le> ticks s"
    "inside (subs s) < 2 ^ 64 - 1"
    using 1(2) k tallied_update [OF i(1), of "\<lambda>p. p \<noteq> SIdle" "SLeaving SCHEDULER_OK"] i(2)
      tallied_le [of "\<lambda>p. p \<noteq> SIdle" "(subs s)[i := SLeaving SCHEDULER_OK]"] by (auto simp: gate_inv_def)
  have same: "(subs s)[i := SIdle] = subs s" using i by (metis list_update_id)
  have gate: "gate_inv (admitted (core s)) ?ss (enqd s) (Suc (ticks s))"
    using 1(2) i g k bump_room [OF g(1) k] bump_room [OF g(2) k]
      tallied_update [OF i(1), of "\<lambda>p. p \<noteq> SIdle" "SInside t b"]
      tallied_update [OF i(1), of "\<lambda>p. p = SLeaving SCHEDULER_OK" "SInside t b"]
      unat_more [of "active_submitter_count (core s)"]
    by (auto simp: gate_inv_def admitted_def count_defs same)
  have places: "places (qpcs s) ?ss (crew s)"
    using plumbingD(4) [OF 1(1)] i by (auto simp: places_def nth_list_update sub_place_def split: submitter.splits)
  have life: "control_inv (core s) (queue_of s) ?ss (crew s) (ctl s)"
    "state_inv (core s) (queue_of s) ?ss (crew s) (enqd s) (log s)"
    using 1(6,7) i running_idle [OF 1(6)]
    by (cases "sched_state (core s) = SCHEDULER_STATE_RUNNING";
        simp add: same control_inv_def state_inv_def)+
  have pl: "plumbing w0 s'"
    using plumbing_core [OF 1(1) admission_frames(1,5,7) places refl, of "ctl s"] by (simp add: s')
  show ?case
  proof (rule net_inv_tick)
    show "account_inv (core s') (crew s') (deqd s') (called s') (Suc (ticks s))"
      using account_more [OF 1(4), of "Suc (ticks s)"] account_frame [OF admission_frames(3)] by (simp add: s')
    show "crew_inv (core s') (crew s')" using 1(3) crew_frame(1) [OF admission_frames(2)] by (simp add: s')
    show "drain_inv (core s') (queue_of s') (crew s')"
      using 1(5) drain_frame [OF admission_frames(4)] by (simp add: s' admission_frames)
    show "gate_inv (core s') (subs s') (enqd s') (Suc (ticks s))" using gate by (simp add: s')
    show "control_inv (core s') (queue_of s') (subs s') (crew s') (ctl s')"
      "state_inv (core s') (queue_of s') (subs s') (crew s') (enqd s') (log s')"
      using life life_frame [OF admission_frames(2,4,6)] by (simp_all add: s' admission_frames)
  qed (rule pl)
qed

lemma moved_fields:
  assumes "queue_moves s A es ds s1"
  shows "queue_of s1 = A" "enqd s1 = enqd s @ es" "deqd s1 = deqd s @ ds" "subs s1 = subs s" "crew s1 = crew s"
    "ctl s1 = ctl s" "called s1 = called s" "log s1 = log s" "env s1 = env s"
    "gate_fields (core s1) = gate_fields (core s)" "crew_fields (core s1) = crew_fields (core s)"
    "account_fields (core s1) = account_fields (core s)" "drain_fields (core s1) = drain_fields (core s)"
    "sched_state (core s1) = sched_state (core s)"
  using assms by (auto simp: queue_moves_def gate_fields_def crew_fields_def account_fields_def drain_fields_def)

lemma result_ok:
  "map_blocking_enqueue_result r = SCHEDULER_OK \<longleftrightarrow> r = CONCURRENT_TASK_QUEUE_OK"
  "map_try_enqueue_result r = SCHEDULER_OK \<longleftrightarrow> r = CONCURRENT_TASK_QUEUE_OK"
  by (cases r; simp add: map_blocking_enqueue_result_def map_try_enqueue_result_def)+

lemma inserted_accepted:
  "inserted b t p = SLeaving SCHEDULER_OK \<longleftrightarrow> p = Returned CONCURRENT_TASK_QUEUE_OK" "inserted b t p \<noteq> SIdle"
  by (auto simp: inserted_def result_ok split: progress.splits)

text \<open>A submitter is inside only while the scheduler runs or shuts down.\<close>

lemma inside_open:
  assumes "state_inv impl A ss ws es lg" "i < length ss" "ss ! i \<noteq> SIdle"
  shows "sched_state impl = SCHEDULER_STATE_RUNNING \<or> sched_state impl = SCHEDULER_STATE_SHUTTING_DOWN" "complete ws"
proof -
  have "inside ss \<noteq> 0" using assms(2,3) by (auto simp: tallied_zero)
  with assms(1) show "sched_state impl = SCHEDULER_STATE_RUNNING \<or> sched_state impl = SCHEDULER_STATE_SHUTTING_DOWN"
    "complete ws" by (auto simp: state_inv_def split: SchedulerState.splits)
qed

lemma control_queue:
  assumes "closed A' \<longleftrightarrow> closed A" "(inside ss' = 0) \<longleftrightarrow> (inside ss = 0)"
  shows "control_inv impl A' ss' ws c = control_inv impl A ss ws c"
  using assms by (cases c) (simp_all add: control_inv_def)

lemma insertion_inv:
  assumes inv: "net_inv w0 s" and i: "i < length (subs s)" "subs s ! i \<noteq> SIdle" "subs s ! i \<noteq> SLeaving SCHEDULER_OK"
    and mv: "queue_moves s A (newly p t) [] s1" "s' = s1\<lparr>subs := (subs s)[i := inserted b t p]\<rparr>" "plumbing w0 s'"
    and A: "closed A = closed (queue_of s)" "dry (queue_of s) \<Longrightarrow> dry A"
  shows "net_inv w0 (s'\<lparr>ticks := Suc (ticks s)\<rparr>)"
  using inv
proof (rule net_invE, goal_cases)
  case 1
  note f = moved_fields [OF mv(1)]
  note ins = tallied_update [OF i(1), of "\<lambda>p. p \<noteq> SIdle" "inserted b t p"]
  have in': "inside ((subs s)[i := inserted b t p]) = inside (subs s)" using ins i(2) inserted_accepted by simp
  have acc: "tallied (\<lambda>p. p = SLeaving SCHEDULER_OK) ((subs s)[i := inserted b t p])
      = tallied (\<lambda>p. p = SLeaving SCHEDULER_OK) (subs s) + length (newly p t)"
    using tallied_update [OF i(1), of "\<lambda>p. p = SLeaving SCHEDULER_OK" "inserted b t p"] i(3) inserted_accepted(1) [of b t p]
    by simp
  note open' = inside_open [OF 1(7) i(1,2)]
  show ?case
  proof (rule net_inv_tick)
    show "gate_inv (core s') (subs s') (enqd s') (Suc (ticks s))"
      using gate_more [OF 1(2), of "Suc (ticks s)"] in' acc
      by (simp add: mv(2) f gate_frame [OF f(10)]) (auto simp: gate_inv_def)
    show "crew_inv (core s') (crew s')" using 1(3) crew_frame(1) [OF f(11)] by (simp add: mv(2) f)
    show "account_inv (core s') (crew s') (deqd s') (called s') (Suc (ticks s))"
      using account_more [OF 1(4), of "Suc (ticks s)"] account_frame [OF f(12)] by (simp add: mv(2) f)
    show "drain_inv (core s') (queue_of s') (crew s')" using drain_frame [OF f(13) A(2) _ 1(5)] A(1) by (simp add: mv(2) f)
    show "control_inv (core s') (queue_of s') (subs s') (crew s') (ctl s')"
      using 1(6) control_queue [OF A(1), of "(subs s)[i := inserted b t p]" "subs s"] in'
      by (simp add: mv(2) f life_frame [OF f(11,13,14)])
    have "state_inv (core s) A ((subs s)[i := inserted b t p]) (crew s) (enqd s @ newly p t) (log s)"
      using 1(7) open' in' by (auto simp: state_inv_def A(1))
    then show "state_inv (core s') (queue_of s') (subs s') (crew s') (enqd s') (log s')"
      by (simp add: mv(2) f life_frame [OF f(11,13,14)])
  qed (rule mv(3))
qed

lemma insert_spec_keeps:
  assumes "insert_spec ts b t A = (p, ks, A')"
  shows "closed A' = closed A" "dry A \<Longrightarrow> dry A'"
  using assms by (auto simp: insert_spec_def spec_enqueue_def spec_try_enqueue_def at_once_def spec_insert_def dry_def
      split: if_splits)

lemma resume_spec_keeps:
  assumes "spec_enqueue_resume ok ts t A = (p, ks, A')"
  shows "closed A' = closed A" "dry A \<Longrightarrow> dry A'"
  using assms by (auto simp: spec_enqueue_resume_def spec_enqueue_def spec_insert_def dry_def Let_def split: if_splits)

lemma submit_first_inv:
  assumes inv: "net_inv w0 s" and run: "submit_first ts choice i s = Some s'"
  shows "net_inv w0 (s'\<lparr>ticks := Suc (ticks s)\<rparr>)"
proof -
  have "plumbing w0 s" using inv by (simp add: net_inv_def)
  from submit_first_effect [OF this run] obtain t b p ks A s1 where e: "i < length (subs s)" "subs s ! i = SInside t b"
    "insert_spec ts b t (queue_of s) = (p, ks, A)" "queue_moves s A (newly p t) [] s1"
    "s' = s1\<lparr>subs := (subs s)[i := inserted b t p]\<rparr>" "plumbing w0 s'" .
  from insertion_inv [OF inv e(1) _ _ e(4-6) insert_spec_keeps [OF e(3)]] e(2) show ?thesis by simp
qed

lemma submit_resume_inv:
  assumes inv: "net_inv w0 s" and run: "submit_resume ts ok choice i s = Some s'" "ok \<or> choice = None"
  shows "net_inv w0 (s'\<lparr>ticks := Suc (ticks s)\<rparr>)"
proof -
  have "plumbing w0 s" using inv by (simp add: net_inv_def)
  from submit_resume_effect [OF this run] obtain t p ks A s1 where e: "i < length (subs s)" "subs s ! i = SWaiting t"
    "spec_enqueue_resume ok ts t (queue_of s) = (p, ks, A)" "queue_moves s A (newly p t) [] s1"
    "s' = s1\<lparr>subs := (subs s)[i := inserted True t p]\<rparr>" "plumbing w0 s'" .
  from insertion_inv [OF inv e(1) _ _ e(4-6) resume_spec_keeps [OF e(3)]] e(2) show ?thesis by simp
qed

text \<open>The last submitter to leave wakes the controlling thread.\<close>

lemma rouse_gate:
  assumes "cond_impl (lifecycle_condition impl) \<noteq> None"
  shows "control_rouse impl [gate_wake impl] c = c \<or> control_rouse impl [gate_wake impl] c = control_notified c"
    "control_rouse impl [gate_wake impl] (CShutAsleep r) = CShutNotified r"
    "control_rouse impl [gate_wake impl] CJoinAsleep = CJoinNotified"
  using assms by (auto simp: control_rouse_def gate_wake_def split: option.splits)

lemma control_awake:
  assumes "control_inv impl A ss ws c" "closed A \<longrightarrow> closed A'" "inside ss' = 0 \<or> inside ss \<noteq> 0"
    and "c' = c \<or> c' = control_notified c" "\<forall>r. c = CShutAsleep r \<and> inside ss' = 0 \<longrightarrow> c' = CShutNotified r"
    "c = CJoinAsleep \<and> inside ss' = 0 \<longrightarrow> c' = CJoinNotified"
  shows "control_inv impl A' ss' ws c'"
  using assms by (cases c) (auto simp: control_inv_def split: if_splits)

lemma submit_leave_inv:
  assumes inv: "net_inv w0 s" and run: "submit_leave i s = Some s'"
  shows "net_inv w0 (s'\<lparr>ticks := Suc (ticks s)\<rparr>)"
  using inv
proof (rule net_invE, goal_cases)
  case 1
  obtain r where i: "i < length (subs s)" "subs s ! i = SLeaving r"
    using run by (auto simp: submit_leave_def split: if_splits submitter.splits)
  let ?ss = "(subs s)[i := SIdle]" and ?last = "active_submitter_count (core s) = 1"
  have ins: "Suc (inside ?ss) = inside (subs s)" using tallied_update [OF i(1), of "\<lambda>p. p \<noteq> SIdle" SIdle] i(2) by simp
  have acc: "tallied (\<lambda>p. p = SLeaving SCHEDULER_OK) ?ss + one_if (r = SCHEDULER_OK)
      = tallied (\<lambda>p. p = SLeaving SCHEDULER_OK) (subs s)"
    using tallied_update [OF i(1), of "\<lambda>p. p = SLeaving SCHEDULER_OK" SIdle] i(2) by simp
  have act: "unat (active_submitter_count (core s)) = inside (subs s)" using 1(2) by (simp add: gate_inv_def)
  then have some: "active_submitter_count (core s) \<noteq> 0" using ins by auto
  have last: "?last \<longleftrightarrow> inside ?ss = 0" using act ins unat_eq_iff [of "active_submitter_count (core s)" 1] by auto
  have cnd: "cond_impl (lifecycle_condition (core s)) \<noteq> None" using plumbingD(5) [OF 1(1)] by (auto elim: gate_okE)
  let ?c = "if ?last then control_rouse (discharged r (core s)) [gate_wake (core s)] (ctl s) else ctl s"
  have s': "s' = s\<lparr>core := discharged r (core s), subs := ?ss, ctl := ?c\<rparr>"
    using run i run_deregister [OF plumbingD(5) [OF 1(1)] some, of r] plumbingD(2,7) [OF 1(1)]
    by (auto simp: submit_leave_def conclude_def)
  have wk: "gate_wake (discharged r (core s)) = gate_wake (core s)"
    "lifecycle_condition (discharged r (core s)) = lifecycle_condition (core s)"
    by (simp_all add: discharged_def count_defs gate_wake_def Let_def split: prod.splits)
  note rg = rouse_gate [of "discharged r (core s)", unfolded wk, OF cnd]
  have gate: "gate_inv (discharged r (core s)) ?ss (enqd s) (Suc (ticks s))"
  proof -
    have room: "unat (accepted_count (core s)) \<le> ticks s \<and> unat (rejected_count (core s)) \<le> ticks s
        \<and> unat (accepted_count (core s)) < unat (submitted_count (core s)) \<and> unat (rejected_count (core s)) < unat (submitted_count (core s))"
      using 1(2) ins by (auto simp: gate_inv_def)
    have up: "bump c v = (c + 1, v) \<and> unat (c + 1) = Suc (unat c)" if "unat c < unat (submitted_count (core s))" for c v
    proof -
      have "unat c < 2 ^ 64 - 1" using that unat_le_max [of "submitted_count (core s)"] by simp
      then show ?thesis using bump_room [of c "unat c"] by simp
    qed
    have "unat (active_submitter_count (core s) - 1) = inside ?ss" using some act ins unat_less [of "active_submitter_count (core s)"]
      by (simp add: unat_eq_zero)
    then show ?thesis using 1(2) ins acc room up [of "accepted_count (core s)"] up [of "rejected_count (core s)"]
      by (cases "r = SCHEDULER_OK") (auto simp: gate_inv_def discharged_def count_defs Let_def)
  qed
  have places: "places (qpcs s) ?ss (crew s)"
    using plumbingD(4) [OF 1(1)] i by (auto simp: places_def nth_list_update sub_place_def split: submitter.splits)
  show ?case
  proof (rule net_inv_tick)
    show "plumbing w0 s'" using plumbing_core [OF 1(1) admission_frames(8,12,14) places refl, of ?c] by (simp add: s')
    show "account_inv (core s') (crew s') (deqd s') (called s') (Suc (ticks s))"
      using account_more [OF 1(4), of "Suc (ticks s)"] account_frame [OF admission_frames(10)] by (simp add: s')
    show "crew_inv (core s') (crew s')" using 1(3) crew_frame(1) [OF admission_frames(9)] by (simp add: s')
    show "drain_inv (core s') (queue_of s') (crew s')"
      using 1(5) drain_frame [OF admission_frames(11)] by (simp add: s' admission_frames)
    show "gate_inv (core s') (subs s') (enqd s') (Suc (ticks s))" using gate by (simp add: s')
    have "control_inv (core s) (queue_of s) ?ss (crew s) ?c"
      by (rule control_awake [OF 1(6)]) (use ins last rg in auto)
    then show "control_inv (core s') (queue_of s') (subs s') (crew s') (ctl s')"
      by (simp add: s' admission_frames life_frame [OF admission_frames(9,11,13)])
    have "state_inv (core s) (queue_of s) ?ss (crew s) (enqd s) (log s)"
      using 1(7) inside_open(1) [OF 1(7) i(1)] i(2) by (auto simp: state_inv_def)
    then show "state_inv (core s') (queue_of s') (subs s') (crew s') (enqd s') (log s')"
      by (simp add: s' admission_frames life_frame [OF admission_frames(9,11,13)])
  qed
qed

end
