(* ===== verification/Scheduler_Workers.thy ===== *)
theory Scheduler_Workers
  imports Scheduler_Invariant
begin

text \<open>
  The workers keep the invariant of the whole scheduler: taking a task, the updates of the
  counters, the callback, leaving.
\<close>

section \<open>A worker changes its place\<close>

lemma places_crew:
  assumes "places ps ss ws" "j < length ws" "\<And>q. worker_place (ws ! j) q \<Longrightarrow> worker_place p q"
  shows "places ps ss (ws[j := p])"
  using assms by (auto simp: places_def nth_list_update)

text \<open>Outside of a callback with its accounting.\<close>

fun neutral :: "worker \<Rightarrow> bool" where
  "neutral (WCounted t) \<longleftrightarrow> False"
| "neutral (WStarted t) \<longleftrightarrow> False"
| "neutral (WRunning t b) \<longleftrightarrow> False"
| "neutral (WReturned r b) \<longleftrightarrow> False"
| "neutral (WAccounted b) \<longleftrightarrow> False"
| "neutral p \<longleftrightarrow> True"

lemma tracks_neutral:
  assumes "neutral p" "neutral p'"
  shows "tracks j p cs c = tracks j p' cs c"
  using assms by (cases p; cases p'; simp add: tracks_def)

lemma holds_update:
  assumes "j < length ws"
  shows "mset (concat (map holds (ws[j := p]))) + mset (holds (ws ! j)) = mset (concat (map holds ws)) + mset (holds p)"
  using concat_update(1) [OF assms, of holds p] concat_update(2) [OF assms, of holds] by simp

lemma account_worker:
  assumes "account_inv impl ws ds cs k" "j < length ws" "neutral (ws ! j)" "neutral p"
    "mset xs + mset (holds (ws ! j)) = mset (holds p)" "k + length xs \<le> k'"
  shows "account_inv impl (ws[j := p]) (ds @ xs) cs k'"
proof -
  have t: "tracks i (ws[j := p] ! i) cs c = tracks i (ws ! i) cs c" for i c
    using tracks_neutral [OF assms(3,4), of j cs c] assms(2) by (cases "i = j") simp_all
  have "mset ds = mset (map (\<lambda>x. fst (snd x)) cs) + mset (concat (map holds ws))" using assms(1) by (simp add: account_inv_def)
  then have "mset (ds @ xs) + mset (holds (ws ! j))
      = mset (map (\<lambda>x. fst (snd x)) cs) + (mset (concat (map holds ws)) + mset (holds p))"
    using assms(5) by (simp add: add.assoc)
  also have "\<dots> = mset (map (\<lambda>x. fst (snd x)) cs) + mset (concat (map holds (ws[j := p]))) + mset (holds (ws ! j))"
    by (simp only: holds_update [OF assms(2), symmetric] add.assoc)
  finally have "mset (ds @ xs) = mset (map (\<lambda>x. fst (snd x)) cs) + mset (concat (map holds (ws[j := p])))"
    by (simp only: add_right_cancel)
  with assms(1,6) t show ?thesis by (auto simp: account_inv_def)
qed

lemma busy_facts: "busy p \<Longrightarrow> employed p \<and> has_reported p \<and> p \<noteq> WAbsent \<and> (\<forall>r. p \<noteq> WFinished r) \<and> p \<noteq> WJoined"
  by (cases p) (simp_all add: employed_def has_reported_def)

lemma tallied_same: "i < length xs \<Longrightarrow> P (xs ! i) = P x \<Longrightarrow> tallied P (xs[i := x]) = tallied P xs"
  using tallied_update [of i xs P x] by (simp split: if_splits)

lemma crew_busy:
  assumes "crew_inv impl ws" "j < length ws" "busy (ws ! j)" "busy p"
  shows "crew_inv impl (ws[j := p])"
proof -
  note b = busy_facts [OF assms(3)] busy_facts [OF assms(4)]
  have t: "tallied busy (ws[j := p]) = tallied busy ws" "tallied (\<lambda>p. p \<noteq> WAbsent) (ws[j := p]) = tallied (\<lambda>p. p \<noteq> WAbsent) ws"
    "tallied has_reported (ws[j := p]) = tallied has_reported ws"
    using assms b by (simp_all add: tallied_same)
  have c: "context_ok impl (ws[j := p] ! i) i = context_ok impl (ws ! i) i" for i
    using assms(2) b by (cases "i = j") (auto simp: context_ok_def split: option.splits)
  have "employed (ws[j := p] ! i) = employed (ws ! i)" "ws[j := p] ! i = WAbsent \<longleftrightarrow> ws ! i = WAbsent"
    "ws[j := p] ! i = WFinished r \<longleftrightarrow> ws ! i = WFinished r" for i r
    using assms(2) b by (cases "i = j"; auto)+
  with assms(1) t c show ?thesis unfolding crew_inv_def by simp
qed

lemma drain_worker:
  assumes "drain_inv impl A ws" "j < length ws" "ws ! j \<noteq> WJoined" "dry A \<Longrightarrow> dry A'"
    "closed A \<Longrightarrow> closed A'" "withdrawn p \<Longrightarrow> closed A'" "leaves_well p \<Longrightarrow> dry A'" "p \<noteq> WJoined" "\<And>r. p = WFinished r \<Longrightarrow> r \<noteq> 0 \<Longrightarrow> worker_infrastructure_failure impl"
    "p \<noteq> WShut 0"
  shows "drain_inv impl A' (ws[j := p])"
proof -
  have "tallied (\<lambda>p. p = WJoined) (ws[j := p]) = tallied (\<lambda>p. p = WJoined) ws" using assms by (simp add: tallied_same)
  then show ?thesis using assms set_update_subset_insert [of ws j p] unfolding drain_inv_def by (auto simp: subset_iff)
qed

lemma complete_update:
  assumes "j < length ws" "ws ! j \<noteq> WAbsent" "p \<noteq> WAbsent"
  shows "complete (ws[j := p]) = complete ws" "unborn (ws[j := p]) = unborn ws"
proof -
  have "ws[j := p] ! i = WAbsent \<longleftrightarrow> ws ! i = WAbsent" for i using assms by (cases "i = j") simp_all
  then show "complete (ws[j := p]) = complete ws" "unborn (ws[j := p]) = unborn ws"
    by (auto simp: in_set_conv_nth all_set_conv_all_nth)
qed

lemma life_worker:
  assumes "j < length ws" "ws ! j \<noteq> WAbsent" "p \<noteq> WAbsent" "has_reported (ws ! j) \<longrightarrow> has_reported p" "closed A \<longrightarrow> closed A'"
  shows "control_inv impl A ss ws c \<Longrightarrow> control_inv impl A' ss (ws[j := p]) c"
    "state_inv impl A ss ws es lg \<Longrightarrow> state_inv impl A' ss (ws[j := p]) es lg"
proof -
  note u = complete_update [OF assms(1-3)]
  have "\<forall>p \<in> set (ws[j := p]). has_reported p" if all: "\<forall>p \<in> set ws. has_reported p"
  proof -
    have "has_reported p" using all assms(1,4) nth_mem by blast
    with all show ?thesis using set_update_subset_insert [of ws j p] by auto
  qed
  then show "control_inv impl A ss ws c \<Longrightarrow> control_inv impl A' ss (ws[j := p]) c"
    using assms(5) u by (cases c) (auto simp: control_inv_def)
  show "state_inv impl A ss ws es lg \<Longrightarrow> state_inv impl A' ss (ws[j := p]) es lg"
    using assms(5) unfolding state_inv_def u by (auto split: SchedulerState.splits)
qed

section \<open>Removals keep the invariant\<close>

lemma removal_inv:
  assumes inv: "net_inv w0 s" and j: "j < length (crew s)" "busy (crew s ! j)" "neutral (crew s ! j)" "holds (crew s ! j) = []"
    and mv: "queue_moves s A [] (handed_out p) s1" "s' = s1\<lparr>crew := (crew s)[j := removed p]\<rparr>" "plumbing w0 s'"
    and A: "closed A = closed (queue_of s)" "dry (queue_of s) \<Longrightarrow> dry A"
    and p: "holds (removed p) = handed_out p" "leaves_well (removed p) \<Longrightarrow> dry A" "removed p \<noteq> WShut 0"
      "withdrawn (removed p) \<Longrightarrow> closed A"
  shows "net_inv w0 (s'\<lparr>ticks := Suc (ticks s)\<rparr>)"
  using inv
proof (rule net_invE, goal_cases)
  case 1
  note f = moved_fields [OF mv(1)]
  let ?ws = "(crew s)[j := removed p]"
  have r: "busy (removed p)" "neutral (removed p)"
    by (simp_all add: removed_def split: progress.splits prod.splits worker_next.splits)
  note b = busy_facts [OF j(2)] busy_facts [OF r(1)]
  have few: "length (handed_out p) \<le> 1" by (simp add: handed_out_def split: progress.splits prod.splits option.splits)
  show ?case
  proof (rule net_inv_tick)
    show "gate_inv (core s') (subs s') (enqd s') (Suc (ticks s))"
      using gate_more [OF 1(2), of "Suc (ticks s)"] by (simp add: mv(2) f gate_frame [OF f(10)])
    show "crew_inv (core s') (crew s')"
      using crew_busy [OF 1(3) j(1,2) r(1)] crew_frame(1) [OF f(11)] by (simp add: mv(2))
    have "account_inv (core s) ?ws (deqd s @ handed_out p) (called s) (Suc (ticks s))"
      by (rule account_worker [OF 1(4) j(1,3) r(2)]) (use j(4) p(1) few in simp_all)
    then show "account_inv (core s') (crew s') (deqd s') (called s') (Suc (ticks s))"
      using account_frame [OF f(12)] by (simp add: mv(2) f)
    have "drain_inv (core s) A ?ws"
      by (rule drain_worker [OF 1(5) j(1) _ A(2) _ p(4) p(2)]) (use b p(3) A(1) in auto)
    then show "drain_inv (core s') (queue_of s') (crew s')" using drain_frame [OF f(13)] by (simp add: mv(2) f)
    show "control_inv (core s') (queue_of s') (subs s') (crew s') (ctl s')"
      using life_worker(1) [OF j(1) _ _ _ _ 1(6), of "removed p" A] A(1) b
      by (simp add: mv(2) f life_frame [OF f(11,13,14)])
    show "state_inv (core s') (queue_of s') (subs s') (crew s') (enqd s') (log s')"
      using life_worker(2) [OF j(1) _ _ _ _ 1(7), of "removed p" A] A(1) b
      by (simp add: mv(2) f life_frame [OF f(11,13,14)])
  qed (rule mv(3))
qed

lemma dequeue_spec_keeps:
  assumes "spec_dequeue ts A = (p, ks, A')"
  shows "closed A' = closed A" "dry A \<Longrightarrow> dry A'" "holds (removed p) = handed_out p" "leaves_well (removed p) \<Longrightarrow> dry A'"
    "removed p \<noteq> WShut 0" "withdrawn (removed p) \<Longrightarrow> closed A'"
  using assms by (auto simp: spec_dequeue_def spec_remove_def dry_def removed_def handed_out_def worker_received_def
      split: if_splits)

lemma dequeue_resume_keeps:
  assumes "spec_dequeue_resume ok ts A = (p, ks, A')"
  shows "closed A' = closed A" "dry A \<Longrightarrow> dry A'" "holds (removed p) = handed_out p" "leaves_well (removed p) \<Longrightarrow> dry A'"
    "removed p \<noteq> WShut 0" "withdrawn (removed p) \<Longrightarrow> closed A'"
  using assms by (auto simp: spec_dequeue_resume_def Let_def spec_dequeue_def spec_remove_def dry_def removed_def
      handed_out_def worker_received_def split: if_splits)

lemma worker_take_inv:
  assumes inv: "net_inv w0 s" and run: "worker_take ts choice j s = Some s'"
  shows "net_inv w0 (s'\<lparr>ticks := Suc (ticks s)\<rparr>)"
proof -
  have "plumbing w0 s" using inv by (simp add: net_inv_def)
  from worker_take_effect [OF this run] obtain p ks A s1 where e: "j < length (crew s)" "crew s ! j = WLoop"
    "spec_dequeue ts (queue_of s) = (p, ks, A)" "queue_moves s A [] (handed_out p) s1"
    "s' = s1\<lparr>crew := (crew s)[j := removed p]\<rparr>" "plumbing w0 s'" .
  from removal_inv [OF inv e(1) _ _ _ e(4-6) dequeue_spec_keeps [OF e(3)]] e(2) show ?thesis by simp
qed

lemma worker_resume_inv:
  assumes inv: "net_inv w0 s" and run: "worker_resume ts ok choice j s = Some s'" "ok \<or> choice = None"
  shows "net_inv w0 (s'\<lparr>ticks := Suc (ticks s)\<rparr>)"
proof -
  have "plumbing w0 s" using inv by (simp add: net_inv_def)
  from worker_resume_effect [OF this run] obtain p ks A s1 where e: "j < length (crew s)" "crew s ! j = WWaiting"
    "spec_dequeue_resume ok ts (queue_of s) = (p, ks, A)" "queue_moves s A [] (handed_out p) s1"
    "s' = s1\<lparr>crew := (crew s)[j := removed p]\<rparr>" "plumbing w0 s'" .
  from removal_inv [OF inv e(1) _ _ _ e(4-6) dequeue_resume_keeps [OF e(3)]] e(2) show ?thesis by simp
qed

lemma worker_abandon_inv:
  assumes inv: "net_inv w0 s" and run: "worker_abandon j s = Some s'"
  shows "net_inv w0 (s'\<lparr>ticks := Suc (ticks s)\<rparr>)"
  using inv
proof (rule net_invE, goal_cases)
  case 1
  from worker_abandon_effect [OF 1(1) run] obtain r s1 where e: "j < length (crew s)" "crew s ! j = WShut r"
    "queue_moves s ((queue_of s)\<lparr>closed := True\<rparr>) [] [] s1"
    "s' = s1\<lparr>crew := (crew s)[j := WLeaving r]\<rparr>" "plumbing w0 s'" .
  note f = moved_fields [OF e(3)]
  have r: "r \<noteq> 0" using 1(5) e(1,2) nth_mem [OF e(1)] by (auto simp: drain_inv_def)
  show ?case
  proof (rule net_inv_tick)
    show "gate_inv (core s') (subs s') (enqd s') (Suc (ticks s))"
      using gate_more [OF 1(2), of "Suc (ticks s)"] by (simp add: e(4) f gate_frame [OF f(10)])
    show "crew_inv (core s') (crew s')"
      using crew_busy [OF 1(3) e(1), of "WLeaving r"] e(2) crew_frame(1) [OF f(11)] by (simp add: e(4))
    have "account_inv (core s) ((crew s)[j := WLeaving r]) (deqd s @ []) (called s) (Suc (ticks s))"
      by (rule account_worker [OF 1(4) e(1)]) (use e(2) in simp_all)
    then show "account_inv (core s') (crew s') (deqd s') (called s') (Suc (ticks s))"
      using account_frame [OF f(12)] by (simp add: e(4) f)
    have "drain_inv (core s) ((queue_of s)\<lparr>closed := True\<rparr>) ((crew s)[j := WLeaving r])"
      by (rule drain_worker [OF 1(5) e(1)]) (use e(2) r in \<open>auto simp: dry_def\<close>)
    then show "drain_inv (core s') (queue_of s') (crew s')" using drain_frame [OF f(13)] by (simp add: e(4) f)
    show "control_inv (core s') (queue_of s') (subs s') (crew s') (ctl s')"
      using life_worker(1) [OF e(1) _ _ _ _ 1(6), of "WLeaving r" "(queue_of s)\<lparr>closed := True\<rparr>"] e(2)
      by (simp add: e(4) f life_frame [OF f(11,13,14)] has_reported_def)
    show "state_inv (core s') (queue_of s') (subs s') (crew s') (enqd s') (log s')"
      using life_worker(2) [OF e(1) _ _ _ _ 1(7), of "WLeaving r" "(queue_of s)\<lparr>closed := True\<rparr>"] e(2)
      by (simp add: e(4) f life_frame [OF f(11,13,14)] has_reported_def)
  qed (rule e(5))
qed

section \<open>Reports, accounting and callbacks keep the invariant\<close>

lemma employed_threads:
  assumes "crew_inv impl ws" "j < length ws" "employed (ws ! j)"
  shows "threads impl \<noteq> None" "staffed impl" "present impl j"
proof -
  show p: "present impl j" using assms by (simp add: crew_inv_def)
  then show "threads impl \<noteq> None" by (auto simp: present_iff thread_at_def split: option.splits)
  with assms(1) show "staffed impl" by (simp add: crew_inv_def)
qed

lemma reported_frames:
  "parts (reported impl) = parts impl" "gate_fields (reported impl) = gate_fields impl"
  "account_fields (reported impl) = account_fields impl" "drain_fields (reported impl) = drain_fields impl"
  "task_queue (reported impl) = task_queue impl" "sched_state (reported impl) = sched_state impl"
  "worker_count (reported impl) = worker_count impl"
  by (simp_all add: reported_def parts_defs gate_fields_def account_fields_def drain_fields_def)

lemma rouse_crew:
  assumes "cond_impl (worker_condition impl) \<noteq> None"
  shows "control_rouse impl [crew_wake impl] c = c \<or> control_rouse impl [crew_wake impl] c = control_notified c"
    "control_rouse impl [crew_wake impl] CStartAsleep = CStartNotified"
  using assms by (auto simp: control_rouse_def crew_wake_def split: option.splits)

lemma control_reported:
  assumes "control_inv impl A ss ws c" "c = CStartAsleep \<longrightarrow> c' = CStartNotified" "c' = c \<or> c' = control_notified c"
  shows "control_inv (reported impl) A ss ws c'"
proof -
  have f: "sched_state (reported impl) = sched_state impl" "threads (reported impl) = threads impl"
    "worker_sync_initialized (reported impl) = worker_sync_initialized impl"
    "started_worker_count (reported impl) = started_worker_count impl" "present (reported impl) = present impl"
    "worker_infrastructure_failure (reported impl) = worker_infrastructure_failure impl"
    "worker_startup_failure_count (reported impl) = worker_startup_failure_count impl"
    by (simp_all add: reported_def present_iff thread_at_def fun_eq_iff)
  from assms show ?thesis
    by (cases c) (auto simp: control_inv_def f release_ok_def ended_def split: if_splits)
qed

lemma worker_report_inv:
  assumes inv: "net_inv w0 s" and run: "worker_report j s = Some s'"
  shows "net_inv w0 (s'\<lparr>ticks := Suc (ticks s)\<rparr>)"
  using inv
proof (rule net_invE, goal_cases)
  case 1
  have j: "j < length (crew s)" "crew s ! j = WStarting" using run by (auto simp: worker_report_def split: if_splits)
  have emp: "employed (crew s ! j)" using j(2) by (simp add: employed_def)
  note th = employed_threads [OF 1(3) j(1) emp]
  have cok: "crew_ok (core s) (env s)" using custody_crew [OF plumbingD(1) [OF 1(1)]] th(2) by (simp add: staffed_def)
  obtain c where c: "context_at (core s) j = Some c" "ctx_scheduler c \<noteq> None" "worker_index c < worker_count (core s)"
  proof -
    have "context_ok (core s) (crew s ! j) j" using 1(3) th(1) j(1) by (simp add: crew_inv_def)
    then show ?thesis using that j(2) by (auto simp: context_ok_def split: option.splits)
  qed
  let ?ws = "(crew s)[j := WLoop]" and ?c = "control_rouse (reported (core s)) [crew_wake (core s)] (ctl s)"
  have s': "s' = s\<lparr>core := reported (core s), crew := ?ws, ctl := ?c\<rparr>"
    using run j run_worker_ready [OF cok c(2,3)] plumbingD(2,7) [OF 1(1)]
    by (auto simp: worker_report_def c(1) conclude_def)
  have cnd: "cond_impl (worker_condition (core s)) \<noteq> None" using cok by (auto elim: crew_okE)
  have wk: "crew_wake (reported (core s)) = crew_wake (core s)" "worker_condition (reported (core s)) = worker_condition (core s)"
    by (simp_all add: reported_def crew_wake_def)
  note rc = rouse_crew [of "reported (core s)", unfolded wk, OF cnd]
  have t: "tallied busy ?ws = Suc (tallied busy (crew s))" "tallied has_reported ?ws = Suc (tallied has_reported (crew s))"
    "tallied (\<lambda>p. p \<noteq> WAbsent) ?ws = tallied (\<lambda>p. p \<noteq> WAbsent) (crew s)"
    using tallied_update [OF j(1), of busy WLoop] tallied_update [OF j(1), of has_reported WLoop] j
    by (simp_all add: has_reported_def tallied_same)
  have len: "length (crew s) < 2 ^ 64" using plumbingD(8) [OF 1(1)] unat_le_max [of "worker_count (core s)"] by simp
  have up: "unat (active_worker_count (core s) + 1) = Suc (tallied busy (crew s))"
    "unat (ready_worker_count (core s) + 1) = Suc (tallied has_reported (crew s))"
    using 1(3) th(1) t(1,2) tallied_le [of busy ?ws] tallied_le [of has_reported ?ws] len
      unat_more [of "active_worker_count (core s)"] unat_more [of "ready_worker_count (core s)"]
    by (auto simp: crew_inv_def)
  have crew': "crew_inv (reported (core s)) ?ws"
  proof -
    have f: "present (reported (core s)) = present (core s)" "result_of (reported (core s)) = result_of (core s)"
      "context_ok (reported (core s)) = context_ok (core s)" "staffed (reported (core s)) = staffed (core s)"
      by (simp_all add: fun_eq_iff reported_def present_iff thread_at_def result_of_def context_ok_def context_at_def staffed_def
          split: option.splits)
    have nth: "employed (?ws ! i) = employed (crew s ! i)" "?ws ! i = WAbsent \<longleftrightarrow> crew s ! i = WAbsent"
      "?ws ! i = WFinished r \<longleftrightarrow> crew s ! i = WFinished r" "context_ok (core s) (?ws ! i) i = context_ok (core s) (crew s ! i) i" for i r
      using j by (cases "i = j"; auto simp: employed_def context_ok_def split: option.splits)+
    show ?thesis using 1(3) th(1) up t unfolding crew_inv_def f by (simp add: nth) (auto simp: reported_def)
  qed
  have ctl': "control_inv (reported (core s)) (queue_of s) (subs s) ?ws ?c"
  proof -
    have "control_inv (core s) (queue_of s) (subs s) ?ws (ctl s)"
      by (rule life_worker(1) [OF j(1) _ _ _ _ 1(6)]) (use j in \<open>simp_all add: has_reported_def\<close>)
    then show ?thesis by (rule control_reported) (use rc in auto)
  qed
  show ?case
  proof (rule net_inv_tick)
    have "places (qpcs s) (subs s) ?ws"
      by (rule places_crew [OF plumbingD(4) [OF 1(1)] j(1)]) (use j in \<open>simp add: worker_place_def\<close>)
    from plumbing_core [OF 1(1) reported_frames(1,5,7) this, of ?c] show "plumbing w0 s'" by (simp add: s')
    show "gate_inv (core s') (subs s') (enqd s') (Suc (ticks s))"
      using gate_more [OF 1(2), of "Suc (ticks s)"] by (simp add: s' gate_frame [OF reported_frames(2)])
    show "crew_inv (core s') (crew s')" using crew' by (simp add: s')
    have "account_inv (core s) ?ws (deqd s @ []) (called s) (Suc (ticks s))"
      by (rule account_worker [OF 1(4) j(1)]) (use j in simp_all)
    then show "account_inv (core s') (crew s') (deqd s') (called s') (Suc (ticks s))"
      by (simp add: s' account_frame [OF reported_frames(3)])
    have "drain_inv (core s) (queue_of s) ?ws" by (rule drain_worker [OF 1(5) j(1)]) (use j in auto)
    then show "drain_inv (core s') (queue_of s') (crew s')"
      using drain_frame [OF reported_frames(4)] by (simp add: s' reported_frames)
    show "control_inv (core s') (queue_of s') (subs s') (crew s') (ctl s')" using ctl' by (simp add: s' reported_frames)
    have "state_inv (core s) (queue_of s) (subs s) ?ws (enqd s) (log s)"
      by (rule life_worker(2) [OF j(1) _ _ _ _ 1(7)]) (use j in \<open>simp_all add: has_reported_def\<close>)
    then show "state_inv (core s') (queue_of s') (subs s') (crew s') (enqd s') (log s')"
      using state_frame [of "reported (core s)" "core s"] by (simp add: s' reported_frames) (simp add: reported_def)
  qed
qed

text \<open>Changing the counters of one context.\<close>

lemma put_context_frames:
  "gate_fields (put_context j c impl) = gate_fields impl" "drain_fields (put_context j c impl) = drain_fields impl"
  "task_queue (put_context j c impl) = task_queue impl" "sched_state (put_context j c impl) = sched_state impl"
  "worker_count (put_context j c impl) = worker_count impl" "parts (put_context j c impl) = parts impl"
  "threads (put_context j c impl) = threads impl" "present (put_context j c impl) = present impl"
  by (simp_all add: put_context_def gate_fields_def drain_fields_def parts_defs present_iff thread_at_def fun_eq_iff
      split: option.splits prod.splits)

lemma context_put:
  assumes "context_at impl j = Some c"
  shows "context_at (put_context j c' impl) i = (if i = j then Some c' else context_at impl i)"
  using assms by (auto simp: context_at_def put_context_def nth_list_update split: option.splits prod.splits if_splits)

lemma crew_context:
  assumes inv: "crew_inv impl ws" "j < length ws" "busy (ws ! j)" "busy p" "context_at impl j = Some c"
    "ctx_scheduler c' = ctx_scheduler c" "worker_index c' = worker_index c"
  shows "crew_inv (put_context j c' impl) (ws[j := p])"
proof -
  have f: "present (put_context j c' impl) = present impl" "result_of (put_context j c' impl) = result_of impl"
    "staffed (put_context j c' impl) = staffed impl"
    by (auto simp: fun_eq_iff put_context_def present_iff thread_at_def result_of_def staffed_def)
  have "context_ok (put_context j c' impl) q i = context_ok impl q i" for q i
    using assms(5-7) by (simp add: context_ok_def context_put [OF assms(5)] put_context_frames split: option.splits)
  then have c: "context_ok (put_context j c' impl) = context_ok impl" by (simp add: fun_eq_iff)
  have n: "worker_contexts (put_context j c' impl) = None \<longleftrightarrow> worker_contexts impl = None" by (simp add: put_context_def)
  from crew_busy [OF inv(1-4)] show ?thesis unfolding crew_inv_def f c n by (simp add: put_context_def)
qed

lemma account_context:
  assumes inv: "account_inv impl ws ds cs k" and j: "j < length ws" "threads impl \<noteq> None" "context_at impl j = Some c"
    "holds p = holds (ws ! j)" "tracks j p cs c'" and "k \<le> k'"
  shows "account_inv (put_context j c' impl) (ws[j := p]) ds cs k'"
proof -
  have "totals (put_context j c' impl) xs = totals impl xs" for xs by (simp add: totals_def put_context_def)
  moreover have "mset (concat (map holds (ws[j := p]))) = mset (concat (map holds ws))"
    using holds_update [OF j(1), of p] j(4) by simp
  ultimately show ?thesis using inv j context_put [OF j(3), of c'] assms(7)
    by (auto simp: account_inv_def nth_list_update) (auto simp: put_context_def)
qed

lemma calls_bound:
  assumes "account_inv impl ws ds cs k"
  shows "length (filter P cs) \<le> k"
proof -
  have "size (mset ds) = size (mset (map (\<lambda>x. fst (snd x)) cs)) + size (mset (concat (map holds ws)))"
    using assms by (simp add: account_inv_def)
  then have "length cs \<le> length ds" by simp
  then show ?thesis using assms length_filter_le [of P cs] unfolding account_inv_def by linarith
qed

lemma bump_atomic_room:
  assumes "unat c \<le> k" "k < 2 ^ 64 - 1"
  shows "bump_atomic c v = (True, c + 1, v)" "unat (c + 1) = Suc (unat c)"
  using assms unat_max64 bump_room(2) [OF assms] by (auto simp: bump_atomic_eq)

text \<open>The places of a worker inside a callback.\<close>

fun next_place :: "worker \<Rightarrow> worker option" where
  "next_place (WTook t) = Some (WCounted t)"
| "next_place (WCounted t) = Some (WStarted t)"
| "next_place (WStarted t) = Some (WRunning t True)"
| "next_place (WReturned r b) = Some (WAccounted b)"
| "next_place (WAccounted b) = Some WLoop"
| "next_place p = None"

lemma account_step:
  assumes run: "worker_account j s = Some s'" and k: "ticks s < 2 ^ 64 - 1"
    and inv: "account_inv (core s) (crew s) (deqd s) (called s) (ticks s)" and th: "j < length (crew s) \<Longrightarrow> busy (crew s ! j) \<Longrightarrow> threads (core s) \<noteq> None"
  obtains c c' p where "j < length (crew s)" "context_at (core s) j = Some c" "next_place (crew s ! j) = Some p"
    "s' = s\<lparr>core := put_context j c' (core s), crew := (crew s)[j := p]\<rparr>" "tracks j p (called s) c'"
    "ctx_scheduler c' = ctx_scheduler c" "worker_index c' = worker_index c"
proof -
  obtain c where c: "j < length (crew s)" "context_at (core s) j = Some c" "busy (crew s ! j)"
    using run by (auto simp: worker_account_def split: if_splits option.splits worker.splits)
  have t: "tracks j (crew s ! j) (called s) c" using inv c th [OF c(1,3)] by (simp add: account_inv_def)
  let ?h = "filter (\<lambda>x. fst x = j) (called s)"
  have h: "length ?h \<le> ticks s" "tallied P ?h \<le> ticks s" for P
    using calls_bound [OF inv] tallied_le [of P ?h] le_trans by blast+
  note up = bump_atomic_room [OF _ k]
  have room: "unat (ctx_dequeued_count c) \<le> ticks s" if "crew s ! j = WTook t" for t
    using t h(1) that by (simp add: tracks_def Let_def)
  have room2: "unat (ctx_callback_started_count c) \<le> ticks s" if "crew s ! j = WCounted t" for t
    using t h(1) that by (simp add: tracks_def Let_def)
  have room3: "unat (ctx_currently_running_count c) \<le> ticks s" if "crew s ! j = WStarted t" for t
    using t that by (simp add: tracks_def Let_def)
  have room4: "unat (ctx_callback_succeeded_count c) \<le> ticks s \<and> unat (ctx_callback_failed_count c) \<le> ticks s" if "crew s ! j = WReturned r b" for r b
    using t h(2) [of "\<lambda>x. snd (snd x) = 0"] h(2) [of "\<lambda>x. snd (snd x) \<noteq> 0"] that by (auto simp: tracks_def Let_def split: if_splits)
  show ?thesis
  proof (cases "crew s ! j")
    case (WTook u)
    have "s' = s\<lparr>core := put_context j (account_dequeued c) (core s), crew := (crew s)[j := WCounted u]\<rparr>"
      using run c WTook by (simp add: worker_account_def put_counts_def)
    moreover have "tracks j (WCounted u) (called s) (account_dequeued c)" "ctx_scheduler (account_dequeued c) = ctx_scheduler c"
      "worker_index (account_dequeued c) = worker_index c"
      using t WTook up [OF room [OF WTook]] by (simp add: tracks_def Let_def account_dequeued_def)+
    ultimately show ?thesis using that [OF c(1,2)] WTook by simp
  next
    case (WCounted u)
    have "s' = s\<lparr>core := put_context j (account_started c) (core s), crew := (crew s)[j := WStarted u]\<rparr>"
      using run c WCounted by (simp add: worker_account_def put_counts_def)
    moreover have "tracks j (WStarted u) (called s) (account_started c)" "ctx_scheduler (account_started c) = ctx_scheduler c"
      "worker_index (account_started c) = worker_index c"
      using t WCounted up [OF room2 [OF WCounted]] by (simp add: tracks_def Let_def account_started_def)+
    ultimately show ?thesis using that [OF c(1,2)] WCounted by simp
  next
    case (WStarted u)
    have "s' = s\<lparr>core := put_context j (snd (account_running c)) (core s), crew := (crew s)[j := WRunning u True]\<rparr>"
      using run c WStarted up [OF room3 [OF WStarted]] by (simp add: worker_account_def put_counts_def account_running_def)
    moreover have "tracks j (WRunning u True) (called s) (snd (account_running c))" "ctx_scheduler (snd (account_running c)) = ctx_scheduler c"
      "worker_index (snd (account_running c)) = worker_index c"
      using t WStarted up [OF room3 [OF WStarted]] by (simp add: tracks_def Let_def account_running_def)+
    ultimately show ?thesis using that [OF c(1,2)] WStarted by simp
  next
    case (WReturned r b)
    have "s' = s\<lparr>core := put_context j (account_outcome r c) (core s), crew := (crew s)[j := WAccounted b]\<rparr>"
      using run c WReturned by (simp add: worker_account_def put_counts_def)
    moreover have "tracks j (WAccounted b) (called s) (account_outcome r c)" "ctx_scheduler (account_outcome r c) = ctx_scheduler c"
      "worker_index (account_outcome r c) = worker_index c"
      using t WReturned up [OF conjunct1 [OF room4 [OF WReturned]]] up [OF conjunct2 [OF room4 [OF WReturned]]] by (cases "r = 0"; simp add: tracks_def Let_def account_outcome_def)+
    ultimately show ?thesis using that [OF c(1,2)] WReturned by simp
  next
    case (WAccounted b)
    have idl: "unat (ctx_currently_running_count c - 1) = 0" "b"
      using t WAccounted unat_less [of "ctx_currently_running_count c"] by (simp_all add: tracks_def Let_def)
    have "s' = s\<lparr>core := put_context j (account_idle b c) (core s), crew := (crew s)[j := WLoop]\<rparr>"
      using run c WAccounted by (simp add: worker_account_def put_counts_def)
    moreover have "tracks j (WLoop) (called s) (account_idle b c)" "ctx_scheduler (account_idle b c) = ctx_scheduler c"
      "worker_index (account_idle b c) = worker_index c"
      using t WAccounted idl by (simp add: tracks_def Let_def account_idle_def)+
    ultimately show ?thesis using that [OF c(1,2)] WAccounted by simp
  qed (use run c in \<open>simp_all add: worker_account_def\<close>)
qed

lemma next_place_facts:
  assumes "next_place p = Some p'"
  shows "busy p" "busy p'" "holds p' = holds p" "p' \<noteq> WJoined" "p \<noteq> WJoined" "\<not> leaves_well p' \<and> \<not> withdrawn p'" "p' \<noteq> WShut 0"
    "worker_place p q \<Longrightarrow> worker_place p' q"
  using assms by (cases p; auto simp: worker_place_def)+

lemma worker_account_inv:
  assumes inv: "net_inv w0 s" and k: "ticks s < 2 ^ 64 - 1" and run: "worker_account j s = Some s'"
  shows "net_inv w0 (s'\<lparr>ticks := Suc (ticks s)\<rparr>)"
  using inv
proof (rule net_invE, goal_cases)
  case 1
  have thr: "threads (core s) \<noteq> None" if "j < length (crew s)" "busy (crew s ! j)"
    using employed_threads(1) [OF 1(3) that(1)] busy_facts [OF that(2)] by simp
  from account_step [OF run k 1(4) thr] obtain c c' p where e: "j < length (crew s)" "context_at (core s) j = Some c"
    "next_place (crew s ! j) = Some p" "s' = s\<lparr>core := put_context j c' (core s), crew := (crew s)[j := p]\<rparr>"
    "tracks j p (called s) c'" "ctx_scheduler c' = ctx_scheduler c" "worker_index c' = worker_index c" .
  note n = next_place_facts [OF e(3)] and pf = put_context_frames
  note b = busy_facts [OF n(1)] busy_facts [OF n(2)]
  let ?i = "put_context j c' (core s)" and ?ws = "(crew s)[j := p]"
  show ?case
  proof (rule net_inv_tick)
    have "places (qpcs s) (subs s) ?ws"
      by (rule places_crew [OF plumbingD(4) [OF 1(1)] e(1) n(8)])
    from plumbing_core [OF 1(1) pf(6,3,5) this, of "ctl s"] show "plumbing w0 s'" by (simp add: e(4))
    show "gate_inv (core s') (subs s') (enqd s') (Suc (ticks s))"
      using gate_more [OF 1(2), of "Suc (ticks s)"] by (simp add: e(4) gate_frame [OF pf(1)])
    show "crew_inv (core s') (crew s')" using crew_context [OF 1(3) e(1) n(1,2) e(2,6,7)] by (simp add: e(4))
    show "account_inv (core s') (crew s') (deqd s') (called s') (Suc (ticks s))"
      using account_context [OF 1(4) e(1) thr [OF e(1) n(1)] e(2) n(3) e(5), of "Suc (ticks s)"] by (simp add: e(4))
    have "drain_inv (core s) (queue_of s) ?ws" by (rule drain_worker [OF 1(5) e(1)]) (use n b in auto)
    then show "drain_inv (core s') (queue_of s') (crew s')" using drain_frame [OF pf(2)] by (simp add: e(4) pf)
    have ctl: "control_inv (core s) (queue_of s) (subs s) ?ws (ctl s)" "state_inv (core s) (queue_of s) (subs s) ?ws (enqd s) (log s)"
      using life_worker [OF e(1), of p "queue_of s" "queue_of s"] b 1(6,7) by auto
    have fr: "started_worker_count ?i = started_worker_count (core s)" "worker_sync_initialized ?i = worker_sync_initialized (core s)"
      "ready_worker_count ?i = ready_worker_count (core s)" "worker_infrastructure_failure ?i = worker_infrastructure_failure (core s)"
      "worker_startup_failure_count ?i = worker_startup_failure_count (core s)"
      by (simp_all add: put_context_def)
    show "control_inv (core s') (queue_of s') (subs s') (crew s') (ctl s')"
      using ctl(1) by (cases "ctl s") (simp_all add: e(4) pf fr control_inv_def release_ok_def ended_def)
    show "state_inv (core s') (queue_of s') (subs s') (crew s') (enqd s') (log s')"
      using ctl(2) state_frame [of ?i "core s"] by (simp add: e(4) pf fr)
  qed
qed

lemma tallied_snoc: "tallied P (xs @ [x]) = tallied P xs + one_if (P x)"
  by (simp add: tallied_def)

lemma account_call:
  assumes inv: "account_inv impl ws ds cs k" and j: "j < length ws" "ws ! j = WRunning t b" "threads impl \<noteq> None"
  shows "account_inv impl (ws[j := WReturned r b]) ds (cs @ [(j, t, r)]) k"
proof -
  have t: "tracks i (ws[j := WReturned r b] ! i) (cs @ [(j, t, r)]) c" if "i < length ws" "context_at impl i = Some c" for i c
  proof -
    have "tracks i (ws ! i) cs c" using inv that j(3) by (simp add: account_inv_def)
    then show ?thesis using j that by (cases "i = j") (auto simp: tracks_def Let_def tallied_snoc)
  qed
  have "mset ds = mset (map (\<lambda>x. fst (snd x)) (cs @ [(j, t, r)])) + mset (concat (map holds (ws[j := WReturned r b])))"
  proof -
    have "mset (concat (map holds ws)) = mset (concat (map holds (ws[j := WReturned r b]))) + {#t#}"
      using holds_update [OF j(1), of "WReturned r b"] j(2) by simp
    then show ?thesis using inv by (simp add: account_inv_def)
  qed
  with inv t j show ?thesis by (auto simp: account_inv_def)
qed

lemma worker_callback_inv:
  assumes inv: "net_inv w0 s" and run: "worker_callback j r s = Some s'"
  shows "net_inv w0 (s'\<lparr>ticks := Suc (ticks s)\<rparr>)"
  using inv
proof (rule net_invE, goal_cases)
  case 1
  obtain t b where j: "j < length (crew s)" "crew s ! j = WRunning t b"
    and s': "s' = s\<lparr>crew := (crew s)[j := WReturned r b], called := called s @ [(j, t, r)]\<rparr>"
    using run by (auto simp: worker_callback_def split: if_splits worker.splits)
  let ?ws = "(crew s)[j := WReturned r b]"
  have thr: "threads (core s) \<noteq> None" using employed_threads(1) [OF 1(3) j(1)] j(2) by (simp add: employed_def)
  show ?case
  proof (rule net_inv_tick)
    have "places (qpcs s) (subs s) ?ws"
      by (rule places_crew [OF plumbingD(4) [OF 1(1)] j(1)]) (use j in \<open>simp add: worker_place_def\<close>)
    from plumbing_core [OF 1(1) refl refl refl this, of "ctl s"] show "plumbing w0 s'"
      by (simp add: s' plumbing_def)
    show "gate_inv (core s') (subs s') (enqd s') (Suc (ticks s))"
      using gate_more [OF 1(2), of "Suc (ticks s)"] by (simp add: s')
    show "crew_inv (core s') (crew s')" using crew_busy [OF 1(3) j(1)] j(2) by (simp add: s')
    show "account_inv (core s') (crew s') (deqd s') (called s') (Suc (ticks s))"
      using account_more [OF account_call [OF 1(4) j thr], of "Suc (ticks s)"] by (simp add: s')
    have "drain_inv (core s) (queue_of s) ?ws" by (rule drain_worker [OF 1(5) j(1)]) (use j in auto)
    then show "drain_inv (core s') (queue_of s') (crew s')" by (simp add: s')
    show "control_inv (core s') (queue_of s') (subs s') (crew s') (ctl s')"
      "state_inv (core s') (queue_of s') (subs s') (crew s') (enqd s') (log s')"
      using life_worker [OF j(1), of "WReturned r b" "queue_of s" "queue_of s"] j(2) 1(6,7)
      by (simp_all add: s' has_reported_def)
  qed
qed

section \<open>A worker's exit keeps the invariant\<close>

lemma map_update_same: "f t = f (xs ! j) \<Longrightarrow> map f (xs[j := t]) = map f xs"
  by (cases "j < length xs") (simp_all add: list_eq_iff_nth_eq nth_list_update map_update)

lemma thread_ends_frames:
  "gate_fields (thread_ends j r impl) = gate_fields impl" "drain_fields (thread_ends j r impl) = drain_fields impl"
  "account_fields (thread_ends j r impl) = account_fields impl"
  "task_queue (thread_ends j r impl) = task_queue impl" "sched_state (thread_ends j r impl) = sched_state impl"
  "worker_count (thread_ends j r impl) = worker_count impl" "parts (thread_ends j r impl) = parts impl"
  "threads (thread_ends j r impl) = None \<longleftrightarrow> threads impl = None"
proof -
  show "gate_fields (thread_ends j r impl) = gate_fields impl" "drain_fields (thread_ends j r impl) = drain_fields impl"
    "account_fields (thread_ends j r impl) = account_fields impl"
    "task_queue (thread_ends j r impl) = task_queue impl" "sched_state (thread_ends j r impl) = sched_state impl"
    "worker_count (thread_ends j r impl) = worker_count impl" "threads (thread_ends j r impl) = None \<longleftrightarrow> threads impl = None"
    by (simp_all add: thread_ends_def put_thread_def gate_fields_def drain_fields_def account_fields_def split: option.splits)
  show "parts (thread_ends j r impl) = parts impl"
  proof (cases "thread_at impl j")
    case (Some t)
    then obtain a ts where ts: "threads impl = Some (a, ts)" "j < length ts" "ts ! j = t"
      by (auto simp: thread_at_def split: option.splits if_splits)
    let ?t = "\<lparr>thread_impl = map_option (\<lambda>x. x\<lparr>start := snd (windows_thread_entry (\<lambda>_ _. r) (start x))\<rparr>) (thread_impl t)\<rparr>"
    have f: "thread_blocks ?t = thread_blocks t" "thread_handles ?t = thread_handles t"
      by (simp_all add: thread_blocks_def thread_handles_def windows_thread_entry_def split: option.splits)
    have "map thread_blocks (ts[j := ?t]) = map thread_blocks ts" "map thread_handles (ts[j := ?t]) = map thread_handles ts"
      using map_update_same [of thread_blocks ?t ts j] map_update_same [of thread_handles ?t ts j] f ts(3) by simp_all
    then show ?thesis using Some ts by (simp add: thread_ends_def put_thread_def parts_defs)
  qed (simp add: thread_ends_def)
qed

lemma thread_ends_crew:
  assumes "present impl j"
  shows "present (thread_ends j r impl) = present impl" "result_of (thread_ends j r impl) j = Some r"
    "i \<noteq> j \<Longrightarrow> result_of (thread_ends j r impl) i = result_of impl i" "context_ok (thread_ends j r impl) = context_ok impl"
    "staffed (thread_ends j r impl) = staffed impl"
proof -
  obtain t x a ts where t: "thread_at impl j = Some t" "thread_impl t = Some x" "threads impl = Some (a, ts)" "j < length ts" "ts ! j = t"
    using assms by (auto simp: present_iff thread_at_def split: option.splits if_splits)
  let ?t = "\<lparr>thread_impl = Some (x\<lparr>start := snd (windows_thread_entry (\<lambda>_ _. r) (start x))\<rparr>)\<rparr>"
  have te: "thread_ends j r impl = impl\<lparr>threads := Some (a, ts[j := ?t])\<rparr>"
    using t by (simp add: thread_ends_def put_thread_def)
  have at: "thread_at (thread_ends j r impl) i = (if i = j then Some ?t else thread_at impl i)" for i
    using t by (auto simp: te thread_at_def)
  show "present (thread_ends j r impl) = present impl" using t by (auto simp: fun_eq_iff present_iff at)
  show "result_of (thread_ends j r impl) j = Some r" by (simp add: result_of_def at windows_thread_entry_def)
  show "i \<noteq> j \<Longrightarrow> result_of (thread_ends j r impl) i = result_of impl i" by (simp add: result_of_def at)
  show "context_ok (thread_ends j r impl) = context_ok impl"
    by (auto simp: fun_eq_iff te context_ok_def context_at_def split: option.splits)
  show "staffed (thread_ends j r impl) = staffed impl" using t by (auto simp: te staffed_def)
qed

lemma departed_frames:
  "gate_fields (departed r impl) = gate_fields impl" "parts (departed r impl) = parts impl"
  "task_queue (departed r impl) = task_queue impl" "sched_state (departed r impl) = sched_state impl"
  "worker_count (departed r impl) = worker_count impl" "threads (departed r impl) = threads impl"
  "worker_contexts (departed r impl) = worker_contexts impl" "started_worker_count (departed r impl) = started_worker_count impl"
  "ready_worker_count (departed r impl) = ready_worker_count impl" "created_worker_count (departed r impl) = created_worker_count impl"
  "worker_sync_initialized (departed r impl) = worker_sync_initialized impl" "joined_worker_count (departed r impl) = joined_worker_count impl"
  "join_failure_count (departed r impl) = join_failure_count impl"
  "worker_startup_failure_count (departed r impl) = worker_startup_failure_count impl" "active_worker_count (departed r impl) = active_worker_count impl - 1"
  "worker_infrastructure_failure (departed r impl) = (worker_infrastructure_failure impl \<or> r \<noteq> 0)"
  by (auto simp: departed_def count_defs Let_def gate_fields_def parts_defs split: prod.splits)

lemma account_departed:
  assumes "account_inv impl ws ds cs k" "k < 2 ^ 64 - 1"
  shows "account_inv (departed r impl) ws ds cs (Suc k)"
proof -
  have u: "unat (worker_runtime_failure_count impl) \<le> k" using assms(1) by (simp add: account_inv_def)
  note up = bump_room [OF u assms(2)]
  have "context_at (departed r impl) = context_at impl" "totals (departed r impl) = totals impl"
    by (simp_all add: fun_eq_iff context_at_def departed_frames totals_def)
      (simp add: departed_def count_defs Let_def split: prod.splits)
  with assms(1) up show ?thesis unfolding account_inv_def departed_frames
    by (auto simp: departed_def count_defs Let_def)
qed

lemma worker_exit_inv:
  assumes inv: "net_inv w0 s" and k: "ticks s < 2 ^ 64 - 1" and run: "worker_exit j s = Some s'"
  shows "net_inv w0 (s'\<lparr>ticks := Suc (ticks s)\<rparr>)"
  using inv
proof (rule net_invE, goal_cases)
  case 1
  obtain r where j: "j < length (crew s)" "crew s ! j = WLeaving r"
    using run by (auto simp: worker_exit_def split: if_splits worker.splits)
  have emp: "employed (crew s ! j)" using j(2) by (simp add: employed_def)
  note th = employed_threads [OF 1(3) j(1) emp]
  have cok: "crew_ok (core s) (env s)" using custody_crew [OF plumbingD(1) [OF 1(1)]] th(2) by (simp add: staffed_def)
  have act: "unat (active_worker_count (core s)) = tallied busy (crew s)" using 1(3) by (simp add: crew_inv_def)
  let ?ws = "(crew s)[j := WFinished r]" and ?d = "departed r (core s)" and ?i = "thread_ends j r (departed r (core s))"
  have t: "Suc (tallied busy ?ws) = tallied busy (crew s)" "tallied has_reported ?ws = tallied has_reported (crew s)"
    "tallied (\<lambda>p. p \<noteq> WAbsent) ?ws = tallied (\<lambda>p. p \<noteq> WAbsent) (crew s)"
    using tallied_update [OF j(1), of busy "WFinished r"] j by (simp_all add: has_reported_def tallied_same)
  then have some: "active_worker_count (core s) \<noteq> 0" using act by auto
  have s': "s' = s\<lparr>core := ?i, crew := ?ws\<rparr>"
    using run j run_worker_exit [OF cok some, of r] conclude_quiet [OF 1(1)] by (auto simp: worker_exit_def)
  have pres: "present ?d = present (core s)" by (simp add: fun_eq_iff present_iff thread_at_def departed_frames)
  with th(3) have pj: "present ?d j" by simp
  note te = thread_ends_crew [OF pj, where r = r] and tf = thread_ends_frames and df = departed_frames
  have frame: "present ?i = present (core s)" "staffed ?i = staffed (core s)" "context_ok ?i = context_ok (core s)"
    "worker_contexts ?i = worker_contexts (core s)" "started_worker_count ?i = started_worker_count (core s)"
    "ready_worker_count ?i = ready_worker_count (core s)" "created_worker_count ?i = created_worker_count (core s)"
    "active_worker_count ?i = active_worker_count (core s) - 1" "worker_sync_initialized ?i = worker_sync_initialized (core s)"
    "worker_infrastructure_failure ?i = (worker_infrastructure_failure (core s) \<or> r \<noteq> 0)"
    "sched_state ?i = sched_state (core s)" "joined_worker_count ?i = joined_worker_count (core s)" "join_failure_count ?i = join_failure_count (core s)"
    "worker_startup_failure_count ?i = worker_startup_failure_count (core s)"
  proof -
    show "present ?i = present (core s)" by (simp add: te pres)
    show "staffed ?i = staffed (core s)" by (simp add: te) (simp add: staffed_def df)
    show "context_ok ?i = context_ok (core s)" by (simp add: te) (simp add: fun_eq_iff context_ok_def context_at_def df split: option.splits)
  qed (simp_all add: thread_ends_def put_thread_def df split: option.splits)
  have res: "result_of ?d i = result_of (core s) i" for i by (simp add: result_of_def thread_at_def df)
  have un: "unat (active_worker_count (core s) - 1) = tallied busy ?ws"
    using some act t unat_less [of "active_worker_count (core s)"] by (simp add: unat_eq_zero)
  have crew': "crew_inv ?i ?ws"
  proof -
    have nth: "employed (?ws ! i) = employed (crew s ! i)" "?ws ! i = WAbsent \<longleftrightarrow> crew s ! i = WAbsent"
      "context_ok (core s) (?ws ! i) i = context_ok (core s) (crew s ! i) i" for i
      using j by (cases "i = j"; auto simp: employed_def context_ok_def split: option.splits)+
    have fin: "result_of ?i i = Some q" if "i < length (crew s)" "?ws ! i = WFinished q" for i q
      using that te(2) te(3) [of i] res [of i] 1(3) j by (cases "i = j") (auto simp: crew_inv_def)
    have nn: "threads ?i = None \<longleftrightarrow> threads (core s) = None" by (simp add: tf df)
    show ?thesis using 1(3) th(1) un t fin unfolding crew_inv_def frame nn by (simp add: nth) auto
  qed
  have dr: "drain_inv ?i (queue_of s) ?ws"
  proof -
    have "leaves_well (WFinished r) \<Longrightarrow> dry (queue_of s)" "closed (queue_of s)" using 1(5) j nth_mem [OF j(1)] by (auto simp: drain_inv_def)
    moreover have "drain_inv ?i (queue_of s) (crew s)"
      using 1(5) unfolding drain_inv_def frame by auto
    ultimately show ?thesis by (intro drain_worker [OF _ j(1)]) (use j frame(10) in auto)
  qed
  have ctl': "control_inv ?i (queue_of s) (subs s) ?ws (ctl s)"
  proof -
    have nn: "threads ?i = None \<longleftrightarrow> threads (core s) = None" by (simp add: tf df)
    have "control_inv (core s) (queue_of s) (subs s) ?ws (ctl s)"
      by (rule life_worker(1) [OF j(1) _ _ _ _ 1(6)]) (use j in \<open>simp_all add: has_reported_def\<close>)
    then show ?thesis using th(1)
      by (cases "ctl s") (auto simp: control_inv_def frame release_ok_def ended_def nn tf(6) df)
  qed
  have st': "state_inv ?i (queue_of s) (subs s) ?ws (enqd s) (log s)"
  proof -
    have nn: "threads ?i = None \<longleftrightarrow> threads (core s) = None" by (simp add: tf df)
    have "state_inv (core s) (queue_of s) (subs s) ?ws (enqd s) (log s)"
      by (rule life_worker(2) [OF j(1) _ _ _ _ 1(7)]) (use j in \<open>simp_all add: has_reported_def\<close>)
    then show ?thesis using th(1) unfolding state_inv_def frame nn by (auto split: SchedulerState.splits)
  qed
  show ?case
  proof (rule net_inv_tick)
    have pl: "places (qpcs s) (subs s) ?ws"
      by (rule places_crew [OF plumbingD(4) [OF 1(1)] j(1)]) (use j in \<open>simp add: worker_place_def\<close>)
    have "parts ?i = parts (core s)" "task_queue ?i = task_queue (core s)" "worker_count ?i = worker_count (core s)"
      by (simp_all add: tf df)
    from plumbing_core [OF 1(1) this pl, of "ctl s"] show "plumbing w0 s'" by (simp add: s')
    show "gate_inv (core s') (subs s') (enqd s') (Suc (ticks s))"
      using gate_more [OF 1(2), of "Suc (ticks s)"] gate_frame [OF tf(1)] gate_frame [OF df(1)] by (simp add: s')
    show "crew_inv (core s') (crew s')" using crew' by (simp add: s')
    have "account_inv ?d ?ws (deqd s @ []) (called s) (Suc (ticks s))"
      by (rule account_worker [OF account_departed [OF 1(4) k] j(1)]) (use j in simp_all)
    then show "account_inv (core s') (crew s') (deqd s') (called s') (Suc (ticks s))"
      by (simp add: s' account_frame [OF tf(3)])
    show "drain_inv (core s') (queue_of s') (crew s')" using dr by (simp add: s' tf df)
    show "control_inv (core s') (queue_of s') (subs s') (crew s') (ctl s')" using ctl' by (simp add: s' tf df)
    show "state_inv (core s') (queue_of s') (subs s') (crew s') (enqd s') (log s')" using st' by (simp add: s' tf df)
  qed
qed

end
