(* ===== verification/Scheduler_Control.thy ===== *)
theory Scheduler_Control
  imports Scheduler_Workers
begin

text \<open>
  The controlling thread keeps the invariant of the whole scheduler.
\<close>

section \<open>A step of the controlling thread\<close>

lemma cq_ok_custody:
  assumes "cq_ok q w" "custody w0 impl w'" "task_queue impl = q"
  shows "cq_ok q w'"
proof -
  obtain i m e f where q: "implementation q = Some i" "mutex_impl (mutex i) = Some m" "cond_impl (not_empty i) = Some e"
    "cond_impl (not_full i) = Some f" "e \<noteq> f" using assms(1) by (auto elim: cq_okE)
  have "m \<in> set (sections_of impl)" using q assms(3) by (auto simp: sections_of_def queue_section_def)
  from custody_section [OF assms(2) this] q assms(1) show ?thesis by (auto simp: cq_ok_def impl_ok_def)
qed

lemma plumbing_world:
  assumes pl: "plumbing w0 s" and "custody w0 impl w" "task_queue impl = task_queue (core s)"
    "worker_count impl = worker_count (core s)" "places (qpcs s) (subs s) ws" "length ws = length (crew s)"
  shows "plumbing w0 (s\<lparr>core := impl, env := w\<lparr>wakes := [], fate := []\<rparr>, crew := ws, ctl := c, log := lg\<rparr>)"
proof -
  note s = plumbingD [OF pl]
  have "cq_ok (task_queue (core s)) (w\<lparr>wakes := [], fate := []\<rparr>)"
    using cq_ok_custody [OF s(6) _ assms(3)] assms(2) by simp
  moreover have "ws \<noteq> []" using s(9) assms(6) by auto
  ultimately show ?thesis using assms s by (simp add: plumbing_def queue_sys_def sys_inv_def sys_ok_def sys_view_def)
qed

text \<open>
  The controlling thread changes the scheduler, a worker's place, its own and the log; the gate
  and the queue stay.
\<close>

lemma control_step_inv:
  assumes inv: "net_inv w0 s" and cus: "custody w0 impl w" "task_queue impl = task_queue (core s)"
      "worker_count impl = worker_count (core s)" "gate_fields impl = gate_fields (core s)"
    and pl: "places (qpcs s) (subs s) ws" "length ws = length (crew s)"
    and parts: "crew_inv impl ws" "account_inv impl ws (deqd s) (called s) (Suc (ticks s))" "drain_inv impl (queue_of s) ws"
      "control_inv impl (queue_of s) (subs s) ws c" "state_inv impl (queue_of s) (subs s) ws (enqd s) lg"
    and s': "s' = s\<lparr>core := impl, env := w\<lparr>wakes := [], fate := []\<rparr>, crew := ws, ctl := c, log := lg\<rparr>"
  shows "net_inv w0 (s'\<lparr>ticks := Suc (ticks s)\<rparr>)"
  using inv
proof (rule net_invE, goal_cases)
  case 1
  show ?case
  proof (rule net_inv_tick)
    show "plumbing w0 s'" unfolding s' by (rule plumbing_world [OF 1(1) cus(1-3) pl])
    show "gate_inv (core s') (subs s') (enqd s') (Suc (ticks s))"
      using gate_more [OF 1(2), of "Suc (ticks s)"] gate_frame [OF cus(4)] by (simp add: s')
  qed (use parts cus(2) in \<open>simp_all add: s'\<close>)
qed

text \<open>A step that only changes the state of the scheduler.\<close>

lemma control_state_inv:
  assumes inv: "net_inv w0 s"
    and life: "control_inv ((core s)\<lparr>sched_state := st\<rparr>) (queue_of s) (subs s) (crew s) c"
      "state_inv ((core s)\<lparr>sched_state := st\<rparr>) (queue_of s) (subs s) (crew s) (enqd s) lg"
    and s': "s' = s\<lparr>core := (core s)\<lparr>sched_state := st\<rparr>, ctl := c, log := lg\<rparr>"
  shows "net_inv w0 (s'\<lparr>ticks := Suc (ticks s)\<rparr>)"
  using inv
proof (rule net_invE, goal_cases)
  case 1
  let ?i = "(core s)\<lparr>sched_state := st\<rparr>"
  have f: "gate_fields ?i = gate_fields (core s)" "crew_fields ?i = crew_fields (core s)"
    "account_fields ?i = account_fields (core s)" "drain_fields ?i = drain_fields (core s)" "parts ?i = parts (core s)"
    by (simp_all add: gate_fields_def crew_fields_def account_fields_def drain_fields_def parts_defs)
  note p = plumbingD [OF 1(1)]
  have cus: "custody w0 ?i (env s)" using custody_parts [OF f(5)] p(1) by simp
  show ?case
  proof (rule control_step_inv [OF inv cus _ _ f(1) p(4) refl])
    show "crew_inv ?i (crew s)" using crew_frame(1) [OF f(2)] 1(3) by simp
    show "account_inv ?i (crew s) (deqd s) (called s) (Suc (ticks s))"
      using account_more [OF 1(4), of "Suc (ticks s)"] account_frame [OF f(3)] by simp
    show "drain_inv ?i (queue_of s) (crew s)" by (rule drain_frame [OF f(4) _ _ 1(5)])
    show "s' = s\<lparr>core := ?i, env := (env s)\<lparr>wakes := [], fate := []\<rparr>, crew := crew s, ctl := c, log := lg\<rparr>"
      using p(2,7) by (simp add: s')
  qed (use life in simp_all)
qed

lemma control_move_inv:
  assumes inv: "net_inv w0 s"
    and life: "control_inv (core s) (queue_of s) (subs s) (crew s) c"
      "state_inv (core s) (queue_of s) (subs s) (crew s) (enqd s) lg"
    and s': "s' = s\<lparr>ctl := c, log := lg\<rparr>"
  shows "net_inv w0 (s'\<lparr>ticks := Suc (ticks s)\<rparr>)"
proof (rule control_state_inv [OF inv])
  have same: "(core s)\<lparr>sched_state := sched_state (core s)\<rparr> = core s" by simp
  show "control_inv ((core s)\<lparr>sched_state := sched_state (core s)\<rparr>) (queue_of s) (subs s) (crew s) c"
    "state_inv ((core s)\<lparr>sched_state := sched_state (core s)\<rparr>) (queue_of s) (subs s) (crew s) (enqd s) lg"
    "s' = s\<lparr>core := (core s)\<lparr>sched_state := sched_state (core s)\<rparr>, ctl := c, log := lg\<rparr>"
    using life s' by (simp_all only: same) simp
qed

section \<open>The lifecycle calls begin\<close>

lemma state_log:
  "state_inv impl A ss ws es lg \<Longrightarrow> (Join_call, SCHEDULER_OK) \<in> set x \<Longrightarrow> sched_state impl = SCHEDULER_STATE_STOPPED
     \<Longrightarrow> state_inv impl A ss ws es (lg @ x)"
  "state_inv impl A ss ws es lg \<Longrightarrow> (Join_call, SCHEDULER_OK) \<notin> set x \<Longrightarrow> state_inv impl A ss ws es (lg @ x)"
  by (cases "sched_state impl"; auto simp: state_inv_def)+

lemma unborn_incomplete: "ws \<noteq> [] \<Longrightarrow> unborn ws \<Longrightarrow> \<not> complete ws"
  by (cases ws) auto

lemma conclude_same: "plumbing w0 s \<Longrightarrow> conclude (core s) (env s) s = s"
  by (simp add: conclude_quiet)

lemma refused_inv:
  assumes "net_inv w0 s" "ctl s = CIdle" "s' = call_returns call r s"
    "call = Join_call \<and> r = SCHEDULER_OK \<longrightarrow> sched_state (core s) = SCHEDULER_STATE_STOPPED"
  shows "net_inv w0 (s'\<lparr>ticks := Suc (ticks s)\<rparr>)"
  using assms(1)
proof (rule net_invE, goal_cases)
  case 1
  show ?case
    by (rule control_move_inv [OF assms(1), where c = CIdle and lg = "log s @ [(call, r)]"])
      (use 1 assms state_log [OF 1(7), of "[(call, r)]"] in \<open>auto simp: call_returns_def\<close>)
qed

lemma start_call_inv:
  assumes inv: "net_inv w0 s" and run: "lifecycle_call Start_call s = Some s'"
  shows "net_inv w0 (s'\<lparr>ticks := Suc (ticks s)\<rparr>)"
  using inv
proof (rule net_invE, goal_cases)
  case 1
  have idle: "ctl s = CIdle" using run by (simp add: lifecycle_call_def split: if_splits)
  note gate = run_start_gate [OF plumbingD(5) [OF 1(1)]]
  show ?case
  proof (cases "sched_state (core s) = SCHEDULER_STATE_INITIALIZED")
    case True
    have s': "s' = s\<lparr>core := (core s)\<lparr>sched_state := SCHEDULER_STATE_STARTING\<rparr>, ctl := CResources, log := log s\<rparr>"
      using run idle True gate by (auto simp: lifecycle_call_def Let_def conclude_quiet [OF 1(1)])
    have "enqd s = []" using 1(7) True unborn_incomplete [OF plumbingD(9) [OF 1(1)]] by (simp add: state_inv_def)
    then show ?thesis
      by (intro control_state_inv [OF inv _ _ s']) (use 1(7) True in \<open>simp_all add: control_inv_def state_inv_def\<close>)
  next
    case False
    have "s' = call_returns Start_call SCHEDULER_ERROR_INVALID_STATE s"
      using run idle False gate by (auto simp: lifecycle_call_def Let_def conclude_quiet [OF 1(1)])
    then show ?thesis by (rule refused_inv [OF inv idle]) simp
  qed
qed

lemma running_sync:
  assumes "crew_inv impl ws" "threads impl \<noteq> None"
  shows "worker_sync_initialized impl"
  using assms by (simp add: crew_inv_def staffed_def)

lemma shutdown_call_inv:
  assumes inv: "net_inv w0 s" and run: "lifecycle_call Shutdown_call s = Some s'"
  shows "net_inv w0 (s'\<lparr>ticks := Suc (ticks s)\<rparr>)"
  using inv
proof (rule net_invE, goal_cases)
  case 1
  have idle: "ctl s = CIdle" using run by (simp add: lifecycle_call_def split: if_splits)
  note gate = run_shutdown_gate [OF plumbingD(5) [OF 1(1)]]
  show ?case
  proof (cases "sched_state (core s) = SCHEDULER_STATE_RUNNING \<or> sched_state (core s) = SCHEDULER_STATE_SHUTTING_DOWN")
    case True
    have "closing (core s) = (core s)\<lparr>sched_state := SCHEDULER_STATE_SHUTTING_DOWN\<rparr>" using True by (auto simp: closing_def)
    then have s': "s' = s\<lparr>core := (core s)\<lparr>sched_state := SCHEDULER_STATE_SHUTTING_DOWN\<rparr>, ctl := CShutQueue, log := log s\<rparr>"
      using run idle True gate by (auto simp: lifecycle_call_def Let_def conclude_quiet [OF 1(1)])
    show ?thesis
      by (rule control_state_inv [OF inv _ _ s'])
        (use 1(7) True running_sync [OF 1(3)] in \<open>auto simp: control_inv_def state_inv_def\<close>)
  next
    case False
    have "closing (core s) = core s" using False by (simp add: closing_def)
    then obtain r where "s' = call_returns Shutdown_call r s"
      using run idle False gate by (auto simp: lifecycle_call_def Let_def conclude_same [OF 1(1)] split: if_splits)
    then show ?thesis by (rule refused_inv [OF inv idle]) simp
  qed
qed

lemma awaited_inside:
  assumes "gate_inv impl ss es k"
  shows "awaited impl = (if inside ss = 0 then Returned SCHEDULER_OK else Asleep)"
proof -
  have "unat (active_submitter_count impl) = inside ss" using assms by (simp add: gate_inv_def)
  then have "active_submitter_count impl = 0 \<longleftrightarrow> inside ss = 0" by (metis unat_eq_zero)
  then show ?thesis by (simp add: awaited_def)
qed

text \<open>Where the wait of a join leads.\<close>

lemma join_ready:
  assumes "closed A" "sched_state impl = SCHEDULER_STATE_SHUTTING_DOWN \<or> sched_state impl = SCHEDULER_STATE_FAILED"
    "worker_sync_initialized impl" "sched_state impl = SCHEDULER_STATE_FAILED \<longrightarrow> inside ss = 0"
  shows "control_inv impl A ss ws (if inside ss = 0 then CRelease Joining 0 True SCHEDULER_OK else CJoinAsleep)"
  using assms by (auto simp: control_inv_def release_ok_def)

lemma join_call_inv:
  assumes inv: "net_inv w0 s" and run: "lifecycle_call Join_call s = Some s'"
  shows "net_inv w0 (s'\<lparr>ticks := Suc (ticks s)\<rparr>)"
  using inv
proof (rule net_invE, goal_cases)
  case 1
  have idle: "ctl s = CIdle" using run by (simp add: lifecycle_call_def split: if_splits)
  note ok = plumbingD(5) [OF 1(1)]
  obtain a where a: "mutex_impl (lifecycle_mutex (core s)) = Some a" using ok by (auto elim: gate_okE)
  note gate = run_join_gate [OF ok a] run_await_locked [OF ok a]
  show ?case
  proof (cases "join_open (core s)")
    case True
    have s': "s' = s\<lparr>ctl := if inside (subs s) = 0 then CRelease Joining 0 True SCHEDULER_OK else CJoinAsleep, log := log s\<rparr>"
      using run idle True gate
      by (auto simp: lifecycle_call_def conclude_same [OF 1(1)] awaited_inside [OF 1(2)] join_waited_def)
    show ?thesis
    proof (rule control_move_inv [OF inv _ 1(7) s'], rule join_ready)
      show "closed (queue_of s)" "worker_sync_initialized (core s)"
        "sched_state (core s) = SCHEDULER_STATE_SHUTTING_DOWN \<or> sched_state (core s) = SCHEDULER_STATE_FAILED"
        "sched_state (core s) = SCHEDULER_STATE_FAILED \<longrightarrow> inside (subs s) = 0"
        using True 1(6,7) idle by (auto simp: join_open_def control_inv_def state_inv_def)
    qed
  next
    case False
    then obtain r where "s' = call_returns Join_call r s"
      "r = SCHEDULER_OK \<longrightarrow> sched_state (core s) = SCHEDULER_STATE_STOPPED"
      using run idle gate by (auto simp: lifecycle_call_def conclude_same [OF 1(1)] split: if_splits)
    then show ?thesis using refused_inv [OF inv idle, of s' Join_call r] by simp
  qed
qed

section \<open>Waits and changes of the state\<close>

lemma open_inv:
  assumes inv: "net_inv w0 s" and c: "ctl s = COpen" and run: "control fs s = Some s'"
  shows "net_inv w0 (s'\<lparr>ticks := Suc (ticks s)\<rparr>)"
  using inv
proof (rule net_invE, goal_cases)
  case 1
  have s': "s' = s\<lparr>core := (core s)\<lparr>sched_state := SCHEDULER_STATE_RUNNING\<rparr>, ctl := CIdle, log := log s @ [(Start_call, SCHEDULER_OK)]\<rparr>"
    using run c run_start_open [OF plumbingD(5) [OF 1(1)]]
    by (auto simp: control_def Let_def conclude_quiet [OF 1(1)] call_returns_def)
  show ?case
    by (rule control_state_inv [OF inv _ _ s']) (use 1(6,7) c in \<open>auto simp: control_inv_def state_inv_def\<close>)
qed

lemma fail_inv:
  assumes inv: "net_inv w0 s" and c: "ctl s = CFail" and run: "control fs s = Some s'"
  shows "net_inv w0 (s'\<lparr>ticks := Suc (ticks s)\<rparr>)"
  using inv
proof (rule net_invE, goal_cases)
  case 1
  have s': "s' = s\<lparr>core := (core s)\<lparr>sched_state := SCHEDULER_STATE_FAILED\<rparr>, ctl := CIdle,
      log := log s @ [(Start_call, SCHEDULER_ERROR_SYSTEM)]\<rparr>"
    using run c run_set_state [OF plumbingD(5) [OF 1(1)]]
    by (auto simp: control_def Let_def conclude_quiet [OF 1(1)] call_returns_def)
  show ?case
    by (rule control_state_inv [OF inv _ _ s']) (use 1(6,7) c in \<open>auto simp: control_inv_def state_inv_def\<close>)
qed

lemma joined_inv:
  assumes inv: "net_inv w0 s" and c: "ctl s = CJoined r" and run: "control fs s = Some s'"
  shows "net_inv w0 (s'\<lparr>ticks := Suc (ticks s)\<rparr>)"
  using inv
proof (rule net_invE, goal_cases)
  case 1
  let ?thr = "threads (core s) \<noteq> None"
  have s': "s' = s\<lparr>core := (core s)\<lparr>sched_state := if ?thr then SCHEDULER_STATE_FAILED else SCHEDULER_STATE_STOPPED\<rparr>,
      ctl := CIdle, log := log s @ [(Join_call, if ?thr then SCHEDULER_ERROR_SYSTEM else r)]\<rparr>"
    using run c run_join_finish [OF plumbingD(5) [OF 1(1)]]
    by (auto simp: control_def Let_def conclude_quiet [OF 1(1)] call_returns_def)
  show ?case
    by (rule control_state_inv [OF inv _ _ s'])
      (use 1(6,7) c in \<open>cases "threads (core s)"; auto simp: control_inv_def state_inv_def\<close>)+
qed

lemma await_inv:
  assumes inv: "net_inv w0 s" and c: "ctl s = CShutAwait r" and run: "control fs s = Some s'"
  shows "net_inv w0 (s'\<lparr>ticks := Suc (ticks s)\<rparr>)"
  using inv
proof (rule net_invE, goal_cases)
  case 1
  have s': "s' = s\<lparr>ctl := if inside (subs s) = 0 then CIdle else CShutAsleep r,
      log := log s @ (if inside (subs s) = 0 then [(Shutdown_call, r)] else [])\<rparr>"
    using run c run_shutdown_await [OF plumbingD(5) [OF 1(1)], of r]
    by (auto simp: control_def conclude_same [OF 1(1)] call_returns_def awaited_inside [OF 1(2)] shutdown_waited_def
        shutdown_end_def split: if_splits)
  show ?case
    by (rule control_move_inv [OF inv _ _ s']) (use 1(6,7) c in \<open>auto simp: control_inv_def state_log\<close>)
qed

lemma start_waited_inv:
  assumes inv: "net_inv w0 s" and c: "control_notified (ctl s) = CStartNotified"
    and s': "s' = start_waited (if \<not> ok then Returned SCHEDULER_ERROR_SYSTEM
        else if ready_worker_count (core s) < worker_count (core s) then Asleep else Returned SCHEDULER_OK) s"
  shows "net_inv w0 (s'\<lparr>ticks := Suc (ticks s)\<rparr>)"
  using inv
proof (rule net_invE, goal_cases)
  case 1
  have st: "sched_state (core s) = SCHEDULER_STATE_STARTING" "threads (core s) \<noteq> None" "complete (crew s)"
    using 1(6) c by (cases "ctl s"; simp add: control_inv_def)+
  have all: "\<forall>p \<in> set (crew s). has_reported p" if "\<not> ready_worker_count (core s) < worker_count (core s)"
  proof -
    have "unat (worker_count (core s)) \<le> unat (ready_worker_count (core s))"
      using that by (simp add: word_less_nat_alt)
    then have "tallied has_reported (crew s) = length (crew s)"
      using 1(3) st(2) plumbingD(8) [OF 1(1)] tallied_le [of has_reported "crew s"] by (simp add: crew_inv_def)
    then show ?thesis by (auto simp: tallied_all in_set_conv_nth)
  qed
  show ?case
    by (rule control_move_inv [OF inv _ 1(7), where c = "ctl s'"])
      (use st all in \<open>auto simp: s' start_waited_def control_inv_def\<close>)
qed

lemma resume_inv:
  assumes inv: "net_inv w0 s" and run: "control_resume ok s = Some s'"
  shows "net_inv w0 (s'\<lparr>ticks := Suc (ticks s)\<rparr>)"
  using inv
proof (rule net_invE, goal_cases)
  case 1
  note p = plumbingD [OF 1(1)]
  let ?w = "(env s)\<lparr>fate := [ok]\<rparr>"
  have gate: "gate_ok (core s) ?w" using p(5) by simp
  have "(env s)\<lparr>fate := []\<rparr> = env s" using p(2) by simp
  then have stays: "conclude (core s) ((env s)\<lparr>fate := []\<rparr>) s = s" using conclude_same [OF 1(1)] by (simp only:)
  have ans: "next_answer ?w = ok" "tl (fate ?w) = []" by (simp_all add: next_answer_def)
  show ?case
  proof (cases "control_notified (ctl s)")
    case CStartNotified
    have st: "threads (core s) \<noteq> None" using 1(6) CStartNotified by (cases "ctl s") (simp_all add: control_inv_def)
    have "crew_ok (core s) ?w" using custody_crew [OF p(1) running_sync [OF 1(3) st]] by simp
    from run_start_await_resume [OF this] run CStartNotified stays ans show ?thesis
      by (intro start_waited_inv [OF inv CStartNotified, of s' ok]) (simp add: control_resume_def)
  next
    case (CShutNotified r)
    have st: "sched_state (core s) = SCHEDULER_STATE_SHUTTING_DOWN" "closed (queue_of s)" "r = SCHEDULER_OK"
      using 1(6) CShutNotified by (cases "ctl s"; simp add: control_inv_def)+
    let ?c = "if ok \<and> inside (subs s) \<noteq> 0 then CShutAsleep r else CIdle"
    have s': "s' = s\<lparr>ctl := ?c, log := log s' \<rparr>" "\<exists>x. log s' = log s @ x \<and> (Join_call, SCHEDULER_OK) \<notin> set x"
      using run CShutNotified run_shutdown_resume [OF gate, of r] stays ans
      by (auto simp: control_resume_def awaited_inside [OF 1(2)] shutdown_waited_def shutdown_end_def call_returns_def
          split: if_splits)
    show ?thesis
      by (rule control_move_inv [OF inv _ _ s'(1)]) (use s'(2) st 1(7) in \<open>auto simp: control_inv_def state_log\<close>)
  next
    case CJoinNotified
    have st: "sched_state (core s) = SCHEDULER_STATE_SHUTTING_DOWN" "closed (queue_of s)"
      using 1(6) CJoinNotified by (cases "ctl s"; simp add: control_inv_def)+
    have sy: "worker_sync_initialized (core s)" using st 1(7) by (simp add: state_inv_def)
    let ?c = "if \<not> ok then CIdle else if inside (subs s) = 0 then CRelease Joining 0 True SCHEDULER_OK else CJoinAsleep"
    have s': "s' = s\<lparr>ctl := ?c, log := log s' \<rparr>" "\<exists>x. log s' = log s @ x \<and> (Join_call, SCHEDULER_OK) \<notin> set x"
      using run CJoinNotified run_await_resume [OF gate] stays ans
      by (auto simp: control_resume_def awaited_inside [OF 1(2)] join_waited_def call_returns_def
          split: if_splits)
    have "control_inv (core s) (queue_of s) (subs s) (crew s) ?c"
      using join_ready [of "queue_of s" "core s" "subs s" "crew s"] st sy by (simp add: control_inv_def)
    then show ?thesis
      by (rule control_move_inv [OF inv _ _ s'(1)]) (use s'(2) 1(7) in \<open>auto simp: state_log\<close>)
  qed (use run in \<open>simp_all add: control_resume_def\<close>)
qed

lemma spurious_inv:
  assumes inv: "net_inv w0 s" and s': "s' = s\<lparr>ctl := control_notified (ctl s)\<rparr>"
  shows "net_inv w0 (s'\<lparr>ticks := Suc (ticks s)\<rparr>)"
  using inv
proof (rule net_invE, goal_cases)
  case 1
  have "control_inv (core s) (queue_of s) (subs s) (crew s) (control_notified (ctl s))"
    using 1(6) by (cases "ctl s") (simp_all add: control_inv_def)
  then show ?case by (rule control_move_inv [OF inv _ 1(7)]) (simp add: s')
qed

section \<open>The controlling thread shuts the queue\<close>

lemma shut_inv:
  assumes inv: "net_inv w0 s" and run: "net_shut (control_thread s) s = Some (r, s1)" and s': "s' = s1\<lparr>ctl := c\<rparr>"
    and life: "control_inv (core s) ((queue_of s)\<lparr>closed := True\<rparr>) (subs s) (crew s) c"
  shows "net_inv w0 (s'\<lparr>ticks := Suc (ticks s)\<rparr>)"
  using inv
proof (rule net_invE, goal_cases)
  case 1
  let ?A = "(queue_of s)\<lparr>closed := True\<rparr>"
  have e: "queue_moves s ?A [] [] s1" "plumbing w0 s1"
    using control_shut_effect [OF 1(1) run] by simp_all
  note f = moved_fields [OF e(1)]
  show ?case
  proof (rule net_inv_tick)
    show "plumbing w0 s'" using e(2) by (simp add: s' plumbing_def)
    show "gate_inv (core s') (subs s') (enqd s') (Suc (ticks s))"
      using gate_more [OF 1(2), of "Suc (ticks s)"] by (simp add: s' f gate_frame [OF f(10)])
    show "crew_inv (core s') (crew s')" using 1(3) crew_frame(1) [OF f(11)] by (simp add: s' f)
    show "account_inv (core s') (crew s') (deqd s') (called s') (Suc (ticks s))"
      using account_more [OF 1(4), of "Suc (ticks s)"] account_frame [OF f(12)] by (simp add: s' f)
    show "drain_inv (core s') (queue_of s') (crew s')"
      using drain_frame [OF f(13) _ _ 1(5), of ?A] by (simp add: s' f dry_def)
    show "control_inv (core s') (queue_of s') (subs s') (crew s') (ctl s')"
      using life by (simp add: s' f life_frame [OF f(11,13,14)])
    have "state_inv (core s) ?A (subs s) (crew s) (enqd s) (log s)"
      using 1(7) by (auto simp: state_inv_def split: SchedulerState.splits)
    then show "state_inv (core s') (queue_of s') (subs s') (crew s') (enqd s') (log s')"
      by (simp add: s' f life_frame [OF f(11,13,14)])
  qed
qed

lemma shut_queue_inv:
  assumes inv: "net_inv w0 s" and c: "ctl s = CShutQueue" and run: "control fs s = Some s'"
  shows "net_inv w0 (s'\<lparr>ticks := Suc (ticks s)\<rparr>)"
  using inv
proof (rule net_invE, goal_cases)
  case 1
  obtain r s1 where shut: "net_shut (control_thread s) s = Some (r, s1)" "s' = s1\<lparr>ctl := CShutAwait (map_queue_shutdown_result r)\<rparr>"
    using run c by (auto simp: control_def)
  have "r = CONCURRENT_TASK_QUEUE_OK" using control_shut_effect [OF 1(1) shut(1)] by simp
  then show ?case
    by (intro shut_inv [OF inv shut]) (use 1(6) c in \<open>simp add: control_inv_def map_queue_shutdown_result_def\<close>)
qed

lemma abort_inv:
  assumes inv: "net_inv w0 s" and c: "ctl s = CAbort" and run: "control fs s = Some s'"
  shows "net_inv w0 (s'\<lparr>ticks := Suc (ticks s)\<rparr>)"
  using inv
proof (rule net_invE, goal_cases)
  case 1
  obtain r s1 where shut: "net_shut (control_thread s) s = Some (r, s1)" "s' = s1\<lparr>ctl := CRelease Aborting 0 True SCHEDULER_OK\<rparr>"
    using run c by (auto simp: control_def)
  have st: "sched_state (core s) = SCHEDULER_STATE_STARTING" "threads (core s) \<noteq> None" using 1(6) c by (simp_all add: control_inv_def)
  show ?case
    by (rule shut_inv [OF inv shut])
      (use st 1(7) running_sync [OF 1(3) st(2)] in \<open>simp add: control_inv_def state_inv_def release_ok_def\<close>)
qed

section \<open>The resources of start\<close>

lemma nothing_called:
  assumes "plumbing w0 s" "account_inv (core s) (crew s) (deqd s) (called s) k" "enqd s = []"
  shows "deqd s = []" "called s = []" "elems (queue_of s) = []"
proof -
  have "deqd s @ elems (queue_of s) = enqd s" using plumbingD(3) [OF assms(1)] by (simp add: sys_inv_def ainv_def sys_view_def)
  then show "deqd s = []" "elems (queue_of s) = []" using assms(3) by simp_all
  then show "called s = []" using assms(2) by (simp add: account_inv_def)
qed

lemma armed_crew:
  assumes "crew_inv impl ws" "armed_impl impl impl'" "threads impl = None" "unborn ws" "length ws = unat (worker_count impl)"
  shows "crew_inv impl' ws"
proof -
  let ?n = "unat (worker_count impl)"
  obtain a b m c p where i: "impl' = impl\<lparr>fault_plan := p, worker_mutex := m, worker_condition := c,
       threads := Some (a, replicate ?n zero_thread), worker_contexts := Some (b, replicate ?n zero_context),
       worker_sync_initialized := True\<rparr>" using assms(2) by (auto simp: armed_impl_def)
  have ab: "ws ! j = WAbsent" if "j < length ws" for j using that assms(4) by simp
  have t: "tallied busy ws = 0" "tallied has_reported ws = 0" "tallied (\<lambda>p. p \<noteq> WAbsent) ws = 0"
    by (simp_all add: tallied_zero ab has_reported_def)
  have "\<not> present impl' j" for j by (auto simp: i present_iff thread_at_def zero_thread_def)
  moreover have "context_ok impl' (ws ! j) j" if "j < length ws" for j
    using that assms(5) ab [OF that] by (simp add: i context_ok_def context_at_def)
  moreover have "staffed impl'" by (simp add: i staffed_def)
  ultimately show ?thesis using assms(1,3) t ab unfolding crew_inv_def by (simp add: employed_def) (simp add: i)
qed

lemma armed_account:
  assumes "account_inv impl ws ds [] k" "armed_impl impl impl'" "threads impl = None" "unborn ws"
  shows "account_inv impl' ws ds [] k"
proof -
  have ab: "ws ! j = WAbsent" if "j < length ws" for j using that assms(4) by simp
  have zero: "c = zero_context" if "context_at impl' j = Some c" for j c
    using that assms(2) by (auto simp: armed_impl_def context_at_def split: if_splits)
  have "tracks j (ws ! j) [] c" if "j < length ws" "context_at impl' j = Some c" for j c
    using ab [OF that(1)] zero [OF that(2)] by (simp add: tracks_def zero_context_def tallied_def)
  with assms(1-3) show ?thesis by (auto simp: account_inv_def armed_impl_def totals_def)
qed

lemma resources_inv:
  assumes inv: "net_inv w0 s" and c: "ctl s = CResources" and run: "control fs s = Some s'"
  shows "net_inv w0 (s'\<lparr>ticks := Suc (ticks s)\<rparr>)"
  using inv
proof (rule net_invE, goal_cases)
  case 1
  note p = plumbingD [OF 1(1)]
  have st: "sched_state (core s) = SCHEDULER_STATE_STARTING" "threads (core s) = None" "\<not> worker_sync_initialized (core s)"
    "unborn (crew s)" "worker_startup_failure_count (core s) = 0" using 1(6) c by (simp_all add: control_inv_def)
  have es: "enqd s = []" "inside (subs s) = 0" "(Join_call, SCHEDULER_OK) \<notin> set (log s)"
    using 1(7) st(1) by (auto simp: state_inv_def)
  note none = nothing_called [OF 1(1,4) es(1)]
  have ctx: "worker_contexts (core s) = None" using 1(3) st(2) by (simp add: crew_inv_def)
  have cus: "custody w0 (core s) ((env s)\<lparr>fate := fs\<rparr>)" using p(1) by simp
  obtain r impl w where o: "run_state (start_resources (core s)) ((env s)\<lparr>fate := fs\<rparr>) = ((r, impl), w)"
    by (metis prod_cases3 surj_pair)
  have "wp (start_resources (core s)) (\<lambda>(r, impl) w. custody w0 impl w
      \<and> (if r = SCHEDULER_OK then armed_impl (core s) impl else rolled_back (core s) impl)) ((env s)\<lparr>fate := fs\<rparr>)"
    by (rule wp_start_resources [OF cus st(2) ctx st(3)]) simp_all
  from wp_run [OF this o] have i: "custody w0 impl w"
    "if r = SCHEDULER_OK then armed_impl (core s) impl else rolled_back (core s) impl" by simp_all
  have acc: "account_inv (core s) (crew s) (deqd s) (called s) (Suc (ticks s))" by (rule account_more [OF 1(4)]) simp
  show ?case
  proof (cases "r = SCHEDULER_OK")
    case True
    with i have a: "armed_impl (core s) impl" by simp
    then have f: "task_queue impl = task_queue (core s)" "worker_count impl = worker_count (core s)"
      "gate_fields impl = gate_fields (core s)" "drain_fields impl = drain_fields (core s)"
      "sched_state impl = sched_state (core s)" "threads impl \<noteq> None" "started_worker_count impl = started_worker_count (core s)"
      "worker_startup_failure_count impl = worker_startup_failure_count (core s)"
      by (auto simp: armed_impl_def gate_fields_def drain_fields_def)
    show ?thesis
    proof (rule control_step_inv [OF inv i(1) f(1-3) p(4) refl armed_crew [OF 1(3) a st(2,4) p(8)]])
      show "account_inv impl (crew s) (deqd s) (called s) (Suc (ticks s))"
        using armed_account [OF _ a st(2,4)] acc by (simp add: none)
      show "drain_inv impl (queue_of s) (crew s)" by (rule drain_frame [OF f(4) _ _ 1(5)])
      show "control_inv impl (queue_of s) (subs s) (crew s) (CCreate 0)"
        using st f 1(3) by (simp add: control_inv_def crew_inv_def)
      show "state_inv impl (queue_of s) (subs s) (crew s) (enqd s) (log s)"
        using st f es by (simp add: state_inv_def)
      show "s' = s\<lparr>core := impl, env := w\<lparr>wakes := [], fate := []\<rparr>, crew := crew s, ctl := CCreate 0, log := log s\<rparr>"
        using run c o True by (auto simp: control_def Let_def conclude_def)
    qed
  next
    case False
    with i have a: "rolled_back (core s) impl" by simp
    then have f: "task_queue impl = task_queue (core s)" "worker_count impl = worker_count (core s)"
      "gate_fields impl = gate_fields (core s)" "drain_fields impl = drain_fields (core s)"
      "crew_fields impl = crew_fields (core s)" "account_fields impl = account_fields (core s)"
      "sched_state impl = SCHEDULER_STATE_INITIALIZED" "threads impl = None" "\<not> worker_sync_initialized impl"
      "worker_startup_failure_count impl = 0"
      using st ctx by (auto simp: rolled_back_def gate_fields_def drain_fields_def crew_fields_def account_fields_def)
    show ?thesis
    proof (rule control_step_inv [OF inv i(1) f(1-3) p(4) refl])
      show "crew_inv impl (crew s)" using crew_frame(1) [OF f(5)] 1(3) by simp
      show "account_inv impl (crew s) (deqd s) (called s) (Suc (ticks s))" using account_frame [OF f(6)] acc by simp
      show "drain_inv impl (queue_of s) (crew s)" by (rule drain_frame [OF f(4) _ _ 1(5)])
      show "control_inv impl (queue_of s) (subs s) (crew s) CIdle" using f by (simp add: control_inv_def)
      show "state_inv impl (queue_of s) (subs s) (crew s) (enqd s) (log s @ [(Start_call, r)])"
        using st f es by (simp add: state_inv_def)
      show "s' = s\<lparr>core := impl, env := w\<lparr>wakes := [], fate := []\<rparr>, crew := crew s, ctl := CIdle,
          log := log s @ [(Start_call, r)]\<rparr>"
        using run c o False by (simp add: control_def Let_def conclude_def call_returns_def)
    qed
  qed
qed

section \<open>Creating a worker\<close>

lemma enlisted_context:
  assumes "context_at impl i = Some c"
  shows "context_at (enlisted i p impl) j = (if j = i then Some (c\<lparr>ctx_scheduler := Some (sched_block impl),
     worker_index := of_nat i\<rparr>) else context_at impl j)"
  using assms context_put [OF assms, of "c\<lparr>ctx_scheduler := Some (sched_block impl), worker_index := of_nat i\<rparr>" j]
  by (simp add: enlisted_def context_at_def)

lemma enlisted_frames:
  "gate_fields (enlisted i p impl) = gate_fields impl" "drain_fields (enlisted i p impl) = drain_fields impl"
  "task_queue (enlisted i p impl) = task_queue impl" "sched_state (enlisted i p impl) = sched_state impl"
  "worker_count (enlisted i p impl) = worker_count impl" "threads (enlisted i p impl) = threads impl"
  "started_worker_count (enlisted i p impl) = started_worker_count impl"
  "ready_worker_count (enlisted i p impl) = ready_worker_count impl"
  "created_worker_count (enlisted i p impl) = created_worker_count impl"
  "active_worker_count (enlisted i p impl) = active_worker_count impl"
  "worker_sync_initialized (enlisted i p impl) = worker_sync_initialized impl"
  "staffed (enlisted i p impl) = staffed impl" "totals (enlisted i p impl) = totals impl"
  "worker_startup_failure_count (enlisted i p impl) = worker_startup_failure_count impl"
  "worker_runtime_failure_count (enlisted i p impl) = worker_runtime_failure_count impl"
  "join_failure_count (enlisted i p impl) = join_failure_count impl"
  "worker_accounting_overflow (enlisted i p impl) = worker_accounting_overflow impl"
  "present (enlisted i p impl) = present impl" "result_of (enlisted i p impl) = result_of impl"
  "worker_contexts (enlisted i p impl) = None \<longleftrightarrow> worker_contexts impl = None"
  by (auto simp: enlisted_def put_context_def gate_fields_def drain_fields_def staffed_def fun_eq_iff totals_def
      present_iff result_of_def thread_at_def)

lemma tracks_context [simp]: "tracks j p cs (c\<lparr>ctx_scheduler := a, worker_index := n\<rparr>) = tracks j p cs c"
  by (simp add: tracks_def)

lemma enlisted_account:
  assumes "account_inv impl ws ds cs k" "threads impl \<noteq> None" "context_at impl i = Some c" "i < length ws"
  shows "account_inv (enlisted i p impl) ws ds cs k"
  using assms enlisted_context [OF assms(3), of p] unfolding account_inv_def enlisted_frames by auto

lemma startup_failure_frames:
  "gate_fields (count_startup_failure impl) = gate_fields impl" "drain_fields (count_startup_failure impl) = drain_fields impl"
  "task_queue (count_startup_failure impl) = task_queue impl" "sched_state (count_startup_failure impl) = sched_state impl"
  "worker_count (count_startup_failure impl) = worker_count impl" "threads (count_startup_failure impl) = threads impl"
  "crew_inv (count_startup_failure impl) ws = crew_inv impl ws"
proof -
  show "crew_inv (count_startup_failure impl) ws = crew_inv impl ws"
    by (rule crew_same(1)) (simp_all add: count_startup_failure_def split: prod.splits)
qed (simp_all add: count_startup_failure_def gate_fields_def drain_fields_def split: prod.splits)

lemma startup_failure_account:
  assumes "account_inv impl ws ds cs k" "worker_startup_failure_count impl = 0"
  shows "account_inv (count_startup_failure impl) ws ds cs (Suc k)"
  using assms by (auto simp: account_inv_def count_startup_failure_def totals_def context_at_def bump_eq)

text \<open>The place that the next worker takes.\<close>

lemma vacancy:
  assumes inv: "crew_inv impl ws" and st: "threads impl \<noteq> None" "i = unat (started_worker_count impl)" "i < length ws"
    "length ws = unat (worker_count impl)"
  obtains c a ts where "ws ! i = WAbsent" "context_at impl i = Some c" "thread_at impl i = Some zero_thread"
    "threads impl = Some (a, ts)" "i < length ts" "staffed impl"
proof -
  have staffed: "staffed impl" using inv st(1) by (simp add: crew_inv_def)
  obtain a ts b cs where ts: "threads impl = Some (a, ts)" "worker_contexts impl = Some (b, cs)" "length ts = length ws" "length cs = length ws"
    using staffed st(4) by (auto simp: staffed_def)
  have ab: "ws ! i = WAbsent" using inv st by (simp add: crew_inv_def)
  then have "\<not> present impl i" using inv st(3) by (simp add: crew_inv_def employed_def)
  then have "thread_impl (ts ! i) = None" using ts st(3) by (simp add: present_iff thread_at_def)
  then have "thread_at impl i = Some zero_thread" using ts st(3) by (cases "ts ! i") (simp add: thread_at_def zero_thread_def)
  then show ?thesis using that ab ts st(3) staffed by (auto simp: context_at_def)
qed

lemma enlisted_crew:
  assumes inv: "crew_inv impl ws" and "ws ! i = WAbsent" "context_at impl i = Some c" "threads impl \<noteq> None"
  shows "crew_inv (enlisted i p impl) ws"
proof -
  have "context_ok (enlisted i p impl) (ws ! j) j" if "context_ok impl (ws ! j) j" for j
    using that assms(2,3) enlisted_context [OF assms(3), of p j]
    by (simp add: context_ok_def enlisted_frames split: option.splits)
  with inv assms(4) show ?thesis unfolding crew_inv_def enlisted_frames by (simp, auto)
qed

lemma hired_fields:
  assumes "threads impl = Some (a, ts)" "i < length ts"
  shows "gate_fields (hired i p t impl) = gate_fields impl" "drain_fields (hired i p t impl) = drain_fields impl"
    "task_queue (hired i p t impl) = task_queue impl" "sched_state (hired i p t impl) = sched_state impl"
    "worker_count (hired i p t impl) = worker_count impl" "(threads (hired i p t impl) = None) = False"
    "context_at (hired i p t impl) = context_at (enlisted i p impl)"
    "totals (hired i p t impl) = totals impl" "staffed (hired i p t impl) = staffed impl"
    "present (hired i p t impl) j \<longleftrightarrow> j = i \<or> present impl j" "j \<noteq> i \<Longrightarrow> result_of (hired i p t impl) j = result_of impl j"
    "started_worker_count (hired i p t impl) = started_worker_count impl + 1"
    "created_worker_count (hired i p t impl) = created_worker_count impl + 1"
    "ready_worker_count (hired i p t impl) = ready_worker_count impl"
    "active_worker_count (hired i p t impl) = active_worker_count impl"
    "worker_startup_failure_count (hired i p t impl) = worker_startup_failure_count impl"
    "worker_runtime_failure_count (hired i p t impl) = worker_runtime_failure_count impl"
    "join_failure_count (hired i p t impl) = join_failure_count impl"
    "worker_accounting_overflow (hired i p t impl) = worker_accounting_overflow impl"
  using assms by (auto simp: hired_def Let_def put_thread_def gate_fields_def drain_fields_def enlisted_def put_context_def fun_eq_iff
      totals_def context_at_def staffed_def present_iff result_of_def thread_at_def nth_list_update)

lemma hired_crew:
  assumes inv: "crew_inv impl ws" and st: "threads impl \<noteq> None" "i = unat (started_worker_count impl)" "i < length ws"
    "length ws = unat (worker_count impl)"
  shows "crew_inv (hired i p t impl) (ws[i := WStarting])"
proof -
  obtain c a ts where v: "ws ! i = WAbsent" "context_at impl i = Some c" "thread_at impl i = Some zero_thread"
    "threads impl = Some (a, ts)" "i < length ts" "staffed impl" using vacancy [OF assms] .
  note f = hired_fields [OF v(4,5), where p = p and t = t]
  let ?ws = "ws[i := WStarting]"
  have ta: "tallied busy ?ws = tallied busy ws" "tallied has_reported ?ws = tallied has_reported ws"
    "tallied (\<lambda>p. p \<noteq> WAbsent) ?ws = Suc (tallied (\<lambda>p. p \<noteq> WAbsent) ws)"
    using tallied_update [OF st(3), of "\<lambda>p. p \<noteq> WAbsent" WStarting] st(3) v(1) by (simp_all add: tallied_same has_reported_def)
  have small: "tallied (\<lambda>p. p \<noteq> WAbsent) ws < 2 ^ 64 - 1"
    using ta(3) tallied_le [of "\<lambda>p. p \<noteq> WAbsent" ?ws] st(4) unat_le_max [of "worker_count impl"] by simp
  have up: "unat (started_worker_count impl + 1) = Suc (unat (started_worker_count impl))"
    "unat (created_worker_count impl + 1) = Suc (tallied (\<lambda>p. p \<noteq> WAbsent) ws)"
    using inv st(1) small unat_more [of "started_worker_count impl"] unat_more [of "created_worker_count impl"]
    by (simp_all add: crew_inv_def)
  have ix: "of_nat i < worker_count impl" using st(3,4) unat_le_max [of "worker_count impl"]
    by (simp add: word_less_nat_alt unat_of_nat take_bit_nat_eq_self)
  have ctx: "context_ok (hired i p t impl) (?ws ! j) j" if "j < length ws" for j
  proof -
    have "context_ok impl (ws ! j) j" using inv st(1) that by (simp add: crew_inv_def)
    then show ?thesis using that ix st(3)
      by (cases "j = i") (auto simp: context_ok_def f enlisted_context [OF v(2)] split: option.splits)
  qed
  have cn: "(?ws ! j = WAbsent) \<longleftrightarrow> Suc i \<le> j" if "j < length ws" for j
    using inv st that by (cases "j = i") (auto simp: crew_inv_def)
  have pr: "present (hired i p t impl) j \<longleftrightarrow> employed (?ws ! j)" if "j < length ws" for j
    using inv that v(1) by (cases "j = i") (auto simp: f crew_inv_def employed_def)
  have fin: "result_of (hired i p t impl) j = Some r" if "j < length ws" "?ws ! j = WFinished r" for j r
    using inv that st(3) f(11) by (cases "j = i") (auto simp: crew_inv_def)
  have n: "tallied (\<lambda>p. p \<noteq> WAbsent) ws = i" using inv st by (simp add: crew_inv_def)
  have crew: "unat (active_worker_count impl) = tallied busy ws" "unat (ready_worker_count impl) = tallied has_reported ws"
    using inv st(1) by (simp_all add: crew_inv_def)
  show ?thesis unfolding crew_inv_def f if_False length_list_update
    using v(6) ta up(1) [folded st(2)] up(2) crew ctx cn pr [unfolded f(10)] fin n by simp
qed

lemma hired_account:
  assumes inv: "account_inv impl ws ds cs k" and st: "threads impl = Some (a, ts)" "i < length ts" "i < length ws" "ws ! i = WAbsent"
    "context_at impl i = Some c"
  shows "account_inv (hired i p t impl) (ws[i := WStarting]) ds cs k"
proof -
  note f = hired_fields [OF st(1,2), where p = p and t = t]
  have "account_inv (enlisted i p impl) ws ds cs k" by (rule enlisted_account [OF inv _ st(5,3)]) (simp add: st(1))
  from account_worker [OF this st(3), of WStarting "[]" k] st(4)
  have "account_inv (enlisted i p impl) (ws[i := WStarting]) ds cs k" by simp
  then show ?thesis using st(1) unfolding account_inv_def f enlisted_frames by simp
qed

lemma create_inv:
  assumes inv: "net_inv w0 s" and k: "ticks s < 2 ^ 64 - 1" and c: "ctl s = CCreate i" and run: "control fs s = Some s'"
  shows "net_inv w0 (s'\<lparr>ticks := Suc (ticks s)\<rparr>)"
  using inv
proof (rule net_invE, goal_cases)
  case 1
  note p = plumbingD [OF 1(1)]
  have st: "sched_state (core s) = SCHEDULER_STATE_STARTING" "threads (core s) \<noteq> None"
    "i = unat (started_worker_count (core s))" "i \<le> length (crew s)" "worker_startup_failure_count (core s) = 0" using 1(6) c by (simp_all add: control_inv_def)
  have es: "enqd s = []" "inside (subs s) = 0" "(Join_call, SCHEDULER_OK) \<notin> set (log s)"
    using 1(7) st(1) by (auto simp: state_inv_def)
  show ?case
  proof (cases "i < length (crew s)")
    case False
    then have "complete (crew s)" using 1(3) st by (auto simp: crew_inv_def in_set_conv_nth)
    moreover have "crew_ok (core s) (env s)" using custody_crew [OF p(1) running_sync [OF 1(3) st(2)]] .
    ultimately have "net_inv w0 ((s\<lparr>ctl := CStartNotified\<rparr>)\<lparr>ticks := Suc (ticks s)\<rparr>)"
      and run': "s' = start_waited (if ready_worker_count (core s) < worker_count (core s) then Asleep else Returned SCHEDULER_OK) s"
      using control_move_inv [OF inv _ 1(7), of CStartNotified "s\<lparr>ctl := CStartNotified\<rparr>"] st(1,2)
        run_start_ready [of "core s" "env s"] run c False p(8) conclude_same [OF 1(1)]
      by (simp_all add: control_inv_def control_def control_create_def)
    have "net_inv w0 (s\<lparr>ctl := CStartNotified\<rparr>)"
      using 1 st \<open>complete (crew s)\<close> by (simp add: net_inv_def control_inv_def plumbing_def)
    from start_waited_inv [OF this, of s' True] run' show ?thesis by (simp add: start_waited_def)
  next
    case True
    obtain d a ts where v: "crew s ! i = WAbsent" "context_at (core s) i = Some d" "thread_at (core s) i = Some zero_thread"
      "threads (core s) = Some (a, ts)" "i < length ts" "staffed (core s)"
      using vacancy [OF 1(3) st(2,3) True p(8)] .
    let ?w = "(env s)\<lparr>fate := fs\<rparr>"
    have cus: "custody w0 (core s) ?w" using p(1) by simp
    obtain r impl w where o: "run_state (start_worker i (core s)) ?w = ((r, impl), w)" by (metis prod_cases3 surj_pair)
    have "wp (start_worker i (core s)) (\<lambda>(r, impl) w. custody w0 impl w
        \<and> (if r = SCHEDULER_OK then \<exists>q t. impl = hired i q t (core s)
           else \<exists>q. impl = count_startup_failure (enlisted i q (core s)))) ?w"
      by (rule wp_start_worker [OF cus v(6,3)]) auto
    from wp_run [OF this o] have i: "custody w0 impl w" "if r = SCHEDULER_OK then \<exists>q t. impl = hired i q t (core s)
           else \<exists>q. impl = count_startup_failure (enlisted i q (core s))" by simp_all
    show ?thesis
    proof (cases "r = SCHEDULER_OK")
      case True
      with i(2) obtain q t where h: "impl = hired i q t (core s)" by auto
      note f = hired_fields [OF v(4,5), where p = q and t = t, folded h]
      let ?ws = "(crew s)[i := WStarting]"
      have start: "unat (started_worker_count (core s) + 1) = Suc i"
        using st(3) \<open>i < length (crew s)\<close> p(8) unat_le_max [of "worker_count (core s)"] unat_more [of "started_worker_count (core s)"]
        by simp
      show ?thesis
      proof (rule control_step_inv [OF inv i(1) f(3,5,1)])
        show "places (qpcs s) (subs s) ?ws"
          by (rule places_crew [OF p(4) \<open>i < length (crew s)\<close>]) (use v(1) in \<open>simp add: worker_place_def\<close>)
        show "crew_inv impl ?ws" unfolding h by (rule hired_crew [OF 1(3) st(2,3) \<open>i < length (crew s)\<close> p(8)])
        show "account_inv impl ?ws (deqd s) (called s) (Suc (ticks s))"
          unfolding h by (rule account_more [OF hired_account [OF 1(4) v(4,5) \<open>i < length (crew s)\<close> v(1,2)]]) simp
        have "drain_inv (core s) (queue_of s) ?ws"
          by (rule drain_worker [OF 1(5) \<open>i < length (crew s)\<close>]) (use v(1) in simp_all)
        then show "drain_inv impl (queue_of s) ?ws" using drain_frame [OF f(2)] by blast
        show "control_inv impl (queue_of s) (subs s) ?ws (CCreate (Suc i))"
          using st \<open>i < length (crew s)\<close> start f(6) by (simp add: control_inv_def f(4,12,16))
        show "state_inv impl (queue_of s) (subs s) ?ws (enqd s) (log s)" using st es by (simp add: state_inv_def f(4))
        show "s' = s\<lparr>core := impl, env := w\<lparr>wakes := [], fate := []\<rparr>, crew := ?ws, ctl := CCreate (Suc i), log := log s\<rparr>"
          using run c o True \<open>i < length (crew s)\<close> p(8) by (auto simp: control_def control_create_def Let_def conclude_def)
      qed simp
    next
      case False
      with i(2) obtain q where h: "impl = count_startup_failure (enlisted i q (core s))" by auto
      note f = startup_failure_frames [of "enlisted i q (core s)", folded h, unfolded enlisted_frames]
      show ?thesis
      proof (rule control_step_inv [OF inv i(1) f(3,5,1) p(4) refl])
        show "crew_inv impl (crew s)"
          using enlisted_crew [OF 1(3) v(1,2) st(2)] f(7) by simp
        show "account_inv impl (crew s) (deqd s) (called s) (Suc (ticks s))" unfolding h
          by (rule startup_failure_account [OF enlisted_account [OF 1(4) st(2) v(2) \<open>i < length (crew s)\<close>]]) (simp add: st enlisted_frames)
        show "drain_inv impl (queue_of s) (crew s)" using drain_frame [OF f(2) _ _ 1(5)] by simp
        show "control_inv impl (queue_of s) (subs s) (crew s) CAbort" using st by (simp add: control_inv_def f)
        show "state_inv impl (queue_of s) (subs s) (crew s) (enqd s) (log s)" using st es by (simp add: state_inv_def f)
        show "s' = s\<lparr>core := impl, env := w\<lparr>wakes := [], fate := []\<rparr>, crew := crew s, ctl := CAbort, log := log s\<rparr>"
          using run c o False \<open>i < length (crew s)\<close> p(8) by (auto simp: control_def control_create_def Let_def conclude_def)
      qed
    qed
  qed
qed

end
