(* ===== verification/Scheduler_Joining.thy ===== *)
theory Scheduler_Joining
  imports Scheduler_Control
begin

text \<open>
  Joining the workers keeps the invariant of the whole scheduler, with the sums of the workers'
  counters that take over when the contexts go; and so does every step of the system.
\<close>

section \<open>Adding up the counters of the workers\<close>

lemma add_room:
  assumes "unat x + unat y < 2 ^ 64"
  shows "add_saturating x y v = (x + y, v)" "unat (x + y) = unat x + unat y"
proof -
  obtain z u where z: "add_saturating x y v = (z, u)" by fastforce
  have r: "unat z = unat x + unat y" "u = v" using add_saturating_unat [OF z] assms by auto
  show sum: "unat (x + y) = unat x + unat y" using assms by (simp add: unat_word_ariths)
  with r(1) have "z = x + y" by (metis unat_eq_iff)
  with z r(2) show "add_saturating x y v = (x + y, v)" by simp
qed

definition tally_of :: "SchedulerImplementation \<Rightarrow> nat \<times> nat \<times> nat \<times> nat" where
  "tally_of impl = (unat (dequeued_count impl), unat (callback_started_count impl),
     unat (successful_callback_count impl), unat (failed_callback_count impl))"

definition context_tally :: "WorkerContext \<Rightarrow> nat \<times> nat \<times> nat \<times> nat" where
  "context_tally c = (unat (ctx_dequeued_count c), unat (ctx_callback_started_count c),
     unat (ctx_callback_succeeded_count c), unat (ctx_callback_failed_count c))"

text \<open>One more context: the sums are exact while they fit.\<close>

lemma collect_exact:
  assumes "tally_of impl = (a, b, x, y)" "context_tally c = (a', b', x', y')" "\<not> accounting_overflow c"
    "\<not> worker_accounting_overflow impl" "a + a' < 2 ^ 64" "b + b' < 2 ^ 64" "x + x' < 2 ^ 64" "y + y' < 2 ^ 64"
  shows "tally_of (collect c impl) = (a + a', b + b', x + x', y + y')" "\<not> worker_accounting_overflow (collect c impl)"
proof -
  have r: "unat (dequeued_count impl) + unat (ctx_dequeued_count c) < 2 ^ 64"
    "unat (callback_started_count impl) + unat (ctx_callback_started_count c) < 2 ^ 64"
    "unat (successful_callback_count impl) + unat (ctx_callback_succeeded_count c) < 2 ^ 64"
    "unat (failed_callback_count impl) + unat (ctx_callback_failed_count c) < 2 ^ 64"
    using assms by (simp_all add: tally_of_def context_tally_def)
  note sums = add_room [OF r(1)] add_room [OF r(2)] add_room [OF r(3)] add_room [OF r(4)]
  show "tally_of (collect c impl) = (a + a', b + b', x + x', y + y')" "\<not> worker_accounting_overflow (collect c impl)"
    using assms sums by (simp_all add: collect_def tally_of_def context_tally_def)
qed

definition quiet_context :: "(nat \<times> addr \<times> int) list \<Rightarrow> nat \<Rightarrow> WorkerContext \<Rightarrow> bool" where
  "quiet_context cs j c \<longleftrightarrow> \<not> accounting_overflow c \<and> (let h = filter (\<lambda>x. fst x = j) cs in
     context_tally c = (length h, length h, tallied (\<lambda>x. snd (snd x) = 0) h, tallied (\<lambda>x. snd (snd x) \<noteq> 0) h))"

lemma tracks_quiet: "tracks j p cs c \<Longrightarrow> neutral p \<Longrightarrow> quiet_context cs j c"
  by (cases p) (auto simp: tracks_def quiet_context_def context_tally_def Let_def)

definition below :: "nat \<Rightarrow> (nat \<times> addr \<times> int) list \<Rightarrow> (nat \<times> addr \<times> int) list" where
  "below n cs = filter (\<lambda>x. fst x < n) cs"

lemma below_Suc: "tallied P (below (Suc n) cs) = tallied P (below n cs) + tallied P (filter (\<lambda>x. fst x = n) cs)"
  by (induction cs) (auto simp: below_def tallied_def less_Suc_eq)

lemma below_length: "length (below (Suc n) cs) = length (below n cs) + length (filter (\<lambda>x. fst x = n) cs)"
  using below_Suc [of "\<lambda>_. True" n cs] by (simp add: tallied_def)

lemma fold_collect:
  assumes "\<And>j. j < n \<Longrightarrow> quiet_context cs j (xs ! j)" "n \<le> length xs" "length cs < 2 ^ 64"
    "tally_of impl = (0, 0, 0, 0)" "\<not> worker_accounting_overflow impl"
  shows "tally_of (fold collect (take n xs) impl) = (length (below n cs), length (below n cs),
      tallied (\<lambda>x. snd (snd x) = 0) (below n cs), tallied (\<lambda>x. snd (snd x) \<noteq> 0) (below n cs))
    \<and> \<not> worker_accounting_overflow (fold collect (take n xs) impl)"
  using assms(1,2)
proof (induction n)
  case 0
  then show ?case using assms(4,5) by (simp add: below_def tallied_def)
next
  case (Suc n)
  let ?h = "filter (\<lambda>x. fst x = n) cs"
  have take: "take (Suc n) xs = take n xs @ [xs ! n]" using Suc.prems(2) by (simp add: take_Suc_conv_app_nth)
  have q: "\<not> accounting_overflow (xs ! n)" "context_tally (xs ! n) = (length ?h, length ?h,
      tallied (\<lambda>x. snd (snd x) = 0) ?h, tallied (\<lambda>x. snd (snd x) \<noteq> 0) ?h)"
    using Suc.prems(1) [of n] by (simp_all add: quiet_context_def Let_def)
  have IH: "tally_of (fold collect (take n xs) impl) = (length (below n cs), length (below n cs),
      tallied (\<lambda>x. snd (snd x) = 0) (below n cs), tallied (\<lambda>x. snd (snd x) \<noteq> 0) (below n cs))"
    "\<not> worker_accounting_overflow (fold collect (take n xs) impl)" using Suc by simp_all
  have small: "length (below (Suc n) cs) < 2 ^ 64" "tallied P (below (Suc n) cs) < 2 ^ 64" for P
    using assms(3) tallied_le [of P "below (Suc n) cs"] length_filter_le [of "\<lambda>x. fst x < Suc n" cs]
    unfolding below_def by linarith+
  from collect_exact [OF IH(1) q(2,1) IH(2)] small show ?case
    by (simp add: take below_Suc below_length)
qed

section \<open>The joining loop\<close>

lemma join_failure_frames:
  "gate_fields (count_join_failure impl) = gate_fields impl" "crew_fields (count_join_failure impl) = crew_fields impl"
  "task_queue (count_join_failure impl) = task_queue impl" "sched_state (count_join_failure impl) = sched_state impl"
  "worker_count (count_join_failure impl) = worker_count impl" "threads (count_join_failure impl) = threads impl"
  "worker_infrastructure_failure (count_join_failure impl) = worker_infrastructure_failure impl"
  "joined_worker_count (count_join_failure impl) = joined_worker_count impl"
  "worker_sync_initialized (count_join_failure impl) = worker_sync_initialized impl"
  "worker_startup_failure_count (count_join_failure impl) = worker_startup_failure_count impl"
  by (simp_all add: count_join_failure_def gate_fields_def crew_fields_def split: prod.splits)

lemma join_failure_account:
  assumes "account_inv impl ws ds cs k" "k < 2 ^ 64 - 1"
  shows "account_inv (count_join_failure impl) ws ds cs (Suc k)" "join_failure_count (count_join_failure impl) \<noteq> 0"
proof -
  have u: "unat (join_failure_count impl) \<le> k" using assms(1) by (simp add: account_inv_def)
  note up = bump_room [OF u assms(2)]
  show "account_inv (count_join_failure impl) ws ds cs (Suc k)" using assms(1) up
    by (auto simp: account_inv_def count_join_failure_def totals_def context_at_def)
  have "unat (join_failure_count (count_join_failure impl)) \<noteq> 0" using up by (simp add: count_join_failure_def)
  then show "join_failure_count (count_join_failure impl) \<noteq> 0" by auto
qed

lemma join_failure_drain:
  assumes "drain_inv impl A ws" "join_failure_count (count_join_failure impl) \<noteq> 0"
  shows "drain_inv (count_join_failure impl) A ws"
  using assms by (simp add: drain_inv_def join_failure_frames)

lemma state_release:
  assumes "sched_state impl' = sched_state impl" "threads impl = None \<longleftrightarrow> threads impl' = None"
    "worker_sync_initialized impl' = worker_sync_initialized impl"
    "worker_infrastructure_failure impl' = worker_infrastructure_failure impl"
    "worker_startup_failure_count impl' = worker_startup_failure_count impl"
  shows "state_inv impl' A ss ws es lg = state_inv impl A ss ws es lg"
  using assms by (cases "sched_state impl") (simp_all add: state_inv_def)

text \<open>What a release round needs of its state, and leaves of it.\<close>

lemma releaseE:
  assumes "control_inv impl A ss ws (CRelease d i all_joined r)"
  obtains "closed A" "inside ss = 0" "worker_sync_initialized impl" "release_ok impl i all_joined r"
    "if d = Aborting then sched_state impl = SCHEDULER_STATE_STARTING
       else sched_state impl = SCHEDULER_STATE_SHUTTING_DOWN \<or> sched_state impl = SCHEDULER_STATE_FAILED"
  using assms by (simp add: control_inv_def)

lemma dismissed_fields:
  assumes "threads impl = Some (a, ts)" "i < length ts"
  shows "gate_fields (dismissed i wr impl) = gate_fields impl"
    "task_queue (dismissed i wr impl) = task_queue impl" "sched_state (dismissed i wr impl) = sched_state impl"
    "worker_count (dismissed i wr impl) = worker_count impl" "(threads (dismissed i wr impl) = None) = False"
    "worker_contexts (dismissed i wr impl) = worker_contexts impl"
    "totals (dismissed i wr impl) = totals impl" "staffed (dismissed i wr impl) = staffed impl"
    "j \<noteq> i \<Longrightarrow> result_of (dismissed i wr impl) j = result_of impl j"
    "started_worker_count (dismissed i wr impl) = started_worker_count impl"
    "created_worker_count (dismissed i wr impl) = created_worker_count impl"
    "ready_worker_count (dismissed i wr impl) = ready_worker_count impl"
    "active_worker_count (dismissed i wr impl) = active_worker_count impl"
    "worker_startup_failure_count (dismissed i wr impl) = worker_startup_failure_count impl"
    "worker_runtime_failure_count (dismissed i wr impl) = worker_runtime_failure_count impl"
    "worker_sync_initialized (dismissed i wr impl) = worker_sync_initialized impl"
    "worker_infrastructure_failure (dismissed i wr impl) = worker_infrastructure_failure impl"
    "join_failure_count (dismissed i wr impl)
       = (if join_fault impl then join_failure_count (count_join_failure impl) else join_failure_count impl)"
    "worker_accounting_overflow (dismissed i wr impl)
       = (if join_fault impl then worker_accounting_overflow (count_join_failure impl) else worker_accounting_overflow impl)"
    "joined_worker_count (dismissed i wr impl)
       = (if join_fault impl \<or> wr \<noteq> WORKER_RESULT_OK then joined_worker_count impl else joined_worker_count impl + 1)"
  using assms by (auto simp: dismissed_def Let_def put_thread_def gate_fields_def count_join_failure_def
      totals_def staffed_def result_of_def thread_at_def nth_list_update split: prod.splits)

lemma context_same: "worker_contexts impl' = worker_contexts impl \<Longrightarrow> context_at impl' = context_at impl"
  by (simp add: fun_eq_iff context_at_def)

lemma leaver_crew:
  assumes inv: "crew_inv impl ws" and i: "i < length ws" "ws ! i = WFinished q" and ts: "threads impl = Some (a, ts)" "i < length ts"
  shows "crew_inv (dismissed i wr impl) (ws[i := WJoined])"
proof -
  note f = dismissed_fields [OF ts, where wr = wr]
  let ?ws = "ws[i := WJoined]"
  have ta: "tallied busy ?ws = tallied busy ws" "tallied has_reported ?ws = tallied has_reported ws"
    "tallied (\<lambda>p. p \<noteq> WAbsent) ?ws = tallied (\<lambda>p. p \<noteq> WAbsent) ws"
    using i by (simp_all add: tallied_same has_reported_def)
  have ctx: "context_ok (dismissed i wr impl) (?ws ! j) j = context_ok impl (ws ! j) j" for j
    using i by (cases "j = i") (auto simp: context_ok_def context_same [OF f(6)] f(4) split: option.splits)
  have pr: "(present impl j \<and> j \<noteq> i) = employed (?ws ! j)" if "j < length ws" for j
    using inv that i by (cases "j = i") (auto simp: crew_inv_def employed_def)
  have fin: "result_of (dismissed i wr impl) j = Some r" if "j < length ws" "?ws ! j = WFinished r" for j r
    using inv that i f(9) by (cases "j = i") (auto simp: crew_inv_def)
  have ab: "?ws ! j = WAbsent \<longleftrightarrow> ws ! j = WAbsent" for j using i by (cases "j = i") auto
  have thr: "(threads impl = None) = False" using ts(1) by simp
  show ?thesis using inv pr fin unfolding crew_inv_def f(1-8) f(10-) dismissed_present if_False length_list_update ta ctx ab thr
    by simp
qed

lemma leaver_account:
  assumes inv: "account_inv impl ws ds cs k" "k < 2 ^ 64 - 1" and i: "i < length ws" "ws ! i = WFinished q"
    and ts: "threads impl = Some (a, ts)" "i < length ts"
  shows "account_inv (dismissed i wr impl) (ws[i := WJoined]) ds cs (Suc k)"
proof -
  note f = dismissed_fields [OF ts, where wr = wr]
  have "account_inv (if join_fault impl then count_join_failure impl else impl) ws ds cs (Suc k)"
    using join_failure_account(1) [OF inv] account_more [OF inv(1), of "Suc k"] by simp
  from account_worker [OF this i(1), of WJoined "[]" "Suc k"] i(2)
  have "account_inv (if join_fault impl then count_join_failure impl else impl) (ws[i := WJoined]) ds cs (Suc k)" by simp
  moreover have thr: "(threads impl = None) = False" "(threads (count_join_failure impl) = None) = False"
    using ts(1) by (simp_all add: join_failure_frames)
  moreover have "totals (count_join_failure impl) = totals impl" "context_at (count_join_failure impl) = context_at impl"
    "worker_startup_failure_count (count_join_failure impl) = worker_startup_failure_count impl"
    "worker_runtime_failure_count (count_join_failure impl) = worker_runtime_failure_count impl"
    by (simp_all add: fun_eq_iff totals_def context_at_def count_join_failure_def split: prod.splits)
  ultimately show ?thesis
    unfolding account_inv_def f context_same [OF f(6)] by (cases "join_fault impl") simp_all
qed

lemma leaver_drain:
  assumes inv: "drain_inv impl A ws" and i: "i < length ws" "ws ! i = WFinished wr" and ts: "threads impl = Some (a, ts)" "i < length ts"
    and acc: "account_inv impl ws ds cs k" "k < 2 ^ 64 - 1" and len: "length ws < 2 ^ 64"
  shows "drain_inv (dismissed i wr impl) A (ws[i := WJoined])"
proof -
  note f = dismissed_fields [OF ts, where wr = wr]
  have old: "(leaves_well (WFinished wr) \<longrightarrow> dry A) \<and> closed A" "wr \<noteq> 0 \<longrightarrow> worker_infrastructure_failure impl"
    using inv i nth_mem [OF i(1)] by (auto simp: drain_inv_def)
  have well: "worker_infrastructure_failure impl \<or> dry A" using old by (cases "wr = 0") auto
  have t: "tallied (\<lambda>p. p = WJoined) (ws[i := WJoined]) = Suc (tallied (\<lambda>p. p = WJoined) ws)"
    using tallied_update [OF i(1), of "\<lambda>p. p = WJoined" WJoined] i by simp
  have few: "unat (joined_worker_count impl) \<le> tallied (\<lambda>p. p = WJoined) ws" using inv by (simp add: drain_inv_def)
  then have up: "unat (joined_worker_count impl + 1) = Suc (unat (joined_worker_count impl))"
    using t tallied_le [of "\<lambda>p. p = WJoined" "ws[i := WJoined]"] len unat_more [of "joined_worker_count impl"] by simp
  have "unat (joined_worker_count (dismissed i wr impl)) \<le> tallied (\<lambda>p. p = WJoined) (ws[i := WJoined])"
    using few up t unfolding f by simp
  moreover have "worker_infrastructure_failure impl \<or> join_failure_count (dismissed i wr impl) \<noteq> 0
      \<or> unat (joined_worker_count (dismissed i wr impl)) = tallied (\<lambda>p. p = WJoined) (ws[i := WJoined])"
    using inv old(2) join_failure_account(2) [OF acc] up t unfolding f drain_inv_def by auto
  moreover have "(leaves_well p \<longrightarrow> dry A) \<and> (withdrawn p \<longrightarrow> closed A) \<and> (p = WJoined \<longrightarrow> worker_infrastructure_failure impl \<or> dry A)
       \<and> (\<forall>r. p = WFinished r \<and> r \<noteq> 0 \<longrightarrow> worker_infrastructure_failure impl) \<and> p \<noteq> WShut 0"
    if "p \<in> set (ws[i := WJoined])" for p
    using that inv well old(1) set_update_subset_insert [of ws i WJoined] unfolding drain_inv_def by auto
  ultimately show ?thesis unfolding drain_inv_def f(17) by blast
qed

text \<open>A round for which no thread is there, one whose wait fails, and one that joins the worker.\<close>

lemma round_none_inv:
  assumes inv: "net_inv w0 s" and c: "ctl s = CRelease d i aj r" "i < unat (started_worker_count (core s))"
    and gone: "\<not> present (core s) i" and s': "s' = s\<lparr>ctl := CRelease d (Suc i) aj r\<rparr>"
  shows "net_inv w0 (s'\<lparr>ticks := Suc (ticks s)\<rparr>)"
  using inv
proof (rule net_invE, goal_cases)
  case 1
  have "release_ok (core s) (Suc i) aj r"
    using 1(6) c gone by (auto simp: control_inv_def release_ok_def less_Suc_eq)
  then have "control_inv (core s) (queue_of s) (subs s) (crew s) (CRelease d (Suc i) aj r)"
    using 1(6) c(1) by (simp add: control_inv_def)
  then show ?case by (rule control_move_inv [OF inv _ 1(7)]) (simp add: s')
qed

lemma round_failed_inv:
  assumes inv: "net_inv w0 s" and k: "ticks s < 2 ^ 64 - 1"
    and c: "ctl s = CRelease d i aj r" "i < unat (started_worker_count (core s))"
    and there: "present (core s) i" and cus: "custody w0 (count_join_failure (core s)) w"
    and s': "s' = s\<lparr>core := count_join_failure (core s), env := w\<lparr>wakes := [], fate := []\<rparr>, crew := crew s,
       ctl := CRelease d (Suc i) False SCHEDULER_ERROR_SYSTEM, log := log s\<rparr>"
  shows "net_inv w0 (s'\<lparr>ticks := Suc (ticks s)\<rparr>)"
  using inv
proof (rule net_invE, goal_cases)
  case 1
  let ?i = "count_join_failure (core s)"
  note f = join_failure_frames [of "core s"] and p = plumbingD [OF 1(1)]
  note acc = join_failure_account [OF 1(4) k]
  show ?case
  proof (rule control_step_inv [OF inv cus f(3,5,1) p(4) refl _ acc(1) join_failure_drain [OF 1(5) acc(2)] _ _ s'])
    show "crew_inv ?i (crew s)" using crew_frame(1) [OF f(2)] 1(3) by simp
    show "state_inv ?i (queue_of s) (subs s) (crew s) (enqd s) (log s)"
      using state_frame [OF f(4,6,9,7,10)] 1(7) by simp
    have "release_ok ?i (Suc i) False SCHEDULER_ERROR_SYSTEM"
      using c(2) there by (auto simp: release_ok_def join_failure_outer)
    then show "control_inv ?i (queue_of s) (subs s) (crew s) (CRelease d (Suc i) False SCHEDULER_ERROR_SYSTEM)"
      using 1(6) c(1) by (simp add: control_inv_def f)
  qed
qed

lemma round_joined_inv:
  assumes inv: "net_inv w0 s" and k: "ticks s < 2 ^ 64 - 1"
    and c: "ctl s = CRelease d i aj r" "i < unat (started_worker_count (core s))"
    and fin: "i < length (crew s)" "crew s ! i = WFinished wr" and cus: "custody w0 (dismissed i wr (core s)) w"
    and s': "s' = s\<lparr>core := dismissed i wr (core s), env := w\<lparr>wakes := [], fate := []\<rparr>, crew := (crew s)[i := WJoined],
       ctl := CRelease d (Suc i) aj (release_result wr (core s) r), log := log s\<rparr>"
  shows "net_inv w0 (s'\<lparr>ticks := Suc (ticks s)\<rparr>)"
  using inv
proof (rule net_invE, goal_cases)
  case 1
  let ?i = "dismissed i wr (core s)" and ?ws = "(crew s)[i := WJoined]"
  note p = plumbingD [OF 1(1)]
  have "present (core s) i" using 1(3) fin by (simp add: crew_inv_def employed_def)
  then obtain a ts where ts: "threads (core s) = Some (a, ts)" "i < length ts"
    by (auto simp: present_iff thread_at_def split: option.splits if_splits)
  note f = dismissed_fields [OF ts, where wr = wr]
  have len: "length (crew s) < 2 ^ 64" using p(8) unat_le_max [of "worker_count (core s)"] by simp
  show ?case
  proof (rule control_step_inv [OF inv cus f(2,4,1) _ _ leaver_crew [OF 1(3) fin ts] leaver_account [OF 1(4) k fin ts]
        leaver_drain [OF 1(5) fin ts 1(4) k len] _ _ s'])
    show "places (qpcs s) (subs s) ?ws"
      by (rule places_crew [OF p(4) fin(1)]) (use fin(2) in \<open>simp add: worker_place_def\<close>)
    have "state_inv (core s) (queue_of s) (subs s) ?ws (enqd s) (log s)"
      by (rule life_worker(2) [OF fin(1) _ _ _ _ 1(7)]) (use fin(2) in \<open>simp_all add: has_reported_def\<close>)
    then show "state_inv ?i (queue_of s) (subs s) ?ws (enqd s) (log s)"
      using state_release [OF f(3) _ f(16,17,14)] ts(1) f(5) by simp
    have "release_ok ?i (Suc i) aj (release_result wr (core s) r)"
      using 1(6) c by (auto simp: control_inv_def release_ok_def dismissed_present f(10) release_result_def less_Suc_eq
          split: if_splits)
    then show "control_inv ?i (queue_of s) (subs s) ?ws (CRelease d (Suc i) aj (release_result wr (core s) r))"
      using 1(6) c(1) by (simp add: control_inv_def f)
  qed simp
qed

lemma round_inv:
  assumes inv: "net_inv w0 s" and k: "ticks s < 2 ^ 64 - 1"
    and c: "ctl s = CRelease d i aj r" "i < unat (started_worker_count (core s))" and run: "control fs s = Some s'"
  shows "net_inv w0 (s'\<lparr>ticks := Suc (ticks s)\<rparr>)"
  using inv
proof (rule net_invE, goal_cases)
  case 1
  note p = plumbingD [OF 1(1)]
  let ?w = "(env s)\<lparr>fate := fs\<rparr>"
  have sync: "worker_sync_initialized (core s)" using 1(6) c(1) by (simp add: control_inv_def)
  have cus: "custody w0 (core s) ?w" using p(1) by simp
  obtain aj' r' impl w where o: "run_state (release_worker i (aj, r, core s)) ?w = ((aj', r', impl), w)"
    by (metis prod_cases3 surj_pair)
  have s': "s' = (conclude impl w s)\<lparr>ctl := CRelease d (Suc i) aj' r',
      crew := (if present (core s) i \<and> \<not> present impl i then (crew s)[i := WJoined] else crew s)\<rparr>" and en: "join_enabled i fs s"
    using run c o by (auto simp: control_def control_release_def split: if_splits)
  have ans: "next_answer ?w \<longleftrightarrow> fs = []" if "present (core s) i"
    using en that by (auto simp: join_enabled_def next_answer_def)
  have "wp (release_worker i (aj, r, core s)) (\<lambda>(aj', r', impl) w.
      (\<not> present (core s) i \<and> (aj', r', impl) = (aj, r, core s) \<and> w = ?w)
    \<or> (present (core s) i \<and> (aj', r', impl) = (False, SCHEDULER_ERROR_SYSTEM, count_join_failure (core s)) \<and> custody w0 impl w)
    \<or> (present (core s) i \<and> next_answer ?w \<and> (\<exists>wr. result_of (core s) i = Some wr \<and> custody w0 impl w
         \<and> (aj', r', impl) = (aj, release_result wr (core s) r, dismissed i wr (core s))))) ?w"
    by (rule wp_release_worker [OF cus sync]) (auto simp: present_iff result_of_def)
  from wp_run [OF this o]
  consider (none) "\<not> present (core s) i" "aj' = aj" "r' = r" "impl = core s" "w = ?w"
    | (failed) "present (core s) i" "aj' = False" "r' = SCHEDULER_ERROR_SYSTEM" "impl = count_join_failure (core s)" "custody w0 impl w"
    | (joined) wr where "present (core s) i" "next_answer ?w" "result_of (core s) i = Some wr" "custody w0 impl w"
        "aj' = aj" "r' = release_result wr (core s) r" "impl = dismissed i wr (core s)"
    by auto
  then show ?case
  proof cases
    case none
    have "s' = s\<lparr>ctl := CRelease d (Suc i) aj r\<rparr>" using s' none p(2,7) by (simp add: conclude_def)
    with none(1) show ?thesis by (rule round_none_inv [OF inv c])
  next
    case failed
    have "s' = s\<lparr>core := count_join_failure (core s), env := w\<lparr>wakes := [], fate := []\<rparr>, crew := crew s,
       ctl := CRelease d (Suc i) False SCHEDULER_ERROR_SYSTEM, log := log s\<rparr>"
      using failed by (auto simp: s' conclude_def join_failure_outer)
    with failed show ?thesis by (intro round_failed_inv [OF inv k c]) simp_all
  next
    case (joined wr)
    from joined ans en have fin: "i < length (crew s)" "finished (crew s ! i)" by (auto simp: join_enabled_def)
    then obtain q where q: "crew s ! i = WFinished q" by (cases "crew s ! i") simp_all
    with joined(3) fin(1) 1(3) have "crew s ! i = WFinished wr" by (auto simp: crew_inv_def)
    moreover have "s' = s\<lparr>core := dismissed i wr (core s), env := w\<lparr>wakes := [], fate := []\<rparr>, crew := (crew s)[i := WJoined],
       ctl := CRelease d (Suc i) aj (release_result wr (core s) r), log := log s\<rparr>"
      using joined by (auto simp: s' conclude_def dismissed_present)
    ultimately show ?thesis using joined by (intro round_joined_inv [OF inv k c fin(1)]) simp_all
  qed
qed

section \<open>The end of the joining loop\<close>

lemma disbanded_frames:
  "gate_fields (disbanded impl) = gate_fields impl" "drain_fields (disbanded impl) = drain_fields impl"
  "task_queue (disbanded impl) = task_queue impl" "sched_state (disbanded impl) = sched_state impl"
  "worker_count (disbanded impl) = worker_count impl" "active_worker_count (disbanded impl) = active_worker_count impl"
  "created_worker_count (disbanded impl) = created_worker_count impl"
  "worker_startup_failure_count (disbanded impl) = worker_startup_failure_count impl"
  "worker_runtime_failure_count (disbanded impl) = worker_runtime_failure_count impl"
  "join_failure_count (disbanded impl) = join_failure_count impl"
  "worker_infrastructure_failure (disbanded impl) = worker_infrastructure_failure impl"
proof -
  define F where "F = (\<lambda>i. (gate_fields i, drain_fields i, task_queue i, sched_state i, worker_count i, active_worker_count i,
    created_worker_count i, worker_startup_failure_count i, worker_runtime_failure_count i, join_failure_count i,
    worker_infrastructure_failure i))"
  have "F (collect c i) = F i" for c i
    by (simp add: F_def collect_def gate_fields_def drain_fields_def split: prod.splits)
  then have "F (fold collect cs i) = F i" for cs i by (induction cs arbitrary: i) simp_all
  moreover have "F (disbanded impl) = F (fold collect (started_contexts impl) impl)"
    by (simp add: F_def disbanded_def gate_fields_def drain_fields_def)
  ultimately have "F (disbanded impl) = F impl" by simp
  then show "gate_fields (disbanded impl) = gate_fields impl" "drain_fields (disbanded impl) = drain_fields impl"
    "task_queue (disbanded impl) = task_queue impl" "sched_state (disbanded impl) = sched_state impl"
    "worker_count (disbanded impl) = worker_count impl" "active_worker_count (disbanded impl) = active_worker_count impl"
    "created_worker_count (disbanded impl) = created_worker_count impl"
    "worker_startup_failure_count (disbanded impl) = worker_startup_failure_count impl"
    "worker_runtime_failure_count (disbanded impl) = worker_runtime_failure_count impl"
    "join_failure_count (disbanded impl) = join_failure_count impl"
    "worker_infrastructure_failure (disbanded impl) = worker_infrastructure_failure impl"
    by (simp_all add: F_def)
qed

lemma disbanded_keeps_crew:
  assumes "crew_inv impl ws" "\<And>j. \<not> present impl j"
  shows "crew_inv (disbanded impl) ws"
proof -
  have "\<not> employed (ws ! j)" if "j < length ws" for j using assms that by (simp add: crew_inv_def)
  moreover from this have "ws ! j \<noteq> WFinished r" if "j < length ws" for j r using that by (force simp: employed_def)
  moreover have "\<not> present (disbanded impl) j" for j by (simp add: present_iff thread_at_def)
  ultimately show ?thesis using assms(1) unfolding crew_inv_def disbanded_frames by simp
qed

lemma disbanded_account:
  assumes inv: "account_inv impl ws ds cs k" "k < 2 ^ 64 - 1" and crew: "crew_inv impl ws" "\<And>j. \<not> present impl j"
    and none: "complete ws \<or> cs = []" and len: "length ws = unat (worker_count impl)"
  shows "account_inv (disbanded impl) ws ds cs k"
proof -
  have "totals (disbanded impl) cs \<and> \<not> worker_accounting_overflow (disbanded impl)"
  proof (cases "threads impl = None")
    case True
    then have "started_contexts impl = []" using crew(1) by (simp add: crew_inv_def started_contexts_def)
    then show ?thesis using inv(1) True by (simp add: disbanded_def account_inv_def totals_def)
  next
    case False
    let ?n = "unat (started_worker_count impl)"
    obtain b xs where xs: "worker_contexts impl = Some (b, xs)" "length xs = length ws"
      using crew(1) False len by (auto simp: crew_inv_def staffed_def)
    have n: "?n \<le> length ws" using crew(1) False tallied_le [of _ ws] by (simp add: crew_inv_def)
    have small: "length cs < 2 ^ 64" using calls_bound [OF inv(1), of "\<lambda>_. True"] inv(2) by simp
    have quiet: "quiet_context cs j (xs ! j)" if "j < ?n" for j
    proof -
      have "tracks j (ws ! j) cs (xs ! j)" using inv(1) False that n xs by (simp add: account_inv_def context_at_def)
      moreover have "neutral (ws ! j)"
        using crew that n by (cases "ws ! j") (auto simp: crew_inv_def employed_def dest: spec [of _ j])
      ultimately show ?thesis by (rule tracks_quiet)
    qed
    have zero: "tally_of impl = (0, 0, 0, 0)" "\<not> worker_accounting_overflow impl"
      using inv(1) False by (simp_all add: account_inv_def totals_def tally_of_def tallied_def)
    have all: "below ?n cs = cs"
    proof (cases "cs = []")
      case False
      with none have c: "complete ws" by simp
      have "length ws \<le> ?n"
      proof (rule ccontr)
        assume "\<not> length ws \<le> ?n"
        then have "ws ! ?n = WAbsent" "?n < length ws" using crew(1) \<open>threads impl \<noteq> None\<close> by (simp_all add: crew_inv_def)
        with c show False using nth_mem by force
      qed
      moreover have "\<forall>x \<in> set cs. fst x < length ws" using inv(1) by (simp add: account_inv_def)
      ultimately show ?thesis by (auto simp: below_def filter_id_conv)
    qed (simp add: below_def)
    have "started_contexts impl = take ?n xs" using xs by (simp add: started_contexts_def)
    with fold_collect [OF quiet _ small zero, of ?n] n xs(2) all show ?thesis
      by (simp add: disbanded_def totals_def tally_of_def)
  qed
  then show ?thesis using inv(1) unfolding account_inv_def disbanded_frames by simp
qed

lemma all_gone:
  assumes "crew_inv impl ws" "length ws = unat (worker_count impl)"
    "\<And>j. j < unat (started_worker_count impl) \<Longrightarrow> \<not> present impl j"
  shows "\<not> present impl j"
proof (cases "threads impl")
  case None
  then show ?thesis by (simp add: present_iff thread_at_def)
next
  case (Some x)
  then have crew: "staffed impl" "\<And>j. j < length ws \<Longrightarrow> ws ! j = WAbsent \<longleftrightarrow> unat (started_worker_count impl) \<le> j"
    "\<And>j. j < length ws \<Longrightarrow> present impl j \<longleftrightarrow> employed (ws ! j)"
    using assms(1) by (simp_all add: crew_inv_def)
  show ?thesis
  proof (cases "j < length ws")
    case True
    then show ?thesis using crew(2,3) [of j] assms(3) [of j] by (cases "j < unat (started_worker_count impl)") (auto simp: employed_def)
  next
    case False
    then show ?thesis using crew(1) assms(2) by (auto simp: staffed_def present_iff thread_at_def)
  qed
qed

lemma finish_inv:
  assumes inv: "net_inv w0 s" and k: "ticks s < 2 ^ 64 - 1"
    and c: "ctl s = CRelease d i aj r" "\<not> i < unat (started_worker_count (core s))" and run: "control fs s = Some s'"
  shows "net_inv w0 (s'\<lparr>ticks := Suc (ticks s)\<rparr>)"
  using inv
proof (rule net_invE, goal_cases)
  case 1
  note p = plumbingD [OF 1(1)]
  from 1(6) c(1) have rel: "closed (queue_of s)" "inside (subs s) = 0" "worker_sync_initialized (core s)"
    "release_ok (core s) i aj r" by (simp_all add: control_inv_def)
  have st: "if d = Aborting then sched_state (core s) = SCHEDULER_STATE_STARTING
       else sched_state (core s) = SCHEDULER_STATE_SHUTTING_DOWN \<or> sched_state (core s) = SCHEDULER_STATE_FAILED"
    using 1(6) c(1) by (simp add: control_inv_def)
  have i: "i = unat (started_worker_count (core s))" using rel(4) c(2) by (simp add: release_ok_def)
  let ?c = "\<lambda>r. case d of Aborting \<Rightarrow> CFail | Joining \<Rightarrow> CJoined r"
  show ?case
  proof (cases aj)
    case False
    then have "s' = s\<lparr>ctl := ?c SCHEDULER_ERROR_SYSTEM\<rparr>"
      using run c conclude_same [OF 1(1)] by (simp add: control_def control_release_def release_finish_def)
    moreover have "ended (core s)" using rel(4) False by (auto simp: release_ok_def ended_def)
    then have "control_inv (core s) (queue_of s) (subs s) (crew s) (?c SCHEDULER_ERROR_SYSTEM)"
      using rel st by (cases d) (simp_all add: control_inv_def)
    ultimately show ?thesis by (intro control_move_inv [OF inv _ 1(7)]) simp_all
  next
    case True
    have gone: "\<not> present (core s) j" for j
      by (rule all_gone [OF 1(3) p(8)]) (use rel(4) True i in \<open>simp add: release_ok_def\<close>)
    then have all: "all_dismissed (core s)" by (simp add: all_dismissed_present)
    let ?i = "disbanded (core s)" and ?r = "if worker_infrastructure_failure (core s) then SCHEDULER_ERROR_SYSTEM else r"
    obtain r' impl w where o: "run_state (release_finish (True, r, core s)) (env s) = ((r', impl), w)"
      by (metis prod_cases3 surj_pair)
    have "wp (release_finish (True, r, core s)) (\<lambda>(r', impl) w. r' = ?r \<and> impl = ?i \<and> custody w0 impl w) (env s)"
      by (rule wp_release_finish [OF p(1) rel(3) all]) simp
    from wp_run [OF this o] have o': "r' = ?r" "impl = ?i" "custody w0 ?i w" by auto
    have none: "complete (crew s) \<or> called s = []"
      using 1(7) nothing_called(2) [OF 1(1,4)] by (auto simp: state_inv_def)
    show ?thesis
    proof (rule control_step_inv [OF inv o'(3) disbanded_frames(3,5,1) p(4) refl disbanded_keeps_crew [OF 1(3) gone]])
      show "account_inv ?i (crew s) (deqd s) (called s) (Suc (ticks s))"
        by (rule account_more [OF disbanded_account [OF 1(4) k 1(3) gone none p(8)]]) simp
      show "drain_inv ?i (queue_of s) (crew s)" by (rule drain_frame [OF disbanded_frames(2) _ _ 1(5)])
      have "ended ?i" by (simp add: ended_def)
      then show "control_inv ?i (queue_of s) (subs s) (crew s) (?c ?r)"
        using rel st by (cases d) (auto simp: control_inv_def disbanded_frames release_ok_def split: if_splits)
      show "state_inv ?i (queue_of s) (subs s) (crew s) (enqd s) (log s)"
        using 1(7) st by (cases d) (auto simp: state_inv_def disbanded_frames)
      show "s' = s\<lparr>core := ?i, env := w\<lparr>wakes := [], fate := []\<rparr>, crew := crew s, ctl := ?c ?r, log := log s\<rparr>"
        using run c o o'(1,2) True by (auto simp: control_def control_release_def conclude_def)
    qed
  qed
qed

section \<open>Every step keeps the invariant\<close>

lemma control_step:
  assumes inv: "net_inv w0 s" and k: "ticks s < 2 ^ 64 - 1" and run: "control fs s = Some s'"
  shows "net_inv w0 (s'\<lparr>ticks := Suc (ticks s)\<rparr>)"
proof (cases "ctl s")
  case (CRelease d i aj r)
  with round_inv [OF inv k _ _ run] finish_inv [OF inv k _ _ run] show ?thesis by blast
next
  case CResources
  with resources_inv [OF inv _ run] show ?thesis .
next
  case (CCreate i)
  with create_inv [OF inv k _ run] show ?thesis by blast
next
  case COpen
  with open_inv [OF inv _ run] show ?thesis .
next
  case CAbort
  with abort_inv [OF inv _ run] show ?thesis .
next
  case CFail
  with fail_inv [OF inv _ run] show ?thesis .
next
  case (CJoined r)
  with joined_inv [OF inv _ run] show ?thesis .
next
  case CShutQueue
  with shut_queue_inv [OF inv _ run] show ?thesis .
next
  case (CShutAwait r)
  with await_inv [OF inv _ run] show ?thesis .
qed (use resume_inv [OF inv, of True s'] run in \<open>simp_all add: control_def control_resume_def\<close>)

lemma wake_inv:
  assumes inv: "net_inv w0 s" and i: "i < length (qpcs s)" "notify (qpcs s ! i) \<noteq> qpcs s ! i"
    and s': "s' = s\<lparr>qpcs := (qpcs s)[i := notify (qpcs s ! i)]\<rparr>"
  shows "net_inv w0 (s'\<lparr>ticks := Suc (ticks s)\<rparr>)"
  using inv
proof (rule net_invE, goal_cases)
  case 1
  note p = plumbingD [OF 1(1)]
  have "step ts (Spurious i) (queue_sys s) = Some (queue_sys s')" for ts
    using i by (simp add: step_def s' queue_sys_def)
  from program.step_inv [OF p(3) this] have inv': "sys_inv (queue_sys s')" .
  have "placed (qpcs s) (control_thread s) Idle (qpcs s')"
  proof -
    have "(qpcs s)[control_thread s := Idle] = qpcs s" using p(4) by (simp add: places_def list_update_same_conv)
    then show ?thesis using i(1) by (auto simp: placed_def s' nth_list_update)
  qed
  from places_control [OF p(4) this] have "places (qpcs s') (subs s) (crew s)" .
  with inv' p show ?case
    using gate_more [OF 1(2), of "Suc (ticks s)"] account_more [OF 1(4), of "Suc (ticks s)"] 1 
    by (simp add: net_inv_def plumbing_def s')
qed

lemma react_inv:
  assumes inv: "net_inv w0 s" and k: "ticks s < 2 ^ 64 - 1" and run: "react ts e s = Some s'"
  shows "net_inv w0 (s'\<lparr>ticks := Suc (ticks s)\<rparr>)"
proof (cases e)
  case (Submit i t b)
  with run show ?thesis using submit_gate_inv [OF inv k] by (simp add: react_def)
next
  case (Insert i c)
  with run show ?thesis using submit_first_inv [OF inv] by (simp add: react_def)
next
  case (Insert_resume i c)
  with run show ?thesis using submit_resume_inv [OF inv, of ts True c i s'] by (simp add: react_def)
next
  case (Insert_fail i)
  with run show ?thesis using submit_resume_inv [OF inv, of ts False None i s'] by (simp add: react_def)
next
  case (Deregister i)
  with run show ?thesis using submit_leave_inv [OF inv] by (simp add: react_def)
next
  case (Ready j)
  with run show ?thesis using worker_report_inv [OF inv] by (simp add: react_def)
next
  case (Take j c)
  with run show ?thesis using worker_take_inv [OF inv] by (simp add: react_def)
next
  case (Take_resume j c)
  with run show ?thesis using worker_resume_inv [OF inv, of ts True c j s'] by (simp add: react_def)
next
  case (Take_fail j)
  with run show ?thesis using worker_resume_inv [OF inv, of ts False None j s'] by (simp add: react_def)
next
  case (Account j)
  with run show ?thesis using worker_account_inv [OF inv k] by (simp add: react_def)
next
  case (Callback j r)
  with run show ?thesis using worker_callback_inv [OF inv] by (simp add: react_def)
next
  case (Abandon_queue j)
  with run show ?thesis using worker_abandon_inv [OF inv] by (simp add: react_def)
next
  case (Exit j)
  with run show ?thesis using worker_exit_inv [OF inv k] by (simp add: react_def)
next
  case (Spurious_wake i)
  with run show ?thesis using wake_inv [OF inv, of i s'] by (simp add: react_def split: if_splits)
next
  case (Lifecycle call)
  with run show ?thesis using start_call_inv [OF inv] shutdown_call_inv [OF inv] join_call_inv [OF inv]
    by (cases call) (simp_all add: react_def)
next
  case (Control fs)
  with run show ?thesis using control_step [OF inv k] by (simp add: react_def)
next
  case Control_spurious
  with run show ?thesis using spurious_inv [OF inv, of s'] by (simp add: react_def split: if_splits)
next
  case Control_fail
  with run show ?thesis using resume_inv [OF inv, of False s'] by (simp add: react_def split: if_splits)
qed

end
