(* ===== verification/Scheduler_Run.thy ===== *)
theory Scheduler_Run
  imports Scheduler_Joining
begin

text \<open>
  The runs of the whole scheduler: which states are reached from a successful initialization, and
  what holds in them, in every interleaving and whatever fails.
\<close>

section \<open>Reachable states\<close>

text \<open>
  A scheduler right after its initialization, with any fault plan, \<open>m\<close> threads that may submit,
  and a place for each configured worker.
\<close>

definition start_net :: "SchedulerImplementation \<Rightarrow> world \<Rightarrow> nat \<Rightarrow> net" where
  "start_net impl w m = (let n = unat (worker_count impl) in \<lparr>core = impl, env = w\<lparr>wakes := [], fate := []\<rparr>,
     qpcs = replicate (Suc (m + n)) Idle, enqd = [], deqd = [], subs = replicate m SIdle, crew = replicate n WAbsent,
     ctl = CIdle, called = [], log = [], ticks = 0\<rparr>)"

text \<open>
  What is reached from there in fewer than \<open>2^64\<close> steps; \<open>w0\<close> is the world before the
  initialization.
\<close>

inductive reachable :: "world \<Rightarrow> bool \<Rightarrow> net \<Rightarrow> bool" for w0 ts where
  boot: "ledger_ok w0 \<Longrightarrow> set (held w0) \<subseteq> sections w0
    \<Longrightarrow> run_state (scheduler_init (Some \<lparr>sched_impl = None\<rparr>) cap n (Some fn) fc) w0
          = ((SCHEDULER_OK, Some \<lparr>sched_impl = Some impl\<rparr>), w)
    \<Longrightarrow> m + unat n < 2 ^ 64 - 1
    \<Longrightarrow> reachable w0 ts (start_net (impl\<lparr>fault_plan := plan\<rparr>) w m)"
| step: "reachable w0 ts s \<Longrightarrow> net_step ts e s = Some s' \<Longrightarrow> ticks s' < 2 ^ 64 \<Longrightarrow> reachable w0 ts s'"

interpretation whole: invariant_system "net_step ts" "\<lambda>s. ticks s < 2 ^ 64 \<longrightarrow> net_inv w0 s" for ts w0
proof
  fix s e s' assume inv: "ticks s < 2 ^ 64 \<longrightarrow> net_inv w0 s" and "net_step ts e s = Some s'"
  then obtain s1 where s1: "react ts e s = Some s1" "s' = s1\<lparr>ticks := Suc (ticks s)\<rparr>" by (auto simp: net_step_def)
  show "ticks s' < 2 ^ 64 \<longrightarrow> net_inv w0 s'"
  proof
    assume "ticks s' < 2 ^ 64"
    then have k: "ticks s < 2 ^ 64 - 1" by (simp add: s1(2))
    then have "net_inv w0 s" using inv by simp
    from react_inv [OF this k s1(1)] show "net_inv w0 s'" by (simp add: s1(2))
  qed
qed

lemma tallied_replicate: "tallied P (replicate n x) = (if P x then n else 0)"
  by (simp add: tallied_def)

lemma start_net_inv:
  assumes fresh: "fresh_scheduler cap n impl0" "custody w0 impl0 w" "cq_ok (task_queue impl0) w" and small: "m + unat n < 2 ^ 64 - 1"
  shows "net_inv w0 (start_net (impl0\<lparr>fault_plan := plan\<rparr>) w m)"
proof -
  let ?i = "impl0\<lparr>fault_plan := plan\<rparr>" and ?w = "w\<lparr>wakes := [], fate := []\<rparr>" and ?k = "unat n"
  obtain a q l c fn fc where i0: "impl0 = (zero_scheduler a)\<lparr>task_queue := q, lifecycle_mutex := l, lifecycle_condition := c,
      execute := Some fn, execute_context := fc, worker_count := n\<rparr>"
    and view: "cq_view q = \<lparr>elems = [], bound = unat cap, closed = False, consumers = 0, producers = 0, high = 0\<rparr>" and n: "n \<noteq> 0"
    using fresh(1) by (auto simp: fresh_scheduler_def)
  have k: "?k \<noteq> 0" using n by (simp add: unat_eq_zero)
  have "parts ?i = parts impl0" by (simp add: parts_defs)
  from custody_parts [OF this, of w0 ?w] fresh(2) have cus: "custody w0 ?i ?w" by simp
  have cq: "cq_ok q ?w" using fresh(3) by (simp add: i0)
  have "fresh_queue q ?w" using cq view by (simp add: fresh_queue_def)
  from start_inv [OF this, of "Suc (m + ?k)"] small
  have sys: "sys_inv (start_sys q ?w (Suc (m + ?k)))" by simp
  let ?s = "start_net ?i w m"
  have f: "core ?s = ?i" "env ?s = ?w" "subs ?s = replicate m SIdle" "crew ?s = replicate ?k WAbsent" "ctl ?s = CIdle"
    "enqd ?s = []" "deqd ?s = []" "called ?s = []" "log ?s = []" "ticks ?s = 0" "qpcs ?s = replicate (Suc (m + ?k)) Idle"
    by (simp_all add: start_net_def Let_def i0)
  have tq: "task_queue impl0 = q" "worker_count impl0 = n" by (simp_all add: i0)
  have "queue_sys ?s = start_sys q ?w (Suc (m + ?k))" by (simp add: queue_sys_def f start_sys_def tq)
  moreover have "places (qpcs ?s) (subs ?s) (crew ?s)"
    unfolding f by (simp add: places_def sub_place_def worker_place_def del: replicate_Suc)
  ultimately have "plumbing w0 ?s" using cus sys k by (simp add: plumbing_def f tq)
  moreover have "gate_inv ?i (replicate m SIdle) [] 0"
    using small by (simp add: gate_inv_def tallied_replicate i0 zero_scheduler_def)
  moreover have "crew_inv ?i (replicate ?k WAbsent)"
    by (simp add: crew_inv_def tallied_replicate i0 zero_scheduler_def present_iff thread_at_def employed_def)
  moreover have "account_inv ?i (replicate ?k WAbsent) [] [] 0"
    by (simp add: account_inv_def i0 zero_scheduler_def totals_def tallied_def)
  moreover have "drain_inv ?i (cq_view q) (replicate ?k WAbsent)"
    by (auto simp: drain_inv_def tallied_replicate i0 zero_scheduler_def)
  moreover have "control_inv ?i (cq_view q) (replicate m SIdle) (replicate ?k WAbsent) CIdle"
    by (simp add: control_inv_def i0 zero_scheduler_def)
  moreover have "state_inv ?i (cq_view q) (replicate m SIdle) (replicate ?k WAbsent) [] []"
    by (simp add: state_inv_def tallied_replicate i0 zero_scheduler_def)
  ultimately show ?thesis by (simp add: net_inv_def f tq)
qed

lemma init_custody:
  assumes "ledger_ok w0" "set (held w0) \<subseteq> sections w0"
    "run_state (scheduler_init (Some \<lparr>sched_impl = None\<rparr>) cap n (Some fn) fc) w0
       = ((SCHEDULER_OK, Some \<lparr>sched_impl = Some impl\<rparr>), w)"
  shows "fresh_scheduler cap n impl" "custody w0 impl w" "cq_ok (task_queue impl) w"
proof -
  have args: "cap \<noteq> 0" "n \<noteq> 0" using assms(3) by (auto simp: scheduler_init_def)
  have "wp (scheduler_init (Some \<lparr>sched_impl = None\<rparr>) cap n (Some fn) fc) (\<lambda>(r, out) w. r = SCHEDULER_OK \<longrightarrow>
      (\<exists>impl. out = Some \<lparr>sched_impl = Some impl\<rparr> \<and> fresh_scheduler cap n impl \<and> custody w0 impl w \<and> cq_ok (task_queue impl) w)) w0"
    by (rule wp_init [OF owns_start [OF assms(1,2)] args]) auto
  from wp_run [OF this assms(3)] show "fresh_scheduler cap n impl" "custody w0 impl w" "cq_ok (task_queue impl) w" by auto
qed

lemma reachable_net_inv: "reachable w0 ts s \<Longrightarrow> ticks s < 2 ^ 64 \<and> net_inv w0 s"
proof (induction rule: reachable.induct)
  case (boot cap n fn fc impl w m plan)
  from start_net_inv [OF init_custody [OF boot(1-3)] boot(4), of plan] show ?case by (simp add: start_net_def Let_def)
next
  case (step s e s')
  then show ?case using whole.step_inv [of s w0 ts e s'] by blast
qed

section \<open>Runs to try things on\<close>

text \<open>
  One submitter and one worker: start, a submission whose task the worker takes before the
  submitter has left, a callback that returns 5, shutdown, and join.
\<close>

definition demo_net :: net where
  "demo_net = (case run_state (scheduler_init (Some \<lparr>sched_impl = None\<rparr>) 2 1 (Some 1) None) sched_world of
     ((r, out), w) \<Rightarrow> start_net (the (sched_impl (the out))) w 1)"

definition demo_events :: "event list" where
  "demo_events = [Lifecycle Start_call, Control [], Control [], Control [], Ready 0, Control [], Control [],
     Submit 0 42 True, Insert 0 None, Take 0 None, Account 0, Deregister 0, Account 0, Account 0, Callback 0 5,
     Account 0, Account 0, Lifecycle Shutdown_call, Control [], Control [], Take 0 None, Exit 0,
     Lifecycle Join_call, Control [], Control [], Control []]"

lemma run_reachable:
  "reachable w0 ts s \<Longrightarrow> run_actions (net_step ts) es s = Some s' \<Longrightarrow> ticks s + length es < 2 ^ 64
     \<Longrightarrow> reachable w0 ts s'"
proof (induction es arbitrary: s)
  case (Cons e es)
  then obtain t where t: "net_step ts e s = Some t" "run_actions (net_step ts) es t = Some s'"
    by (auto split: option.splits)
  have "ticks t = Suc (ticks s)" using t(1) by (auto simp: net_step_def)
  moreover from this have "reachable w0 ts t"
    using Cons.prems(3) by (intro reachable.step [OF Cons.prems(1) t(1)]) simp
  ultimately show ?case using Cons.IH [OF _ t(2)] Cons.prems(3) by simp
qed simp

lemma demo_start: "reachable sched_world ts demo_net" "ticks demo_net = 0"
proof -
  let ?run = "run_state (scheduler_init (Some \<lparr>sched_impl = None\<rparr>) 2 1 (Some 1) None) sched_world"
  obtain r out w where run: "?run = ((r, out), w)" by (metis prod.collapse)
  have "r = SCHEDULER_OK" "Option.bind out sched_impl \<noteq> None"
  proof -
    have "(case ?run of ((r, out), w) \<Rightarrow> r = SCHEDULER_OK \<and> \<not> Option.is_none (Option.bind out sched_impl)) = True" by code_simp
    with run show "r = SCHEDULER_OK" "Option.bind out sched_impl \<noteq> None" by (simp_all add: Option.is_none_def)
  qed
  then obtain impl where impl: "out = Some \<lparr>sched_impl = Some impl\<rparr>" "r = SCHEDULER_OK"
    by (cases out) (auto, metis Scheduler.cases Scheduler.select_convs(1) not_None_eq)
  have demo: "demo_net = start_net (impl\<lparr>fault_plan := fault_plan impl\<rparr>) w 1"
    using run impl by (simp add: demo_net_def)
  have "ledger_ok sched_world" "set (held sched_world) \<subseteq> sections sched_world"
    by (simp_all add: sched_world_def ledger_ok_def)
  from reachable.boot [OF this, of 2 1 1 None impl w 1 ts "fault_plan impl"] run impl
  show "reachable sched_world ts demo_net" unfolding demo by simp
  show "ticks demo_net = 0" by (simp add: demo start_net_def Let_def)
qed

lemma demo_reachable:
  assumes "run_actions (net_step ts) es demo_net = Some s" "length es < 2 ^ 64"
  shows "reachable sched_world ts s"
  using run_reachable [OF demo_start(1) assms(1)] assms(2) demo_start(2) by simp

section \<open>What the invariant says\<close>

lemma reachableE:
  assumes "reachable w0 ts s"
  obtains "plumbing w0 s" "gate_inv (core s) (subs s) (enqd s) (ticks s)" "crew_inv (core s) (crew s)"
    "account_inv (core s) (crew s) (deqd s) (called s) (ticks s)" "drain_inv (core s) (queue_of s) (crew s)"
    "control_inv (core s) (queue_of s) (subs s) (crew s) (ctl s)"
    "state_inv (core s) (queue_of s) (subs s) (crew s) (enqd s) (log s)" "ticks s < 2 ^ 64"
  using reachable_net_inv [OF assms] by (auto simp: net_inv_def)

lemma plumbing_queue:
  assumes "plumbing w0 s"
  shows "deqd s @ elems (queue_of s) = enqd s" "length (elems (queue_of s)) \<le> bound (queue_of s)"
  using plumbingD(3) [OF assms] by (simp_all add: sys_inv_def ainv_def sys_view_def)

text \<open>The crew of a scheduler without threads.\<close>

lemma crew_done:
  assumes "crew_inv impl ws" "threads impl = None" "j < length ws"
  shows "ws ! j = WAbsent \<or> ws ! j = WJoined"
  using assms by (auto simp: crew_inv_def present_iff thread_at_def employed_def)

lemma crew_done_idle:
  assumes "crew_inv impl ws" "threads impl = None"
  shows "concat (map holds ws) = []" "active_worker_count impl = 0"
proof -
  have done': "p = WAbsent \<or> p = WJoined" if "p \<in> set ws" for p
    using crew_done [OF assms] that by (metis in_set_conv_nth)
  show "concat (map holds ws) = []" using done' by fastforce
  have "tallied busy ws = 0" using done' nth_mem by (fastforce simp: tallied_zero)
  then have "unat (active_worker_count impl) = 0" using assms(1) by (simp add: crew_inv_def)
  then show "active_worker_count impl = 0" by (simp add: unat_eq_zero)
qed

text \<open>After a join that succeeded, with none that failed before: everything is done.\<close>

lemma joined_facts:
  assumes r: "reachable w0 ts s" and "(Join_call, SCHEDULER_OK) \<in> set (log s)" "(Join_call, SCHEDULER_ERROR_SYSTEM) \<notin> set (log s)"
  shows "sched_state (core s) = SCHEDULER_STATE_STOPPED" "threads (core s) = None" "inside (subs s) = 0"
    "elems (queue_of s) = []" "deqd s = enqd s" "mset (map (\<lambda>x. fst (snd x)) (called s)) = mset (enqd s)"
    "totals (core s) (called s)" "length (enqd s) = unat (accepted_count (core s))"
    "join_failure_count (core s) = 0 \<longrightarrow> unat (joined_worker_count (core s)) = unat (created_worker_count (core s))"
  using r
proof (atomize (full), rule reachableE, goal_cases)
  case 1
  have st: "sched_state (core s) = SCHEDULER_STATE_STOPPED" using 1(7) assms(2) by (simp add: state_inv_def)
  then have t: "threads (core s) = None" "inside (subs s) = 0" "\<not> worker_infrastructure_failure (core s)"
    using 1(7) assms(3) by (simp_all add: state_inv_def)
  note idle = crew_done_idle [OF 1(3) t(1)]
  have empty: "elems (queue_of s) = []"
  proof (cases "complete (crew s)")
    case True
    obtain p where p: "p \<in> set (crew s)" using plumbingD(9) [OF 1(1)] by (cases "crew s") auto
    then have "p = WJoined" using crew_done [OF 1(3) t(1)] True by (metis in_set_conv_nth)
    then show ?thesis using 1(5) p t(3) by (auto simp: drain_inv_def dry_def)
  next
    case False
    then have "enqd s = []" using 1(7) by (simp add: state_inv_def)
    with plumbing_queue(1) [OF 1(1)] show ?thesis by simp
  qed
  have deq: "deqd s = enqd s" using plumbing_queue(1) [OF 1(1)] empty by simp
  have calls: "mset (map (\<lambda>x. fst (snd x)) (called s)) = mset (enqd s)"
    using 1(4) idle(1) by (simp add: account_inv_def deq)
  have tot: "totals (core s) (called s)" using 1(4) t(1) by (simp add: account_inv_def)
  have none: "tallied (\<lambda>p. p = SLeaving SCHEDULER_OK) (subs s) = 0" using t(2) by (auto simp: tallied_zero)
  have acc: "length (enqd s) = unat (accepted_count (core s))" using 1(2) none by (simp add: gate_inv_def)
  have "tallied (\<lambda>p. p = WJoined) (crew s) = tallied (\<lambda>p. p \<noteq> WAbsent) (crew s)"
  proof -
    have "(p = WJoined) = (p \<noteq> WAbsent)" if "p \<in> set (crew s)" for p
      using crew_done [OF 1(3) t(1)] that by (metis in_set_conv_nth worker.distinct(25))
    then show ?thesis by (simp add: tallied_def cong: filter_cong)
  qed
  then have "join_failure_count (core s) = 0 \<longrightarrow> unat (joined_worker_count (core s)) = unat (created_worker_count (core s))"
    using 1(3,5) t(3) by (simp add: crew_inv_def drain_inv_def)
  with st t empty deq calls tot acc show ?case by simp
qed

section \<open>The snapshot of a stopped scheduler\<close>




section \<open>Properties\<close>

text \<open>
  C6. Every call of submit or try-submit is accounted for, at any moment of any interleaving: the calls
  counted as submitted are those counted as accepted, those counted as rejected and those that
  are inside right now; the number of registered submitters is the number of threads inside; and
  the tasks in the queue's history are the accepted calls together with the callers that are
  about to be told so. No counter overflows.
\<close>

theorem submissions_accounted:
  assumes "reachable w0 ts s"
  shows "unat (submitted_count (core s)) = unat (accepted_count (core s)) + unat (rejected_count (core s)) + inside (subs s)
    \<and> unat (active_submitter_count (core s)) = inside (subs s)
    \<and> length (enqd s) = unat (accepted_count (core s)) + tallied (\<lambda>p. p = SLeaving SCHEDULER_OK) (subs s)
    \<and> \<not> lifecycle_accounting_overflow (core s)"
  using assms by (rule reachableE) (simp add: gate_inv_def)

theorem submissions_accounted_witness:
  "\<exists>s. run_actions (net_step True) (take 11 demo_events) demo_net = Some s \<and> subs s = [SLeaving SCHEDULER_OK]
     \<and> enqd s = [42] \<and> accepted_count (core s) = 0"
proof -
  have "map_option (\<lambda>s. (subs s, enqd s)) (run_actions (net_step True) (take 11 demo_events) demo_net)
      = Some ([SLeaving SCHEDULER_OK], [42])" by code_simp
  then obtain s where s: "run_actions (net_step True) (take 11 demo_events) demo_net = Some s"
    "subs s = [SLeaving SCHEDULER_OK]" "enqd s = [42]" by auto
  have "reachable sched_world True s" by (rule demo_reachable [OF s(1)]) simp
  from submissions_accounted [OF this] s have "unat (accepted_count (core s)) = 0" by (simp add: tallied_def)
  with s show ?thesis by (auto simp: unat_eq_zero)
qed

text \<open>
  C4. No task is lost, duplicated or reordered on its way through the scheduler: at any moment
  the pointers the workers took out, followed by those in the queue, are the accepted pointers in
  the order of their acceptance; and counted with multiplicity every pointer taken out was passed
  to exactly one call of the callback or is in the hands of exactly one worker on the way there.
\<close>

theorem tasks_exactly_once:
  assumes "reachable w0 ts s"
  shows "deqd s @ contents (queue (task_queue (core s))) = enqd s
    \<and> mset (deqd s) = mset (map (\<lambda>x. fst (snd x)) (called s)) + mset (concat (map holds (crew s)))
    \<and> (\<forall>x \<in> set (called s). fst x < unat (worker_count (core s)))"
  using assms
proof (rule reachableE, goal_cases)
  case 1
  from plumbing_queue(1) [OF 1(1)] have "deqd s @ contents (queue (task_queue (core s))) = enqd s" by (simp add: cq_view_def)
  with 1(4) plumbingD(8) [OF 1(1)] show ?case by (simp add: account_inv_def)
qed

theorem tasks_exactly_once_witness:
  "\<exists>s. run_actions (net_step True) (take 15 demo_events) demo_net = Some s \<and> called s = [(0, 42, 5)]
     \<and> concat (map holds (crew s)) = [] \<and> contents (queue (task_queue (core s))) = []"
proof -
  have "map_option (\<lambda>s. (called s, deqd s, enqd s)) (run_actions (net_step True) (take 15 demo_events) demo_net)
      = Some ([(0, 42, 5)], [42], [42])" by code_simp
  then obtain s where s: "run_actions (net_step True) (take 15 demo_events) demo_net = Some s"
    "called s = [(0, 42, 5)]" "deqd s = [42]" "enqd s = [42]" by auto
  have "reachable sched_world True s" by (rule demo_reachable [OF s(1)]) simp
  from tasks_exactly_once [OF this] s show ?thesis by simp
qed



text \<open>
  C5. Memory and synchronization are safe in every interleaving, whatever allocation, thread
  creation, wait or join fails: no native object is misused (nothing is freed, closed, destroyed,
  locked or unlocked that is not there, nothing destroyed while held), and what was allocated
  since before the initialization is at every moment exactly what the scheduler still points to,
  each block and each thread handle once; between the steps no mutex is held that was not held
  before.
\<close>

theorem resources_safe:
  assumes "reachable w0 ts s"
  shows "\<not> misuse (env s) \<and> held (env s) = held w0
    \<and> live (env s) = live w0 \<union> set (blocks (core s)) \<and> set (blocks (core s)) \<inter> live w0 = {}
    \<and> distinct (blocks (core s))
    \<and> handles (env s) = handles w0 \<union> set (crew_handles (core s)) \<and> distinct (crew_handles (core s))
    \<and> sections (env s) = sections w0 \<union> set (sections_of (core s))"
  using assms
proof (rule reachableE, goal_cases)
  case 1
  from plumbingD(1) [OF 1(1)] show ?case by (auto simp: custody_def owns_def ledger_ok_def)
qed

theorem resources_safe_witness:
  "\<exists>s. run_actions (net_step True) (take 10 demo_events) demo_net = Some s \<and> card (live (env s)) = 22
     \<and> distinct (blocks (core s))"
proof -
  have "map_option (\<lambda>s. card (live (env s))) (run_actions (net_step True) (take 10 demo_events) demo_net)
      = Some 22" by code_simp
  then obtain s where s: "run_actions (net_step True) (take 10 demo_events) demo_net = Some s" "card (live (env s)) = 22"
    by auto
  have "reachable sched_world True s" by (rule demo_reachable [OF s(1)]) simp
  from resources_safe [OF this] s show ?thesis by auto
qed

text \<open>
  C1. Shutdown drains: once a join has succeeded (and none failed before it), the scheduler is stopped,
  the queue is empty, nobody is inside, every accepted task was passed to the callback exactly
  once, the counters of the scheduler say exactly that, and destroying it succeeds and gives every
  resource back.
\<close>

theorem join_complete:
  assumes "reachable w0 ts s" "(Join_call, SCHEDULER_OK) \<in> set (log s)" "(Join_call, SCHEDULER_ERROR_SYSTEM) \<notin> set (log s)"
  shows "sched_state (core s) = SCHEDULER_STATE_STOPPED \<and> contents (queue (task_queue (core s))) = []
    \<and> mset (map (\<lambda>x. fst (snd x)) (called s)) = mset (enqd s)
    \<and> unat (submitted_count (core s)) = length (enqd s) + unat (rejected_count (core s))
    \<and> unat (accepted_count (core s)) = length (enqd s) \<and> unat (dequeued_count (core s)) = length (enqd s)
    \<and> unat (callback_started_count (core s)) = length (enqd s)
    \<and> unat (successful_callback_count (core s)) = length (filter (\<lambda>x. snd (snd x) = 0) (called s))
    \<and> unat (failed_callback_count (core s)) = length (filter (\<lambda>x. snd (snd x) \<noteq> 0) (called s))
    \<and> (\<exists>w'. run_state (scheduler_destroy (Some \<lparr>sched_impl = Some (core s)\<rparr>)) (env s)
          = ((SCHEDULER_OK, Some \<lparr>sched_impl = None\<rparr>), w') \<and> same_resources w0 w')"
  using assms(1)
proof (rule reachableE, goal_cases)
  case 1
  note j = joined_facts [OF assms(1-3)]
  have act: "active_submitter_count (core s) = 0"
    using 1(2) j(3) unat_eq_zero [of "active_submitter_count (core s)"] by (simp add: gate_inv_def)
  have "worker_contexts (core s) = None" using 1(3) j(2) by (simp add: crew_inv_def)
  then have "settled (core s)" using j(1,2) act by (simp add: settled_def bare_def)
  from destroy_settled [OF plumbingD(1) [OF 1(1)] this]
  have d: "\<exists>w'. run_state (scheduler_destroy (Some \<lparr>sched_impl = Some (core s)\<rparr>)) (env s)
          = ((SCHEDULER_OK, Some \<lparr>sched_impl = None\<rparr>), w') \<and> same_resources w0 w'" by metis
  have len: "length (called s) = length (enqd s)" using j(6) by (metis length_map size_mset)
  have sub: "unat (submitted_count (core s)) = length (enqd s) + unat (rejected_count (core s))"
    using 1(2) j(3,8) by (simp add: gate_inv_def)
  have con: "contents (queue (task_queue (core s))) = []" using j(4) by (simp add: cq_view_def)
  show ?case using d j(1,6-8) len sub con by (simp add: totals_def tallied_def)
qed

theorem join_complete_witness:
  "\<exists>s. run_actions (net_step True) demo_events demo_net = Some s \<and> last (log s) = (Join_call, SCHEDULER_OK)
     \<and> mset (map (\<lambda>x. fst (snd x)) (called s)) = {#42#} \<and> accepted_count (core s) = 1
     \<and> (\<exists>w'. run_state (scheduler_destroy (Some \<lparr>sched_impl = Some (core s)\<rparr>)) (env s)
          = ((SCHEDULER_OK, Some \<lparr>sched_impl = None\<rparr>), w') \<and> same_resources sched_world w')"
proof -
  have "map_option (\<lambda>s. (log s, enqd s)) (run_actions (net_step True) demo_events demo_net)
      = Some ([(Start_call, SCHEDULER_OK), (Shutdown_call, SCHEDULER_OK), (Join_call, SCHEDULER_OK)], [42])"
    by code_simp
  then obtain s where s: "run_actions (net_step True) demo_events demo_net = Some s" "enqd s = [42]"
    "log s = [(Start_call, SCHEDULER_OK), (Shutdown_call, SCHEDULER_OK), (Join_call, SCHEDULER_OK)]" by auto
  have "reachable sched_world True s" by (rule demo_reachable [OF s(1)]) (simp add: demo_events_def)
  from join_complete [OF this] s have "unat (accepted_count (core s)) = 1"
    "mset (map (\<lambda>x. fst (snd x)) (called s)) = {#42#}"
    "\<exists>w'. run_state (scheduler_destroy (Some \<lparr>sched_impl = Some (core s)\<rparr>)) (env s)
          = ((SCHEDULER_OK, Some \<lparr>sched_impl = None\<rparr>), w') \<and> same_resources sched_world w'" by simp_all
  moreover from this have "accepted_count (core s) = 1" by (metis unat_1 unat_eq_iff)
  ultimately show ?thesis using s by simp
qed



end
