(* ===== verification/Scheduler_Work.thy ===== *)
theory Scheduler_Work
  imports Scheduler_Run
begin

text \<open>
  The work the scheduler has left: a number that every step lowers, except for a new call and a
  wake-up without reason, which raise it by a bounded amount.
\<close>

section \<open>The work left\<close>

text \<open>
  \<open>m\<close> is the number of threads that may wait on the queue. Shutting the queue may wake all of
  them, so what is going to shut it weighs \<open>m\<close> more.
\<close>

fun sub_work :: "submitter \<Rightarrow> nat" where
  "sub_work SIdle = 0"
| "sub_work (SInside t b) = 12"
| "sub_work (SWaiting t) = 11"
| "sub_work (SLeaving r) = 2"

fun worker_work :: "nat \<Rightarrow> worker \<Rightarrow> nat" where
  "worker_work m WStarting = m + 6"
| "worker_work m WLoop = m + 4"
| "worker_work m WWaiting = m + 3"
| "worker_work m (WTook t) = m + 10"
| "worker_work m (WCounted t) = m + 9"
| "worker_work m (WStarted t) = m + 8"
| "worker_work m (WRunning t b) = m + 7"
| "worker_work m (WReturned r b) = m + 6"
| "worker_work m (WAccounted b) = m + 5"
| "worker_work m (WShut r) = m + 2"
| "worker_work m (WLeaving r) = 1"
| "worker_work m p = 0"

fun control_work :: "nat \<Rightarrow> nat \<Rightarrow> controller \<Rightarrow> nat" where
  "control_work m n CIdle = 0"
| "control_work m n CResources = (m + 7) * n + m + n + 8"
| "control_work m n (CCreate i) = (m + 7) * (n - i) + m + n + 7"
| "control_work m n CStartNotified = m + n + 6"
| "control_work m n CStartAsleep = m + n + 5"
| "control_work m n COpen = m + n + 4"
| "control_work m n CAbort = m + n + 3"
| "control_work m n (CRelease d i b r) = n - i + 2"
| "control_work m n CFail = 1"
| "control_work m n (CJoined r) = 1"
| "control_work m n CShutQueue = m + 4"
| "control_work m n (CShutAwait r) = 3"
| "control_work m n (CShutNotified r) = 2"
| "control_work m n (CShutAsleep r) = 1"
| "control_work m n CJoinNotified = n + 4"
| "control_work m n CJoinAsleep = n + 3"

definition woken :: "pc list \<Rightarrow> nat" where
  "woken ps = num notified ps"

definition work :: "net \<Rightarrow> nat" where
  "work s = (let n = length (crew s); m = length (subs s) + n in
     sum_list (map sub_work (subs s)) + sum_list (map (worker_work m) (crew s)) + woken (qpcs s)
     + 8 * length (elems (queue_of s)) + control_work m n (ctl s))"

text \<open>What a new call, or a wake-up without reason, adds.\<close>

fun cost :: "nat \<Rightarrow> nat \<Rightarrow> event \<Rightarrow> nat" where
  "cost m n (Submit i t b) = 13"
| "cost m n (Lifecycle Start_call) = (m + 7) * n + m + n + 9"
| "cost m n (Lifecycle Shutdown_call) = m + 5"
| "cost m n (Lifecycle Join_call) = n + 4"
| "cost m n (Spurious_wake i) = 2"
| "cost m n Control_spurious = 2"
| "cost m n e = 0"

section \<open>Woken threads\<close>

lemma woken_split: "woken ps = num deq_notified ps + num enq_notified ps"
proof (induction ps)
  case (Cons p ps)
  then show ?case by (cases p) (simp_all add: woken_def num_def)
qed (simp add: woken_def num_def)

lemma woken_update: "i < length ps \<Longrightarrow> woken (ps[i := p]) + of_bool (notified (ps ! i)) = woken ps + of_bool (notified p)"
  using num_update [of i ps notified p] by (simp add: woken_def)

lemma settle_woken:
  assumes "asettle choice i p ks A S = Some S'" "i < length (apcs S)" "ks = [] \<or> ks = [One_consumer] \<or> ks = [One_producer]"
  shows "woken (apcs S') + of_bool (notified (apcs S ! i)) \<le> woken (apcs S) + of_bool (notified p) + length ks"
proof -
  obtain ps' where ps': "rouse ks choice ((apcs S)[i := p]) = Some ps'" "S' = S\<lparr>aq := A, apcs := ps'\<rparr>"
    using assms(1) by (rule asettleE)
  have "woken ps' \<le> woken ((apcs S)[i := p]) + length ks"
    using assms(3) ps'(1) rouse_none [of choice "(apcs S)[i := p]" ps'] rouse_consumer [of choice "(apcs S)[i := p]" ps']
      rouse_producer [of choice "(apcs S)[i := p]" ps']
    by (auto simp: woken_split tally_def split: if_splits)
  then show ?thesis using woken_update [OF assms(2), of p] ps'(2) by simp
qed

lemma places_woken: "places ps ss ws \<Longrightarrow> woken ps \<le> length ss + length ws"
  using num_less [of "length ss + length ws" ps notified] by (simp add: places_def woken_def)

section \<open>The queue's part of a step\<close>

abbreviation queue_view :: "net \<Rightarrow> asys" where
  "queue_view s \<equiv> sys_view (queue_sys s)"

lemma queue_view_fields [simp]:
  "apcs (queue_view s) = qpcs s" "aq (queue_view s) = queue_of s"
  by (simp_all add: sys_view_def)

lemma submit_insert_view:
  assumes "plumbing w0 s" "refined (task_queue (core s)) (env s) outcome contract"
  shows "map_option queue_view (submit_insert b choice i t outcome s) = aenqueue_end choice i t contract (queue_view s)"
  using enqueue_end_refined [OF assms(2) plumbingD(7) [OF assms(1)], of choice i t "queue_sys s"]
  by (auto simp: submit_insert_def option.map_comp comp_def)

lemma submit_first_view:
  assumes pl: "plumbing w0 s" and i: "i < length (subs s)" "subs s ! i = SInside t b"
  shows "map_option queue_view (submit_first ts choice i s)
    = aenqueue_end choice i t (insert_spec ts b t (queue_of s)) (queue_view s)"
proof (cases b)
  case True
  with i submit_insert_view [OF pl enqueue_begin_refined [OF plumbingD(6) [OF pl]], of True choice i t ts t] show ?thesis
    by (simp add: submit_first_def insert_spec_def)
next
  case False
  with i submit_insert_view [OF pl refined_returned [OF try_enqueue_refined [OF plumbingD(6) [OF pl]]], of False choice i t ts t] show ?thesis
    by (simp add: submit_first_def insert_spec_def)
qed

lemma submit_resume_view:
  assumes pl: "plumbing w0 s" and i: "i < length (subs s)" "subs s ! i = SWaiting t" "qpcs s ! i = (if ok then EnqNotified t else EnqAsleep t)"
  shows "map_option queue_view (submit_resume ts ok choice i s)
    = aenqueue_end choice i t (spec_enqueue_resume ok ts t (queue_of s)) (queue_view s)"
proof -
  have "i < length (qpcs s)" using plumbingD(4) [OF pl] i(1) by (simp add: places_def)
  with i submit_insert_view [OF pl resume_refined(1) [OF pl], of True choice i t ts t ok] show ?thesis
    by (simp add: submit_resume_def)
qed

lemma worker_remove_view:
  assumes "plumbing w0 s" "refined (task_queue (core s)) (env s) outcome contract"
  shows "map_option queue_view (worker_remove choice j outcome s) = adequeue_end choice (worker_thread j s) contract (queue_view s)"
  using dequeue_end_refined [OF assms(2) plumbingD(7) [OF assms(1)], of choice "worker_thread j s" "queue_sys s"]
  by (auto simp: worker_remove_def option.map_comp comp_def)

lemma worker_take_view:
  assumes pl: "plumbing w0 s" and j: "j < length (crew s)" "crew s ! j = WLoop"
  shows "map_option queue_view (worker_take ts choice j s)
    = adequeue_end choice (worker_thread j s) (spec_dequeue ts (queue_of s)) (queue_view s)"
  using j worker_remove_view [OF pl dequeue_begin_refined [OF plumbingD(6) [OF pl]], of choice j ts]
  by (simp add: worker_take_def)

lemma worker_resume_view:
  assumes pl: "plumbing w0 s" and j: "j < length (crew s)" "crew s ! j = WWaiting"
    "qpcs s ! worker_thread j s = (if ok then DeqNotified else DeqAsleep)"
  shows "map_option queue_view (worker_resume ts ok choice j s)
    = adequeue_end choice (worker_thread j s) (spec_dequeue_resume ok ts (queue_of s)) (queue_view s)"
proof -
  have "worker_thread j s < length (qpcs s)" using plumbingD(4) [OF pl] j(1) by (simp add: places_def)
  with j worker_remove_view [OF pl resume_refined(2) [OF pl], of choice j ts ok] show ?thesis
    by (simp add: worker_resume_def)
qed

definition one_signal :: "signal list \<Rightarrow> bool" where
  "one_signal ks \<longleftrightarrow> ks = [] \<or> ks = [One_consumer] \<or> ks = [One_producer]"

lemma enqueue_woken:
  assumes "aenqueue_end choice i t (p, ks, A) S = Some S'" "i < length (apcs S)" "one_signal ks"
  shows "woken (apcs S') + of_bool (notified (apcs S ! i)) \<le> woken (apcs S) + length ks"
proof (cases p)
  case Asleep
  with assms settle_woken [of choice i "EnqAsleep t" ks A S S'] show ?thesis by (simp add: aenqueue_end_def one_signal_def)
next
  case (Returned r)
  with assms settle_woken [of choice i Idle ks A "if r = CONCURRENT_TASK_QUEUE_OK then S\<lparr>aaccepted := aaccepted S @ [t]\<rparr> else S" S']
  show ?thesis by (auto simp: aenqueue_end_def one_signal_def split: if_splits)
qed

lemma dequeue_woken:
  assumes "adequeue_end choice i (p, ks, A) S = Some S'" "i < length (apcs S)" "one_signal ks"
  shows "woken (apcs S') + of_bool (notified (apcs S ! i)) \<le> woken (apcs S) + length ks"
proof (cases p)
  case Asleep
  with assms settle_woken [of choice i DeqAsleep ks A S S'] show ?thesis by (simp add: adequeue_end_def one_signal_def)
next
  case (Returned rx)
  obtain r x where "rx = (r, x)" by (cases rx)
  with Returned assms settle_woken [of choice i Idle ks A "case x of None \<Rightarrow> S | Some t \<Rightarrow> S\<lparr>ataken := ataken S @ [t]\<rparr>" S']
  show ?thesis by (cases x) (simp_all add: adequeue_end_def one_signal_def)
qed

text \<open>What an insertion and a removal leave to do.\<close>

lemma insert_work:
  assumes "insert_spec ts b t A = (p, ks, A')"
  shows "one_signal ks" "8 * length (elems A') + length ks + sub_work (inserted b t p) < 8 * length (elems A) + 12"
  using assms by (auto simp: insert_spec_def spec_enqueue_def spec_try_enqueue_def at_once_def spec_insert_def one_signal_def
      inserted_def split: if_splits)

lemma insert_resume_work:
  assumes "spec_enqueue_resume ok ts t A = (p, ks, A')"
  shows "one_signal ks"
    "8 * length (elems A') + length ks + sub_work (inserted True t p) + of_bool (\<not> ok) \<le> 8 * length (elems A) + 11"
  using assms by (auto simp: spec_enqueue_resume_def spec_enqueue_def spec_insert_def one_signal_def Let_def
      inserted_def split: if_splits)

lemma remove_work:
  assumes "spec_dequeue ts A = (p, ks, A')"
  shows "one_signal ks" "8 * length (elems A') + length ks + worker_work m (removed p) < 8 * length (elems A) + m + 4"
  using assms by (auto simp: spec_dequeue_def spec_remove_def one_signal_def removed_def worker_received_def neq_Nil_conv
      split: if_splits)

lemma remove_resume_work:
  assumes "spec_dequeue_resume ok ts A = (p, ks, A')"
  shows "one_signal ks"
    "8 * length (elems A') + length ks + worker_work m (removed p) + of_bool (\<not> ok) \<le> 8 * length (elems A) + m + 3"
  using assms by (auto simp: spec_dequeue_resume_def spec_dequeue_def spec_remove_def one_signal_def removed_def Let_def
      worker_received_def neq_Nil_conv split: if_splits)

section \<open>Every step lowers the work\<close>

lemma sum_update:
  fixes f :: "'a \<Rightarrow> nat"
  assumes "i < length xs"
  shows "sum_list (map f (xs[i := x])) + f (xs ! i) = sum_list (map f xs) + f x"
  using assms
proof (induction xs arbitrary: i)
  case (Cons y ys)
  then show ?case by (cases i) auto
qed simp

lemma work_submitter:
  assumes "i < length (subs s)" "subs s' = (subs s)[i := p]" "crew s' = crew s" "ctl s' = ctl s"
    "woken (qpcs s') + 8 * length (elems (queue_of s')) + sub_work p < woken (qpcs s) + 8 * length (elems (queue_of s)) + sub_work (subs s ! i)"
  shows "work s' < work s"
  using sum_update [OF assms(1), of sub_work p] assms by (simp add: work_def Let_def)

lemma work_worker:
  assumes "j < length (crew s)" "subs s' = subs s" "crew s' = (crew s)[j := p]" "ctl s' = ctl s"
    "woken (qpcs s') + 8 * length (elems (queue_of s')) + worker_work (control_thread s) p
       < woken (qpcs s) + 8 * length (elems (queue_of s)) + worker_work (control_thread s) (crew s ! j)"
  shows "work s' < work s"
  using sum_update [OF assms(1), of "worker_work (control_thread s)" p] assms by (simp add: work_def Let_def)

lemma submit_first_work:
  assumes pl: "plumbing w0 s" and run: "submit_first ts choice i s = Some s'"
  shows "work s' < work s"
proof -
  obtain t b p ks A s1 where e: "i < length (subs s)" "subs s ! i = SInside t b" "insert_spec ts b t (queue_of s) = (p, ks, A)"
    "queue_moves s A (newly p t) [] s1" "s' = s1\<lparr>subs := (subs s)[i := inserted b t p]\<rparr>"
    using submit_first_effect [OF pl run] .
  note f = moved_fields [OF e(4)]
  have len: "i < length (qpcs s)" using plumbingD(4) [OF pl] e(1) by (simp add: places_def)
  have "aenqueue_end choice i t (p, ks, A) (queue_view s) = Some (queue_view s')"
    using submit_first_view [OF pl e(1,2), of ts choice] run e(3) by simp
  from enqueue_woken [OF this _ insert_work(1) [OF e(3)]] len
  have "woken (qpcs s') \<le> woken (qpcs s) + length ks" by simp
  with insert_work(2) [OF e(3)] show ?thesis
    by (intro work_submitter [OF e(1)]) (auto simp: e(5,2) f)
qed

lemma submit_resume_work:
  assumes pl: "plumbing w0 s" and run: "submit_resume ts ok choice i s = Some s'" "ok \<or> choice = None"
  shows "work s' < work s"
proof -
  obtain t p ks A s1 where e: "i < length (subs s)" "subs s ! i = SWaiting t" "spec_enqueue_resume ok ts t (queue_of s) = (p, ks, A)"
    "queue_moves s A (newly p t) [] s1" "s' = s1\<lparr>subs := (subs s)[i := inserted True t p]\<rparr>"
    using submit_resume_effect [OF pl run] .
  note f = moved_fields [OF e(4)]
  have q: "qpcs s ! i = (if ok then EnqNotified t else EnqAsleep t)" "i < length (qpcs s)"
    using run(1) e(1,2) by (auto simp: submit_resume_def split: if_splits)
  have "aenqueue_end choice i t (p, ks, A) (queue_view s) = Some (queue_view s')"
    using submit_resume_view [OF pl e(1,2) q(1), of ts choice] run(1) e(3) by simp
  from enqueue_woken [OF this _ insert_resume_work(1) [OF e(3)]] q
  have "woken (qpcs s') + of_bool ok \<le> woken (qpcs s) + length ks" by (cases ok) simp_all
  with insert_resume_work(2) [OF e(3)] show ?thesis
    by (intro work_submitter [OF e(1)]) (cases ok; auto simp: e(5,2) f)+
qed

lemma worker_take_work:
  assumes pl: "plumbing w0 s" and run: "worker_take ts choice j s = Some s'"
  shows "work s' < work s"
proof -
  obtain p ks A s1 where e: "j < length (crew s)" "crew s ! j = WLoop" "spec_dequeue ts (queue_of s) = (p, ks, A)"
    "queue_moves s A [] (handed_out p) s1" "s' = s1\<lparr>crew := (crew s)[j := removed p]\<rparr>"
    using worker_take_effect [OF pl run] .
  note f = moved_fields [OF e(4)]
  have len: "worker_thread j s < length (qpcs s)" using plumbingD(4) [OF pl] e(1) by (simp add: places_def)
  have "adequeue_end choice (worker_thread j s) (p, ks, A) (queue_view s) = Some (queue_view s')"
    using worker_take_view [OF pl e(1,2), of ts choice] run e(3) by simp
  from dequeue_woken [OF this _ remove_work(1) [OF e(3)]] len
  have "woken (qpcs s') \<le> woken (qpcs s) + length ks" by simp
  with remove_work(2) [OF e(3), of "control_thread s"] show ?thesis
    by (intro work_worker [OF e(1)]) (auto simp: e(5,2) f)
qed

lemma worker_resume_work:
  assumes pl: "plumbing w0 s" and run: "worker_resume ts ok choice j s = Some s'" "ok \<or> choice = None"
  shows "work s' < work s"
proof -
  obtain p ks A s1 where e: "j < length (crew s)" "crew s ! j = WWaiting" "spec_dequeue_resume ok ts (queue_of s) = (p, ks, A)"
    "queue_moves s A [] (handed_out p) s1" "s' = s1\<lparr>crew := (crew s)[j := removed p]\<rparr>"
    using worker_resume_effect [OF pl run] .
  note f = moved_fields [OF e(4)]
  have q: "qpcs s ! worker_thread j s = (if ok then DeqNotified else DeqAsleep)" "worker_thread j s < length (qpcs s)"
    using run(1) by (auto simp: worker_resume_def split: if_splits)
  have "adequeue_end choice (worker_thread j s) (p, ks, A) (queue_view s) = Some (queue_view s')"
    using worker_resume_view [OF pl e(1,2) q(1), of ts choice] run(1) e(3) by simp
  from dequeue_woken [OF this _ remove_resume_work(1) [OF e(3)]] q
  have "woken (qpcs s') + of_bool ok \<le> woken (qpcs s) + length ks" by (cases ok) simp_all
  with remove_resume_work(2) [OF e(3), of "control_thread s"] show ?thesis
    by (intro work_worker [OF e(1)]) (cases ok; auto simp: e(5,2) f)+
qed

lemma conclude_fields [simp]:
  "qpcs (conclude impl w s) = qpcs s" "subs (conclude impl w s) = subs s" "crew (conclude impl w s) = crew s"
  "enqd (conclude impl w s) = enqd s" "deqd (conclude impl w s) = deqd s"
  "ctl (conclude impl w s) = control_rouse impl (wakes w) (ctl s)"
  by (simp_all add: conclude_def)

lemma queued_same:
  assumes "plumbing w0 s" "plumbing w0 s'" "enqd s' = enqd s" "deqd s' = deqd s"
  shows "elems (queue_of s') = elems (queue_of s)"
  using plumbing_queue(1) [OF assms(1)] plumbing_queue(1) [OF assms(2)] assms(3,4) by (metis same_append_eq)

lemma notified_work: "control_work m n (control_notified c) \<le> Suc (control_work m n c)"
  by (cases c) simp_all

lemma rouse_work: "control_work m n (control_rouse impl ks c) \<le> Suc (control_work m n c)"
  using notified_work [of m n c] by (simp add: control_rouse_def split: option.splits)

lemma submit_leave_work:
  assumes pl: "plumbing w0 s" "plumbing w0 s'" and run: "submit_leave i s = Some s'"
  shows "work s' < work s"
proof -
  obtain r impl w where s': "i < length (subs s)" "subs s ! i = SLeaving r" "s' = (conclude impl w s)\<lparr>subs := (subs s)[i := SIdle]\<rparr>"
    using run by (auto simp: submit_leave_def split: if_splits submitter.splits prod.splits)
  have "elems (queue_of s') = elems (queue_of s)" by (rule queued_same [OF pl]) (simp_all add: s'(3))
  then show ?thesis using sum_update [OF s'(1), of sub_work SIdle] s'(2)
      rouse_work [of "control_thread s" "length (crew s)" impl "wakes w" "ctl s"]
    by (simp add: work_def Let_def) (simp add: s'(3))
qed

lemma worker_report_work:
  assumes pl: "plumbing w0 s" "plumbing w0 s'" and run: "worker_report j s = Some s'"
  shows "work s' < work s"
proof -
  obtain impl w p where s': "j < length (crew s)" "crew s ! j = WStarting" "s' = (conclude impl w s)\<lparr>crew := (crew s)[j := p]\<rparr>"
    "p = WLoop \<or> (\<exists>r. p = WFinished r)"
    using run by (auto simp: worker_report_def split: if_splits prod.splits option.splits)
  have "elems (queue_of s') = elems (queue_of s)" by (rule queued_same [OF pl]) (simp_all add: s'(3))
  then show ?thesis using sum_update [OF s'(1), of "worker_work (control_thread s)" p] s'(2,4)
      rouse_work [of "control_thread s" "length (crew s)" impl "wakes w" "ctl s"]
    by (simp add: work_def Let_def) (auto simp: s'(3))
qed

lemma worker_exit_work:
  assumes inv: "net_inv w0 s" and pl: "plumbing w0 s'" and run: "worker_exit j s = Some s'"
  shows "work s' < work s"
  using inv
proof (rule net_invE, goal_cases)
  case 1
  obtain r where j: "j < length (crew s)" "crew s ! j = WLeaving r"
    using run by (auto simp: worker_exit_def split: if_splits worker.splits)
  note th = employed_threads [OF 1(3) j(1)]
  have emp: "employed (crew s ! j)" using j(2) by (simp add: employed_def)
  have cok: "crew_ok (core s) (env s)" using custody_crew [OF plumbingD(1) [OF 1(1)]] th(2) [OF emp] by (simp add: staffed_def)
  have "busy (crew s ! j)" using j(2) by simp
  then have "tallied busy (crew s) \<noteq> 0" using j(1) by (auto simp: tallied_zero)
  then have some: "active_worker_count (core s) \<noteq> 0" using 1(3) by (auto simp: crew_inv_def)
  have s': "s' = s\<lparr>core := thread_ends j r (departed r (core s)), crew := (crew s)[j := WFinished r]\<rparr>"
    using run j run_worker_exit [OF cok some, of r] conclude_quiet [OF 1(1)] by (auto simp: worker_exit_def)
  have "elems (queue_of s') = elems (queue_of s)" by (rule queued_same [OF 1(1) pl]) (simp_all add: s')
  then show ?case by (intro work_worker [OF j(1)]) (auto simp: s' j(2))
qed

lemma worker_account_work:
  assumes pl: "plumbing w0 s" "plumbing w0 s'" and run: "worker_account j s = Some s'"
  shows "work s' < work s"
proof -
  obtain c p where s': "j < length (crew s)" "s' = s\<lparr>core := put_context j c (core s), crew := (crew s)[j := p]\<rparr>"
    "worker_work m p < worker_work m (crew s ! j)" for m
    using run by (auto simp: worker_account_def put_counts_def split: if_splits option.splits worker.splits prod.splits)
  have "elems (queue_of s') = elems (queue_of s)" by (rule queued_same [OF pl]) (simp_all add: s'(2))
  then show ?thesis using s'(3) by (intro work_worker [OF s'(1)]) (simp_all add: s'(2))
qed

lemma worker_callback_work: "worker_callback j r s = Some s' \<Longrightarrow> work s' < work s"
  by (auto simp: worker_callback_def split: if_splits worker.splits intro!: work_worker)

lemma shut_work:
  assumes pl: "plumbing w0 s" "plumbing w0 s1" and mv: "queue_moves s ((queue_of s)\<lparr>closed := True\<rparr>) [] [] s1"
  shows "woken (qpcs s1) \<le> control_thread s" "elems (queue_of s1) = elems (queue_of s)"
  using places_woken [OF plumbingD(4) [OF pl(2)]] moved_fields [OF mv] by simp_all

lemma worker_abandon_work:
  assumes pl: "plumbing w0 s" and run: "worker_abandon j s = Some s'"
  shows "work s' < work s"
proof -
  obtain r s1 where e: "j < length (crew s)" "crew s ! j = WShut r" "queue_moves s ((queue_of s)\<lparr>closed := True\<rparr>) [] [] s1"
    "s' = s1\<lparr>crew := (crew s)[j := WLeaving r]\<rparr>" "plumbing w0 s'" using worker_abandon_effect [OF pl run] .
  note f = moved_fields [OF e(3)]
  have "woken (qpcs s') \<le> control_thread s" using places_woken [OF plumbingD(4) [OF e(5)]] by (simp add: e(4) f)
  then show ?thesis by (intro work_worker [OF e(1)]) (auto simp: e(4,2) f)
qed

lemma work_control:
  assumes "plumbing w0 s" "plumbing w0 s'" "enqd s' = enqd s" "deqd s' = deqd s" "qpcs s' = qpcs s" "subs s' = subs s" "crew s' = crew s"
    "control_work (control_thread s) (length (crew s)) (ctl s') < control_work (control_thread s) (length (crew s)) (ctl s) + k"
  shows "work s' < work s + k"
  using queued_same [OF assms(1-4)] assms(5-) by (simp add: work_def Let_def)

lemma control_shut_work:
  assumes pl: "plumbing w0 s" and run: "net_shut (control_thread s) s = Some (r, s1)" "s' = s1\<lparr>ctl := c\<rparr>"
    and c: "control_work (control_thread s) (length (crew s)) c + control_thread s < control_work (control_thread s) (length (crew s)) (ctl s)"
  shows "work s' < work s"
proof -
  have e: "queue_moves s ((queue_of s)\<lparr>closed := True\<rparr>) [] [] s1" "plumbing w0 s1"
    using control_shut_effect [OF pl run(1)] by simp_all
  note f = moved_fields [OF e(1)]
  have "woken (qpcs s1) \<le> control_thread s" using places_woken [OF plumbingD(4) [OF e(2)]] by (simp add: f)
  with c show ?thesis by (simp add: work_def Let_def run(2) f)
qed

lemma create_work:
  assumes inv: "net_inv w0 s" and pl: "plumbing w0 s'" and c: "ctl s = CCreate i" and run: "control fs s = Some s'"
  shows "work s' < work s"
  using inv
proof (rule net_invE, goal_cases)
  case 1
  have st: "threads (core s) \<noteq> None" "i = unat (started_worker_count (core s))" "i \<le> length (crew s)"
    using 1(6) c by (simp_all add: control_inv_def)
  note len = plumbingD(8) [OF 1(1)]
  let ?m = "control_thread s" and ?n = "length (crew s)"
  show ?case
  proof (cases "i < ?n")
    case True
    have ab: "crew s ! i = WAbsent" using vacancy [OF 1(3) st(1,2) True len] by metis
    have less: "(?m + 7) * (?n - i) = (?m + 7) * (?n - Suc i) + (?m + 7)"
      using True by (simp add: Suc_diff_Suc [symmetric])
    obtain impl w where s': "s' = (conclude impl w s)\<lparr>ctl := CAbort\<rparr>
        \<or> s' = (conclude impl w s)\<lparr>ctl := CCreate (Suc i), crew := (crew s)[i := WStarting]\<rparr>"
      using run c True len by (auto simp: control_def control_create_def Let_def split: if_splits prod.splits)
    from s' have "elems (queue_of s') = elems (queue_of s)" by (intro queued_same [OF 1(1) pl]) auto
    then show ?thesis using s' less sum_update [OF True, of "worker_work ?m" WStarting]
      by (auto simp: work_def Let_def c ab)
  next
    case False
    then obtain p w where s': "s' = start_waited p (conclude (core s) w s)"
      using run c len by (auto simp: control_def control_create_def split: prod.splits)
    then show ?thesis
      using work_control [OF 1(1) pl, of 0] by (simp add: start_waited_def c split: progress.splits)
  qed
qed

text \<open>Where a wait of the controlling thread ends.\<close>

lemma resume_ctl:
  assumes inv: "net_inv w0 s" and run: "control_resume ok s = Some s'"
  obtains "control_notified (ctl s) = CStartNotified"
      "ctl s' = (if \<not> ok then CAbort else if ready_worker_count (core s) < worker_count (core s) then CStartAsleep else COpen)"
    | r where "control_notified (ctl s) = CShutNotified r" "ctl s' = (if ok \<and> inside (subs s) \<noteq> 0 then CShutAsleep r else CIdle)"
    | "control_notified (ctl s) = CJoinNotified"
      "ctl s' = (if \<not> ok then CIdle else if inside (subs s) = 0 then CRelease Joining 0 True SCHEDULER_OK else CJoinAsleep)"
  using inv
proof (rule net_invE, goal_cases)
  case 1
  note p = plumbingD [OF 1(4)]
  let ?w = "(env s)\<lparr>fate := [ok]\<rparr>"
  have gate: "gate_ok (core s) ?w" using p(5) by simp
  have ans: "next_answer ?w = ok" "tl (fate ?w) = []" by (simp_all add: next_answer_def)
  show ?case
  proof (cases "control_notified (ctl s)")
    case CStartNotified
    have "threads (core s) \<noteq> None" using 1(9) CStartNotified by (cases "ctl s") (simp_all add: control_inv_def)
    then have "crew_ok (core s) ?w" using custody_crew [OF p(1) running_sync [OF 1(6)]] by simp
    from 1(1) [OF CStartNotified] run_start_await_resume [OF this] run CStartNotified ans show ?thesis
      by (auto simp: control_resume_def start_waited_def split: if_splits)
  next
    case (CShutNotified r)
    from 1(2) [OF CShutNotified] run CShutNotified run_shutdown_resume [OF gate, of r] ans show ?thesis
      by (auto simp: control_resume_def awaited_inside [OF 1(5)] shutdown_waited_def shutdown_end_def call_returns_def
          split: if_splits)
  next
    case CJoinNotified
    from 1(3) [OF CJoinNotified] run CJoinNotified run_await_resume [OF gate] ans show ?thesis
      by (auto simp: control_resume_def awaited_inside [OF 1(5)] join_waited_def call_returns_def split: if_splits)
  qed (use run in \<open>simp_all add: control_resume_def\<close>)
qed

lemma resume_fields:
  assumes "control_resume ok s = Some s'"
  shows "enqd s' = enqd s" "deqd s' = deqd s" "qpcs s' = qpcs s" "subs s' = subs s" "crew s' = crew s"
  using assms by (auto simp: control_resume_def Let_def start_waited_def shutdown_waited_def join_waited_def call_returns_def
      split: controller.splits prod.splits progress.splits)

lemma resume_work:
  assumes inv: "net_inv w0 s" and pl: "plumbing w0 s'" and run: "control_resume ok s = Some s'"
    and "ok = (control_notified (ctl s) = ctl s)"
  shows "work s' < work s"
proof -
  have p: "plumbing w0 s" using inv by (simp add: net_inv_def)
  note wc = work_control [OF p pl resume_fields [OF run], of 0, simplified]
  show ?thesis using inv run
  proof (rule resume_ctl, goal_cases)
    case 1
    with assms(4) show ?thesis by (intro wc) (cases "ctl s"; auto)
  next
    case (2 r)
    with assms(4) show ?thesis by (intro wc) (cases "ctl s"; auto)
  next
    case 3
    with assms(4) show ?thesis by (intro wc) (cases "ctl s"; auto)
  qed
qed

lemma release_work:
  assumes inv: "net_inv w0 s" and pl: "plumbing w0 s'" and c: "ctl s = CRelease d i aj r" and run: "control fs s = Some s'"
  shows "work s' < work s"
  using inv
proof (rule net_invE, goal_cases)
  case 1
  let ?m = "control_thread s" and ?n = "length (crew s)"
  have started: "unat (started_worker_count (core s)) \<le> ?n"
    using 1(3) tallied_le [of "\<lambda>p. p \<noteq> WAbsent" "crew s"] by (auto simp: crew_inv_def split: if_splits)
  obtain impl w c' ws where s': "s' = (conclude impl w s)\<lparr>ctl := c', crew := ws\<rparr>"
    and ws: "ws = crew s \<or> ws = (crew s)[i := WJoined]" and c': "control_work ?m ?n c' < control_work ?m ?n (ctl s)"
  proof (cases "i < unat (started_worker_count (core s))")
    case True
    show ?thesis using run c True started that
      by (auto simp: control_def control_release_def split: if_splits prod.splits)
  next
    case False
    obtain r' impl w where o: "run_state (release_finish (aj, r, core s)) (env s) = ((r', impl), w)"
      by (metis prod_cases3 surj_pair)
    show ?thesis using run c False o that [where w = w and impl = impl and ws = "crew s" and c' = "case d of Aborting \<Rightarrow> CFail | Joining \<Rightarrow> CJoined r'"]
      by (cases d) (auto simp: control_def control_release_def)
  qed
  have "elems (queue_of s') = elems (queue_of s)" by (rule queued_same [OF 1(1) pl]) (simp_all add: s')
  moreover have "length ws = ?n" using ws by auto
  moreover have "sum_list (map (worker_work ?m) ws) \<le> sum_list (map (worker_work ?m) (crew s))"
  proof (cases "i < ?n")
    case True
    then show ?thesis using ws sum_update [OF True, of "worker_work ?m" WJoined] by fastforce
  next
    case False
    then have "ws = crew s" using ws by (metis list_update_beyond not_less)
    then show ?thesis by simp
  qed
  ultimately show ?case using c' by (simp add: work_def Let_def s')
qed

lemma control_step_work:
  assumes inv: "net_inv w0 s" and pl: "plumbing w0 s'" and run: "control fs s = Some s'"
  shows "work s' < work s"
proof -
  have p: "plumbing w0 s" using inv by (simp add: net_inv_def)
  note wc = work_control [OF p pl, of 0, simplified]
  show ?thesis
  proof (cases "ctl s")
    case (CCreate i)
    with create_work [OF inv pl _ run] show ?thesis by blast
  next
    case (CRelease d i aj r)
    with release_work [OF inv pl _ run] show ?thesis by blast
  next
    case CAbort
    with run show ?thesis by (auto simp: control_def intro!: control_shut_work [OF p])
  next
    case CShutQueue
    with run show ?thesis by (auto simp: control_def intro!: control_shut_work [OF p])
  next
    case CResources
    with run show ?thesis by (intro wc) (auto simp: control_def Let_def call_returns_def split: prod.splits if_splits)
  next
    case COpen
    with run show ?thesis by (intro wc) (auto simp: control_def Let_def call_returns_def split: prod.splits if_splits)
  next
    case CFail
    with run show ?thesis by (intro wc) (auto simp: control_def call_returns_def split: prod.splits)
  next
    case (CJoined r)
    with run show ?thesis by (intro wc) (auto simp: control_def call_returns_def split: prod.splits)
  next
    case (CShutAwait r)
    with run show ?thesis
      by (intro wc) (auto simp: control_def shutdown_waited_def call_returns_def split: prod.splits progress.splits)
  qed (use run resume_work [OF inv pl, of True] in \<open>auto simp: control_def control_resume_def\<close>)
qed

lemma lifecycle_work:
  assumes p: "plumbing w0 s" "plumbing w0 s'" and run: "lifecycle_call call s = Some s'"
  shows "work s' < work s + cost (control_thread s) (length (crew s)) (Lifecycle call)"
proof -
  have c: "ctl s = CIdle" using run by (simp add: lifecycle_call_def split: if_splits)
  note wc = work_control [OF p]
  show ?thesis
  proof (cases call)
    case Start_call
    with run c show ?thesis by (intro wc) (auto simp: lifecycle_call_def Let_def call_returns_def split: prod.splits if_splits)
  next
    case Shutdown_call
    with run c show ?thesis by (intro wc) (auto simp: lifecycle_call_def Let_def call_returns_def split: prod.splits option.splits)
  next
    case Join_call
    with run c show ?thesis
      by (intro wc) (auto simp: lifecycle_call_def join_waited_def call_returns_def
          split: prod.splits option.splits progress.splits if_splits)
  qed
qed

lemma submit_gate_work:
  assumes p: "plumbing w0 s" "plumbing w0 s'" and run: "submit_gate i t b s = Some s'"
  shows "work s' < work s + 13"
proof -
  obtain impl w x where s': "i < length (subs s)" "subs s ! i = SIdle" "s' = (conclude impl w s)\<lparr>subs := (subs s)[i := x]\<rparr>"
    "sub_work x \<le> 12" "ctl s' = ctl s"
    using run run_register [OF plumbingD(5) [OF p(1)], of t] plumbingD(7) [OF p(1)]
    by (auto simp: submit_gate_def split: if_splits prod.splits)
  have "elems (queue_of s') = elems (queue_of s)" by (rule queued_same [OF p]) (simp_all add: s'(3))
  then show ?thesis using sum_update [OF s'(1), of sub_work x] s'(2,4,5)
    by (simp add: work_def Let_def) (simp add: s'(3))
qed

lemma react_work:
  assumes inv: "net_inv w0 s" and pl: "plumbing w0 s'" and run: "react ts e s = Some s'"
  shows "work s' < work s + cost (control_thread s) (length (crew s)) e"
proof -
  have p: "plumbing w0 s" using inv by (simp add: net_inv_def)
  show ?thesis
  proof (cases e)
    case (Submit i t b)
    with run submit_gate_work [OF p pl] show ?thesis by (simp add: react_def)
  next
    case (Insert i c)
    with run submit_first_work [OF p] show ?thesis by (simp add: react_def)
  next
    case (Insert_resume i c)
    with run submit_resume_work [OF p, of ts True] show ?thesis by (simp add: react_def)
  next
    case (Insert_fail i)
    with run submit_resume_work [OF p, of ts False None] show ?thesis by (simp add: react_def)
  next
    case (Deregister i)
    with run submit_leave_work [OF p pl] show ?thesis by (simp add: react_def)
  next
    case (Ready j)
    with run worker_report_work [OF p pl] show ?thesis by (simp add: react_def)
  next
    case (Take j c)
    with run worker_take_work [OF p] show ?thesis by (simp add: react_def)
  next
    case (Take_resume j c)
    with run worker_resume_work [OF p, of ts True] show ?thesis by (simp add: react_def)
  next
    case (Take_fail j)
    with run worker_resume_work [OF p, of ts False None] show ?thesis by (simp add: react_def)
  next
    case (Account j)
    with run worker_account_work [OF p pl] show ?thesis by (simp add: react_def)
  next
    case (Callback j r)
    with run worker_callback_work show ?thesis by (simp add: react_def)
  next
    case (Abandon_queue j)
    with run worker_abandon_work [OF p] show ?thesis by (simp add: react_def)
  next
    case (Exit j)
    with run worker_exit_work [OF inv pl] show ?thesis by (simp add: react_def)
  next
    case (Lifecycle call)
    with run lifecycle_work [OF p pl] show ?thesis by (simp add: react_def)
  next
    case (Control fs)
    with run control_step_work [OF inv pl] show ?thesis by (simp add: react_def)
  next
    case (Spurious_wake i)
    with run have s': "i < length (qpcs s)" "s' = s\<lparr>qpcs := (qpcs s)[i := notify (qpcs s ! i)]\<rparr>"
      by (auto simp: react_def split: if_splits)
    then have "woken (qpcs s') \<le> Suc (woken (qpcs s))"
      using woken_update [OF s'(1), of "notify (qpcs s ! i)"] s'(2) by (cases "qpcs s ! i") simp_all
    with Spurious_wake show ?thesis by (simp add: work_def Let_def s'(2))
  next
    case Control_spurious
    with run have s': "s' = s\<lparr>ctl := control_notified (ctl s)\<rparr>" by (auto simp: react_def split: if_splits)
    show ?thesis unfolding Control_spurious s'
      by (rule work_control [OF p pl [unfolded s']])
        (use notified_work [of "control_thread s" "length (crew s)" "ctl s"] in simp_all)
  next
    case Control_fail
    with run resume_work [OF inv pl, of False] show ?thesis by (auto simp: react_def split: if_splits)
  qed
qed

end
