(* ===== verification/Scheduler_Progress.thy ===== *)
theory Scheduler_Progress
  imports Scheduler_Work
begin

text \<open>
  Progress of the whole scheduler: as long as a call is open, a task is queued or in work, or a
  worker is on its way out, some thread can take a step of its own; such steps come to an end;
  and then everything is done.
\<close>

section \<open>Steps of their own accord\<close>

text \<open>The steps that neither begin a call nor rest on a failure or a wake-up without reason.\<close>

fun prompt :: "event \<Rightarrow> bool" where
  "prompt (Submit i t b) \<longleftrightarrow> False"
| "prompt (Insert_fail i) \<longleftrightarrow> False"
| "prompt (Take_fail j) \<longleftrightarrow> False"
| "prompt (Spurious_wake i) \<longleftrightarrow> False"
| "prompt (Lifecycle call) \<longleftrightarrow> False"
| "prompt (Control fs) \<longleftrightarrow> fs = []"
| "prompt Control_spurious \<longleftrightarrow> False"
| "prompt Control_fail \<longleftrightarrow> False"
| "prompt e \<longleftrightarrow> True"

text \<open>
  Nobody has anything to do: no call is open, each worker is not there, has ended, or waits for
  a task, and none is queued if one waits.
\<close>

definition at_rest :: "net \<Rightarrow> bool" where
  "at_rest s \<longleftrightarrow> ctl s = CIdle \<and> (\<forall>p \<in> set (subs s). p = SIdle)
     \<and> (\<forall>p \<in> set (crew s). p = WAbsent \<or> p = WJoined \<or> p = WWaiting \<or> finished p)
     \<and> (WWaiting \<in> set (crew s) \<longrightarrow> elems (queue_of s) = [] \<and> \<not> closed (queue_of s))"

definition able :: "bool \<Rightarrow> net \<Rightarrow> bool" where
  "able ts s \<longleftrightarrow> (\<exists>e s'. prompt e \<and> react ts e s = Some s')"

lemma ableI: "prompt e \<Longrightarrow> react ts e s \<noteq> None \<Longrightarrow> able ts s"
  by (auto simp: able_def)

section \<open>Who can take a step\<close>

lemma insert_possible: "\<exists>choice S'. aenqueue_end choice i t (insert_spec ts b t A) S = Some S'"
proof (cases b)
  case True
  then show ?thesis using enqueue_possible by (simp add: insert_spec_def)
next
  case False
  then show ?thesis using signals_few(1) [of ts t A]
    by (cases "spec_insert ts t A")
      (auto simp: aenqueue_end_def insert_spec_def at_once_def spec_try_enqueue_def intro!: settle_possible)
qed

lemma view_possible: "map_option f x = Some y \<Longrightarrow> x \<noteq> None"
  by auto

lemma submitter_able:
  assumes pl: "plumbing w0 s" and i: "i < length (subs s)" "subs s ! i \<noteq> SIdle" "\<forall>t. qpcs s ! i \<noteq> EnqAsleep t"
  shows "able ts s"
proof (cases "subs s ! i")
  case (SInside t b)
  obtain c S where "aenqueue_end c i t (insert_spec ts b t (queue_of s)) (queue_view s) = Some S"
    using insert_possible by metis
  with submit_first_view [OF pl i(1) SInside] have "submit_first ts c i s \<noteq> None" by (metis view_possible)
  then show ?thesis by (intro ableI [of "Insert i c"]) (simp_all add: react_def)
next
  case (SWaiting t)
  then have q: "qpcs s ! i = (if True then EnqNotified t else EnqAsleep t)"
    using plumbingD(4) [OF pl] i(1,3) by (auto simp: places_def sub_place_def)
  obtain c S where "aenqueue_end c i t (spec_enqueue_resume True ts t (queue_of s)) (queue_view s) = Some S"
    using enqueue_possible by (fastforce simp: spec_enqueue_resume_def)
  with submit_resume_view [OF pl i(1) SWaiting q] have "submit_resume ts True c i s \<noteq> None" by (metis view_possible)
  then show ?thesis by (intro ableI [of "Insert_resume i c"]) (simp_all add: react_def)
next
  case (SLeaving r)
  then show ?thesis using i(1) by (intro ableI [of "Deregister i"]) (simp_all add: react_def submit_leave_def split: prod.splits)
qed (use i in simp)

lemma shut_able:
  assumes "plumbing w0 s"
  shows "net_shut i s \<noteq> None"
proof -
  note s = plumbingD [OF assms]
  obtain cq' where cq': "run_state (concurrent_task_queue_shutdown (Some (task_queue (core s)))) (env s)
      = ((CONCURRENT_TASK_QUEUE_OK, Some cq'), issue (task_queue (core s)) [All_consumers, All_producers] (env s))"
    using shutdown_refined [OF s(6)] by (auto elim!: refinedE)
  have "wakes (issue (task_queue (core s)) [All_consumers, All_producers] (env s))
      = map (native_wake (task_queue (core s))) [All_consumers, All_producers]"
    by (rule issue_wakes(1) [OF s(7)])
  then show ?thesis using cq' by (auto simp: net_shut_def settle_def native_wake_def split: signal.splits)
qed

lemma worker_able:
  assumes inv: "net_inv w0 s" and j: "j < length (crew s)" "employed (crew s ! j)" "\<not> finished (crew s ! j)"
    "qpcs s ! worker_thread j s \<noteq> DeqAsleep"
  shows "able ts s"
  using inv
proof (rule net_invE, goal_cases)
  case 1
  have "threads (core s) \<noteq> None" using employed_threads(1) [OF 1(3) j(1,2)] .
  then have "context_ok (core s) (crew s ! j) j" using 1(3) j(1) by (simp add: crew_inv_def)
  then have ctx: "context_at (core s) j \<noteq> None" by (auto simp: context_ok_def split: option.splits)
  have account: "able ts s" if "worker_account j s \<noteq> None"
    using that by (intro ableI [of "Account j"]) (simp_all add: react_def)
  show ?case
  proof (cases "crew s ! j")
    case WStarting
    then show ?thesis using j(1)
      by (intro ableI [of "Ready j"]) (auto simp: react_def worker_report_def split: prod.splits option.splits)
  next
    case WLoop
    obtain c S where "adequeue_end c (worker_thread j s) (spec_dequeue ts (queue_of s)) (queue_view s) = Some S"
      using dequeue_possible by metis
    with worker_take_view [OF 1(1) j(1) WLoop] have "worker_take ts c j s \<noteq> None" by (metis view_possible)
    then show ?thesis by (intro ableI [of "Take j c"]) (simp_all add: react_def)
  next
    case WWaiting
    then have q: "qpcs s ! worker_thread j s = (if True then DeqNotified else DeqAsleep)"
      using plumbingD(4) [OF 1(1)] j(1,4) by (auto simp: places_def worker_place_def)
    obtain c S where "adequeue_end c (worker_thread j s) (spec_dequeue_resume True ts (queue_of s)) (queue_view s) = Some S"
      using dequeue_possible by (fastforce simp: spec_dequeue_resume_def)
    with worker_resume_view [OF 1(1) j(1) WWaiting q] have "worker_resume ts True c j s \<noteq> None" by (metis view_possible)
    then show ?thesis by (intro ableI [of "Take_resume j c"]) (simp_all add: react_def)
  next
    case (WRunning t b)
    then show ?thesis using j(1) by (intro ableI [of "Callback j 0"]) (simp_all add: react_def worker_callback_def)
  next
    case (WShut r)
    then show ?thesis using j(1) shut_able [OF 1(1)]
      by (intro ableI [of "Abandon_queue j"]) (auto simp: react_def worker_abandon_def)
  next
    case (WLeaving r)
    then show ?thesis using j(1) by (intro ableI [of "Exit j"]) (auto simp: react_def worker_exit_def split: prod.splits)
  qed (use j ctx account in \<open>auto simp: employed_def worker_account_def put_counts_def split: prod.splits\<close>)
qed

section \<open>If nobody can\<close>

text \<open>Then every open call of a submitter and every live worker sleeps, and nobody was woken.\<close>

lemma stuck_threads:
  assumes inv: "net_inv w0 s" and stuck: "\<not> able ts s"
  shows "i < length (subs s) \<Longrightarrow> subs s ! i = SIdle \<or> (\<exists>t. qpcs s ! i = EnqAsleep t)"
    "j < length (crew s) \<Longrightarrow> \<not> employed (crew s ! j) \<or> finished (crew s ! j)
       \<or> crew s ! j = WWaiting \<and> qpcs s ! worker_thread j s = DeqAsleep"
proof -
  have pl: "plumbing w0 s" using inv by (simp add: net_inv_def)
  show "i < length (subs s) \<Longrightarrow> subs s ! i = SIdle \<or> (\<exists>t. qpcs s ! i = EnqAsleep t)"
    using submitter_able [OF pl] stuck by blast
  assume j: "j < length (crew s)"
  then have "worker_place (crew s ! j) (qpcs s ! worker_thread j s)" using plumbingD(4) [OF pl] by (simp add: places_def)
  moreover have "\<not> employed (crew s ! j) \<or> finished (crew s ! j) \<or> qpcs s ! worker_thread j s = DeqAsleep"
    using worker_able [OF inv j] stuck by blast
  ultimately show "\<not> employed (crew s ! j) \<or> finished (crew s ! j)
       \<or> crew s ! j = WWaiting \<and> qpcs s ! worker_thread j s = DeqAsleep"
    by (auto simp: worker_place_def split: worker.splits)
qed

lemma stuck_woken:
  assumes inv: "net_inv w0 s" and stuck: "\<not> able ts s"
  shows "woken (qpcs s) = 0"
proof -
  have pl: "places (qpcs s) (subs s) (crew s)" using inv plumbingD(4) by (auto simp: net_inv_def)
  have "\<not> notified (qpcs s ! k)" if k: "k < length (qpcs s)" for k
  proof -
    consider (sub) "k < length (subs s)" | (worker) j where "j < length (crew s)" "k = worker_thread j s" | (control) "k = control_thread s"
      using k pl unfolding places_def by (metis add.assoc add_diff_inverse_nat less_Suc_eq nat_add_left_cancel_less)
    then show ?thesis
    proof cases
      case sub
      then have "sub_place (subs s ! k) (qpcs s ! k)" using pl by (simp add: places_def)
      then show ?thesis using stuck_threads(1) [OF assms sub] by (auto simp: sub_place_def)
    next
      case worker
      then have "worker_place (crew s ! j) (qpcs s ! k)" using pl by (simp add: places_def)
      then show ?thesis using stuck_threads(2) [OF assms worker(1)] worker(2)
        by (cases "crew s ! j") (auto simp: worker_place_def employed_def)
    next
      case control
      then show ?thesis using pl by (simp add: places_def)
    qed
  qed
  then show ?thesis by (auto simp: woken_def num_zero list_ex_length)
qed

lemma stuck_queue:
  assumes inv: "net_inv w0 s" and stuck: "\<not> able ts s"
  shows "DeqAsleep \<in> set (qpcs s) \<Longrightarrow> elems (queue_of s) = [] \<and> \<not> closed (queue_of s)"
    "EnqAsleep t \<in> set (qpcs s) \<Longrightarrow> elems (queue_of s) \<noteq> [] \<and> \<not> closed (queue_of s)"
proof -
  have a: "ainv (queue_view s)" using inv plumbingD(3) by (auto simp: net_inv_def sys_inv_def)
  have w: "num deq_notified (qpcs s) = 0" "num enq_notified (qpcs s) = 0"
    using stuck_woken [OF assms] by (simp_all add: woken_split)
  show "DeqAsleep \<in> set (qpcs s) \<Longrightarrow> elems (queue_of s) = [] \<and> \<not> closed (queue_of s)"
    using a w asleep_num(1) [of "qpcs s"] by (simp add: ainv_def)
  show "EnqAsleep t \<in> set (qpcs s) \<Longrightarrow> elems (queue_of s) \<noteq> [] \<and> \<not> closed (queue_of s)"
    using a w asleep_num(2) [of t "qpcs s"] by (auto simp: ainv_def)
qed

lemma place_in:
  assumes "plumbing w0 s"
  shows "i < length (subs s) \<Longrightarrow> qpcs s ! i \<in> set (qpcs s)" "j < length (crew s) \<Longrightarrow> qpcs s ! worker_thread j s \<in> set (qpcs s)"
  using plumbingD(4) [OF assms] by (auto simp: places_def)

text \<open>
  A submitter that sleeps would sleep at a full open queue; but then the workers are all there,
  and at an open queue that is not empty none of them sleeps.
\<close>

lemma stuck_submitters:
  assumes inv: "net_inv w0 s" and stuck: "\<not> able ts s" and i: "i < length (subs s)"
  shows "subs s ! i = SIdle"
  using inv
proof (rule net_invE, goal_cases)
  case 1
  show ?case
  proof (rule ccontr)
    assume out: "subs s ! i \<noteq> SIdle"
    then obtain t where "qpcs s ! i = EnqAsleep t" using stuck_threads(1) [OF inv stuck i] by auto
    then have full: "elems (queue_of s) \<noteq> []" "\<not> closed (queue_of s)"
      using stuck_queue(2) [OF inv stuck, of t] place_in(1) [OF 1(1) i] by auto
    obtain j where j: "j < length (crew s)" using plumbingD(9) [OF 1(1)] by blast
    have "crew s ! j \<noteq> WAbsent" using inside_open(2) [OF 1(7) i out] nth_mem [OF j] by metis
    moreover have "\<not> withdrawn (crew s ! j)" using 1(5) full(2) nth_mem [OF j] by (auto simp: drain_inv_def)
    ultimately have "qpcs s ! worker_thread j s = DeqAsleep"
      using stuck_threads(2) [OF inv stuck j] by (cases "crew s ! j") (auto simp: employed_def)
    then show False using stuck_queue(1) [OF inv stuck] place_in(2) [OF 1(1) j] full(1) by auto
  qed
qed

lemma control_able:
  assumes "control [] s \<noteq> None"
  shows "able ts s"
  using assms by (intro ableI [of "Control []"]) (simp_all add: react_def)

lemma stuck_control:
  assumes inv: "net_inv w0 s" and stuck: "\<not> able ts s"
  shows "ctl s = CIdle"
  using inv
proof (rule net_invE, goal_cases)
  case 1
  have none: "control [] s = None" using control_able stuck by blast
  have idle: "inside (subs s) = 0" using stuck_submitters [OF inv stuck] by (simp add: tallied_zero)
  have awake: "\<not> employed (crew s ! j) \<or> finished (crew s ! j)" if "j < length (crew s)" "closed (queue_of s)" for j
    using stuck_threads(2) [OF inv stuck that(1)] stuck_queue(1) [OF inv stuck] place_in(2) [OF 1(1) that(1)] that(2) by auto
  note shut = shut_able [OF 1(1), of "control_thread s"]
  show ?case
  proof (cases "ctl s")
    case (CRelease d i aj r)
    then have cl: "closed (queue_of s)" using 1(6) by (simp add: control_inv_def)
    have "join_enabled i [] s" if "i < unat (started_worker_count (core s))"
    proof -
      have i: "i < length (crew s)"
        using that 1(3) tallied_le [of "\<lambda>p. p \<noteq> WAbsent" "crew s"] by (auto simp: crew_inv_def split: if_splits)
      then show ?thesis using awake [OF i cl] 1(3) by (auto simp: join_enabled_def crew_inv_def)
    qed
    then show ?thesis using none CRelease by (auto simp: control_def control_release_def split: if_splits prod.splits)
  next
    case CStartAsleep
    then have c: "complete (crew s)" "ready_worker_count (core s) < worker_count (core s)" "threads (core s) \<noteq> None"
      using 1(6) by (simp_all add: control_inv_def)
    then have "tallied has_reported (crew s) \<noteq> length (crew s)"
      using 1(3) plumbingD(8) [OF 1(1)] by (auto simp: crew_inv_def word_less_nat_alt)
    then obtain j where j: "j < length (crew s)" "\<not> has_reported (crew s ! j)" by (auto simp: tallied_all)
    then have "crew s ! j = WStarting" using c(1) nth_mem [OF j(1)] by (metis has_reported_def)
    then show ?thesis using stuck_threads(2) [OF inv stuck j(1)] by (simp add: employed_def)
  qed (use none shut idle 1(6) in \<open>auto simp: control_def control_create_def control_resume_def control_inv_def Let_def
    split: prod.splits if_splits\<close>)
qed

lemma not_stuck:
  assumes inv: "net_inv w0 s" and "\<not> at_rest s"
  shows "able ts s"
proof (rule ccontr)
  assume stuck: "\<not> able ts s"
  have pl: "plumbing w0 s" using inv by (simp add: net_inv_def)
  have "p = SIdle" if "p \<in> set (subs s)" for p using stuck_submitters [OF inv stuck] that by (metis in_set_conv_nth)
  moreover have "p = WAbsent \<or> p = WJoined \<or> p = WWaiting \<or> finished p" if p: "p \<in> set (crew s)" for p
  proof -
    obtain j where j: "j < length (crew s)" "crew s ! j = p" using p by (auto simp: in_set_conv_nth)
    from stuck_threads(2) [OF inv stuck j(1)] show ?thesis unfolding j(2) employed_def by blast
  qed
  moreover have "elems (queue_of s) = [] \<and> \<not> closed (queue_of s)" if w: "WWaiting \<in> set (crew s)"
  proof -
    obtain j where j: "j < length (crew s)" "crew s ! j = WWaiting" using w by (auto simp: in_set_conv_nth)
    then show ?thesis using stuck_threads(2) [OF inv stuck j(1)] stuck_queue(1) [OF inv stuck] place_in(2) [OF pl j(1)]
      by (auto simp: employed_def)
  qed
  ultimately show False using stuck_control [OF inv stuck] assms(2) by (auto simp: at_rest_def)
qed

section \<open>Runs\<close>

text \<open>A step of a scheduler that has not used up its counters.\<close>

definition timely :: "bool \<Rightarrow> event \<Rightarrow> net \<Rightarrow> net option" where
  "timely ts e s = (if Suc (ticks s) < 2 ^ 64 then net_step ts e s else None)"

lemma timely_run:
  "ticks s + length es < 2 ^ 64 \<Longrightarrow> run_actions (timely ts) es s = run_actions (net_step ts) es s"
proof (induction es arbitrary: s)
  case (Cons e es)
  have "ticks t = Suc (ticks s)" if "net_step ts e s = Some t" for t using that by (auto simp: net_step_def)
  with Cons show ?case by (simp add: timely_def split: option.splits)
qed simp

lemma timely_ticks: "run_actions (timely ts) es s = Some s' \<Longrightarrow> ticks s' = ticks s + length es"
proof (induction es arbitrary: s)
  case (Cons e es)
  then obtain t where t: "timely ts e s = Some t" "run_actions (timely ts) es t = Some s'" by (auto split: option.splits)
  then have "ticks t = Suc (ticks s)" by (auto simp: timely_def net_step_def split: if_splits)
  with Cons.IH [OF t(2)] show ?case by simp
qed simp

lemma timely_reachable: "reachable w0 ts s \<Longrightarrow> run_actions (timely ts) es s = Some s' \<Longrightarrow> reachable w0 ts s'"
proof (induction es arbitrary: s)
  case (Cons e es)
  then obtain t where t: "timely ts e s = Some t" "run_actions (timely ts) es t = Some s'" by (auto split: option.splits)
  then have "net_step ts e s = Some t" "ticks t < 2 ^ 64" by (auto simp: timely_def net_step_def split: if_splits)
  from reachable.step [OF Cons.prems(1) this] Cons.IH t(2) show ?case by blast
qed simp

definition same_sizes :: "net \<Rightarrow> net \<Rightarrow> bool" where
  "same_sizes s s' \<longleftrightarrow> length (subs s') = length (subs s) \<and> length (crew s') = length (crew s)"

lemma control_sizes: "control fs s = Some s' \<Longrightarrow> same_sizes s s'"
  by (cases "ctl s") (auto simp: control_def control_create_def control_release_def control_resume_def net_shut_def Let_def
      start_waited_def shutdown_waited_def join_waited_def call_returns_def same_sizes_def
      split: if_splits prod.splits progress.splits)

lemma worker_sizes:
  "worker_report j s = Some s' \<Longrightarrow> same_sizes s s'" "worker_remove c j x s = Some s' \<Longrightarrow> same_sizes s s'"
  "worker_account j s = Some s' \<Longrightarrow> same_sizes s s'" "worker_callback j r s = Some s' \<Longrightarrow> same_sizes s s'"
  "worker_abandon j s = Some s' \<Longrightarrow> same_sizes s s'" "worker_exit j s = Some s' \<Longrightarrow> same_sizes s s'"
  by (auto simp: worker_report_def worker_remove_def worker_account_def put_counts_def worker_callback_def
      worker_abandon_def worker_exit_def net_shut_def same_sizes_def
      split: if_splits prod.splits option.splits worker.splits)

lemma submitter_sizes:
  "submit_gate i t b s = Some s' \<Longrightarrow> same_sizes s s'" "submit_insert b c i t x s = Some s' \<Longrightarrow> same_sizes s s'"
  "submit_leave i s = Some s' \<Longrightarrow> same_sizes s s'"
  by (auto simp: submit_gate_def submit_insert_def submit_leave_def same_sizes_def
      split: if_splits prod.splits option.splits submitter.splits)

lemma lifecycle_sizes: "lifecycle_call call s = Some s' \<Longrightarrow> same_sizes s s'"
  by (cases call) (auto simp: lifecycle_call_def call_returns_def join_waited_def Let_def same_sizes_def
      split: if_splits prod.splits option.splits progress.splits)

lemma react_sizes: "react ts e s = Some s' \<Longrightarrow> same_sizes s s'"
  by (cases e) (auto simp: react_def submit_first_def submit_resume_def worker_take_def worker_resume_def
      split: if_splits submitter.splits dest: control_sizes worker_sizes submitter_sizes lifecycle_sizes resume_fields
      simp: same_sizes_def)

definition sized :: "world \<Rightarrow> nat \<Rightarrow> nat \<Rightarrow> net \<Rightarrow> bool" where
  "sized w0 m n s \<longleftrightarrow> net_inv w0 s \<and> ticks s < 2 ^ 64 \<and> control_thread s = m \<and> length (crew s) = n"

lemma work_ticks [simp]: "work (s\<lparr>ticks := k\<rparr>) = work s"
  by (simp add: work_def)

lemma sized_step:
  assumes "sized w0 m n s" "timely ts e s = Some s'"
  shows "sized w0 m n s'" "work s' < work s + cost m n e"
proof -
  obtain s1 where s1: "react ts e s = Some s1" "s' = s1\<lparr>ticks := Suc (ticks s)\<rparr>" "Suc (ticks s) < 2 ^ 64"
    using assms(2) by (auto simp: timely_def net_step_def split: if_splits)
  have inv: "net_inv w0 s" "net_inv w0 s'" using assms(1) react_inv [OF _ _ s1(1)] s1(2,3) by (simp_all add: sized_def)
  then show "sized w0 m n s'" using assms(1) react_sizes [OF s1(1)] s1(2,3) by (simp add: sized_def same_sizes_def)
  have "plumbing w0 s1" using inv(2) by (simp add: net_inv_def s1(2))
  from react_work [OF inv(1) this s1(1)] assms(1) show "work s' < work s + cost m n e" by (auto simp: s1(2) sized_def)
qed

interpretation busy_system: progressive_system "timely ts" "sized w0 m n" work "cost m n" prompt
    "\<lambda>s. at_rest s \<or> Suc (ticks s) = 2 ^ 64" for ts w0 m n
proof
  fix s e s' assume "sized w0 m n s" "timely ts e s = Some s'"
  then show "sized w0 m n s'" "work s' < work s + cost m n e" by (rule sized_step)+
next
  fix e show "prompt e \<Longrightarrow> cost m n e = 0" by (cases e) simp_all
next
  fix s assume s: "sized w0 m n s" "\<not> (at_rest s \<or> Suc (ticks s) = 2 ^ 64)"
  then have "able ts s" using not_stuck by (auto simp: sized_def)
  then show "\<exists>e s'. prompt e \<and> timely ts e s = Some s'"
    using s by (auto simp: able_def timely_def net_step_def sized_def)
qed

section \<open>At rest\<close>

lemma rest_idle:
  assumes "at_rest s"
  shows "concat (map holds (crew s)) = []"
proof -
  have "holds p = []" if "p \<in> set (crew s)" for p
  proof -
    have "p = WAbsent \<or> p = WJoined \<or> p = WWaiting \<or> finished p" using assms that by (simp add: at_rest_def)
    then show ?thesis by (cases p) auto
  qed
  then show ?thesis by simp
qed

lemma rest_drained:
  assumes inv: "net_inv w0 s" and rest: "at_rest s" and "\<not> worker_infrastructure_failure (core s)"
  shows "elems (queue_of s) = []"
  using inv
proof (rule net_invE, goal_cases)
  case 1
  show ?case
  proof (cases "complete (crew s)")
    case False
    then have "enqd s = []" using 1(7) by (simp add: state_inv_def)
    with plumbing_queue(1) [OF 1(1)] show ?thesis by simp
  next
    case True
    obtain p where p: "p \<in> set (crew s)" using plumbingD(9) [OF 1(1)] by (cases "crew s") auto
    then have d: "leaves_well p \<longrightarrow> dry (queue_of s)" "p = WJoined \<longrightarrow> dry (queue_of s)" "\<forall>r. p = WFinished r \<longrightarrow> r = 0"
      using 1(5) assms(3) by (auto simp: drain_inv_def)
    have "p = WJoined \<or> p = WWaiting \<or> finished p" using rest p True by (auto simp: at_rest_def)
    then show ?thesis using d rest p by (cases p) (auto simp: at_rest_def dry_def)
  qed
qed

lemma rest_done:
  assumes inv: "net_inv w0 s" and rest: "at_rest s" and ok: "\<not> worker_infrastructure_failure (core s)"
  shows "mset (map (\<lambda>x. fst (snd x)) (called s)) = mset (enqd s)"
  using inv
proof (rule net_invE, goal_cases)
  case 1
  have "deqd s = enqd s" using plumbing_queue(1) [OF 1(1)] rest_drained [OF inv rest ok] by simp
  then show ?case using 1(4) rest_idle [OF rest] by (simp add: account_inv_def)
qed

lemma reachable_sized: "reachable w0 ts s \<Longrightarrow> sized w0 (control_thread s) (length (crew s)) s"
  using reachable_net_inv by (simp add: sized_def)

lemma prompt_run:
  assumes r: "reachable w0 ts s" and t: "Suc (ticks s + work s) < 2 ^ 64"
    and run: "run_actions (net_step ts) es s = Some s'" "\<forall>e \<in> set es. prompt e"
  shows "length es \<le> work s" "reachable w0 ts s'"
proof -
  let ?m = "control_thread s" and ?n = "length (crew s)"
  have free: "cost ?m ?n e = 0" if "e \<in> set es" for e using run(2) that busy_system.prompt_free by blast
  show len: "length es \<le> work s"
  proof (rule ccontr)
    assume "\<not> length es \<le> work s"
    then have k: "length (take (Suc (work s)) es) = Suc (work s)" by simp
    obtain s1 where s1: "run_actions (net_step ts) (take (Suc (work s)) es) s = Some s1"
      using run(1) run_append [of "net_step ts" "take (Suc (work s)) es" "drop (Suc (work s)) es" s]
      by (cases "run_actions (net_step ts) (take (Suc (work s)) es) s") auto
    then have "run_actions (timely ts) (take (Suc (work s)) es) s = Some s1"
      using timely_run [of s "take (Suc (work s)) es" ts] t k by simp
    from busy_system.free_run [OF reachable_sized [OF r] this] free k show False by (auto dest: in_set_takeD)
  qed
  then have "run_actions (timely ts) es s = Some s'" using timely_run [of s es ts] t run(1) by simp
  then show "reachable w0 ts s'" by (rule timely_reachable [OF r])
qed

section \<open>Properties\<close>

text \<open>
  C7. The work of the scheduler is bounded by the calls made to it: in every run, whatever fails and
  however the threads interleave, the number of steps is at most the work that was left at its
  beginning plus a fixed amount for each call of submit, start, shutdown and join and for each
  spurious wake-up in it. So the loops of the workers, of the waits and of the joins do not run
  forever by themselves.
\<close>

theorem steps_bounded:
  assumes "reachable w0 ts s" "run_actions (net_step ts) es s = Some s'" "ticks s + length es < 2 ^ 64"
  shows "length es + work s' \<le> work s + sum_list (map (cost (length (subs s) + length (crew s)) (length (crew s))) es)"
  using busy_system.run_work [OF reachable_sized [OF assms(1)], of ts es s'] timely_run [OF assms(3), of ts] assms(2) by simp

theorem steps_bounded_witness:
  "\<exists>s. run_actions (net_step True) (take 17 demo_events) demo_net = Some s \<and> 17 + work s \<le> 34"
proof -
  have "map_option (\<lambda>s. ()) (run_actions (net_step True) (take 17 demo_events) demo_net) = Some ()" by code_simp
  then obtain s where s: "run_actions (net_step True) (take 17 demo_events) demo_net = Some s" by auto
  have n: "length (take 17 demo_events) = 17" by code_simp
  have w: "work demo_net + sum_list (map (cost (length (subs demo_net) + length (crew demo_net)) (length (crew demo_net)))
      (take 17 demo_events)) = 34" by code_simp
  from steps_bounded [OF demo_start(1) s] demo_start(2) n w s show ?thesis by simp
qed

text \<open>
  C3. No deadlock in the whole scheduler: in every reachable state, whatever failed before, either some thread can
  take its next step of its own accord (without a new call, a failure or a spurious wake-up), or
  everything is at rest: no call of submit, try-submit, start, shutdown or join is open, and every
  worker is not there, has ended, or waits at an open and empty queue.
\<close>

theorem scheduler_deadlock_free:
  assumes "reachable w0 ts s" "\<not> at_rest s"
  shows "\<exists>e s'. prompt e \<and> net_step ts e s = Some s'"
proof -
  have "able ts s" using not_stuck [OF _ assms(2)] reachable_net_inv [OF assms(1)] by blast
  then show ?thesis by (auto simp: able_def net_step_def)
qed

theorem scheduler_deadlock_free_witness:
  "\<exists>s e s'. run_actions (net_step True) (take 20 demo_events) demo_net = Some s \<and> prompt e \<and> net_step True e s = Some s'"
proof -
  have "map_option at_rest (run_actions (net_step True) (take 20 demo_events) demo_net) = Some False" by code_simp
  then obtain s where s: "run_actions (net_step True) (take 20 demo_events) demo_net = Some s" "\<not> at_rest s" by auto
  have "reachable sched_world True s" by (rule demo_reachable [OF s(1)]) (simp add: demo_events_def)
  from scheduler_deadlock_free [OF this s(2)] s(1) show ?thesis by blast
qed

text \<open>
  C2. Every call returns and every accepted task is called back: left to itself, the scheduler comes to
  rest, and it does so however its threads are scheduled. Every sequence of steps of their own
  accord is at most as long as the work left, and when no further one is possible, no call is
  open, and unless a worker has failed every task accepted so far was passed to the callback
  exactly once.
\<close>

theorem scheduler_settles:
  assumes "reachable w0 ts s" "Suc (ticks s + work s) < 2 ^ 64"
  shows "(\<exists>es s'. (\<forall>e \<in> set es. prompt e) \<and> run_actions (net_step ts) es s = Some s' \<and> at_rest s')
    \<and> (\<forall>es s'. (\<forall>e \<in> set es. prompt e) \<and> run_actions (net_step ts) es s = Some s' \<longrightarrow>
         length es \<le> work s
       \<and> ((\<forall>e. prompt e \<longrightarrow> net_step ts e s' = None) \<longrightarrow> at_rest s'
           \<and> (\<not> worker_infrastructure_failure (core s') \<longrightarrow>
                mset (map (\<lambda>x. fst (snd x)) (called s')) = mset (enqd s'))))"
proof -
  note sized = reachable_sized [OF assms(1)]
  have "\<exists>es s'. (\<forall>e \<in> set es. prompt e) \<and> run_actions (net_step ts) es s = Some s' \<and> at_rest s'"
  proof -
    obtain es s' where es: "\<forall>e \<in> set es. prompt e" "run_actions (timely ts) es s = Some s'"
      "at_rest s' \<or> Suc (ticks s') = 2 ^ 64" "length es + work s' \<le> work s"
      using busy_system.comes_to_rest [OF sized, of ts] by blast
    have "at_rest s'" using es(3,4) timely_ticks [OF es(2)] assms(2) by auto
    moreover have "run_actions (net_step ts) es s = Some s'" using timely_run [of s es ts] es(2,4) assms(2) by simp
    ultimately show ?thesis using es(1) by blast
  qed
  moreover have "at_rest s' \<and> (\<not> worker_infrastructure_failure (core s') \<longrightarrow>
      mset (map (\<lambda>x. fst (snd x)) (called s')) = mset (enqd s'))"
    if "\<forall>e \<in> set es. prompt e" "run_actions (net_step ts) es s = Some s'" "\<forall>e. prompt e \<longrightarrow> net_step ts e s' = None" for es s'
  proof -
    have inv: "net_inv w0 s'" using prompt_run(2) [OF assms that(2,1)] reachable_net_inv by blast
    have "\<not> able ts s'" using that(3) by (auto simp: able_def net_step_def)
    then have "at_rest s'" using not_stuck [OF inv] by blast
    with rest_done [OF inv] show ?thesis by blast
  qed
  ultimately show ?thesis using prompt_run(1) [OF assms] by blast
qed

theorem scheduler_settles_witness:
  "\<exists>s es s'. run_actions (net_step True) (take 9 demo_events) demo_net = Some s \<and> enqd s = [42]
     \<and> (\<forall>e \<in> set es. prompt e) \<and> run_actions (net_step True) es s = Some s' \<and> at_rest s'"
proof -
  have "map_option (\<lambda>s. (enqd s, ticks s + work s < 100)) (run_actions (net_step True) (take 9 demo_events) demo_net)
      = Some ([42], True)" by code_simp
  then obtain s where s: "run_actions (net_step True) (take 9 demo_events) demo_net = Some s" "enqd s = [42]"
    "ticks s + work s < 100" by auto
  have "reachable sched_world True s" by (rule demo_reachable [OF s(1)]) simp
  from scheduler_settles [OF this] s show ?thesis by auto
qed

end
