(* ===== verification/Live_Validation.thy ===== *)
theory Live_Validation
  imports Scheduler_Run
begin

text \<open>
  Snapshots of a scheduler at work: what a capture reads in a reachable state, which bounds it
  always respects, and the one bound of the live validation that a sound run can miss.
\<close>

section \<open>The sums over the worker contexts\<close>





section \<open>What the contexts add up to\<close>









section \<open>The domains of a capture\<close>







section \<open>The bounds of a live snapshot\<close>




section \<open>Alarms\<close>

text \<open>
  What an observer of the run learns: the live validation of a snapshot taken now, and the
  health derived from it.
\<close>

definition alarm :: "net \<Rightarrow> (SchedulerValidationIssue list \<times> SchedulerHealth option) option" where
  "alarm s = (case fst (run_state (scheduler_capture_snapshot (Some \<lparr>sched_impl = Some (core s)\<rparr>) True) (env s)) of
     None \<Rightarrow> None
   | Some snap \<Rightarrow> map_option (\<lambda>r. (map rec_issue (take (unat (res_issue_count r)) (res_issues r)),
         scheduler_snapshot_derive_health (Some snap) (Some r) True))
       (scheduler_snapshot_validate (Some snap) SCHEDULER_VALIDATION_LIVE True))"

text \<open>
  The worker domain reads each context one counter after the other while its worker goes on:
  here the number of tasks taken out is read in \<open>s\<close>, and what follows in the loop in \<open>s'\<close>.
\<close>

definition torn_context :: "WorkerContext \<Rightarrow> WorkerContext \<Rightarrow> WorkerContext" where
  "torn_context c c' = c'\<lparr>ctx_dequeued_count := ctx_dequeued_count c\<rparr>"

definition torn_issues :: "net \<Rightarrow> net \<Rightarrow> SchedulerValidationIssue list" where
  "torn_issues s s' = (let snap = fold snapshot_context
         (map2 torn_context (started_contexts (core s)) (started_contexts (core s')))
         (snapshot_workers ((core s)\<lparr>started_worker_count := 0\<rparr>) (snapshot_lifecycle (core s)))
     in map rec_issue (raised SCHEDULER_VALIDATION_LIVE snap))"

text \<open>
  A sound run in which the live validation reports a violation and the health is \<open>FAILED\<close>: the
  worker has taken the task and counted it, and the submitter has not yet counted the acceptance.
\<close>

lemma live_false_alarm:
  "map_option (\<lambda>s. (enqd s, deqd s, log s, alarm s)) (run_actions (net_step True) (take 11 demo_events) demo_net)
     = Some ([42], [42], [(Start_call, SCHEDULER_OK)],
         Some ([SCHEDULER_VALIDATION_ISSUE_DEQUEUED_EXCEEDS_ACCEPTED], Some SCHEDULER_HEALTH_FAILED))"
  by code_simp

text \<open>
  And one in which a capture meets the worker between two loads: the started callbacks exceed
  the tasks taken out.
\<close>

lemma torn_read_alarm:
  "(case (run_actions (net_step True) (take 10 demo_events) demo_net, run_actions (net_step True) (take 14 demo_events) demo_net) of
     (Some s, Some s') \<Rightarrow> torn_issues s s' | _ \<Rightarrow> [])
   = [SCHEDULER_VALIDATION_ISSUE_CALLBACK_STARTS_EXCEED_DEQUEUED]"
  by code_simp

section \<open>Properties\<close>



end
