(* ===== verification/Validation_Format.thy ===== *)
theory Validation_Format
  imports Snapshot_Validation
begin

text \<open>
  The text of a validation result (\<open>append_format\<close> and \<open>scheduler_validation_format\<close> of
  \<open>src/scheduler_validation.c\<close>). A buffer is the list of characters from the pointer on, a null
  pointer is \<^term>\<open>None\<close>; an access outside of the array of issues makes the result \<^term>\<open>None\<close>.
\<close>

section \<open>Printing\<close>

abbreviation NUL :: char where
  "NUL \<equiv> CHR 0x00"

text \<open>The conversions \<open>%u\<close>, \<open>%zu\<close>, \<open>PRIu32\<close> and \<open>PRIu64\<close>.\<close>

fun decimal :: "nat \<Rightarrow> string" where
  "decimal n = (if n < 10 then [char_of (48 + n)] else decimal (n div 10) @ [char_of (48 + n mod 10)])"

text \<open>
  \<open>vsnprintf\<close> with the text that its format and arguments give: at most \<open>available - 1\<close> of its
  characters are stored at the offset, then a terminator; the value is the length of the text,
  or negative when that is not an \<open>int\<close>.
\<close>

definition vsnprintf :: "string option \<Rightarrow> nat \<Rightarrow> nat \<Rightarrow> string \<Rightarrow> int \<times> string option" where
  "vsnprintf buffer offset available text =
     (if int (length text) > INT_MAX then - 1 else int (length text),
      map_option (\<lambda>b. if available = 0 then b
        else let k = min (length text) (available - 1)
          in take offset b @ take k text @ NUL # drop (offset + k + 1) b) buffer)"

definition append_format :: "size_t \<Rightarrow> string \<Rightarrow> string option \<times> size_t \<Rightarrow> string option \<times> size_t" where
  "append_format buffer_size text st = (case st of (buffer, required) \<Rightarrow>
     let offset = (if required < buffer_size then required else buffer_size);
         available = (if offset < buffer_size then buffer_size - offset else 0)
     in case vsnprintf buffer (unat offset) (unat available) text of
          (count, buffer) \<Rightarrow> (buffer, if count > 0 then required + word_of_int count else required))"

section \<open>The report\<close>

fun severity_number :: "SchedulerValidationSeverity \<Rightarrow> u32" where
  "severity_number SCHEDULER_VALIDATION_SEVERITY_INFORMATIONAL = 1"
| "severity_number SCHEDULER_VALIDATION_SEVERITY_ADVISORY = 2"
| "severity_number SCHEDULER_VALIDATION_SEVERITY_VIOLATION = 3"
| "severity_number SCHEDULER_VALIDATION_SEVERITY_INCOMPLETE = 4"
| "severity_number (SCHEDULER_VALIDATION_SEVERITY_OUTSIDE i) = word_of_int i"

definition mode_text :: "SchedulerValidationResult \<Rightarrow> string" where
  "mode_text result = (if res_mode result = SCHEDULER_VALIDATION_LIVE then ''LIVE'' else ''QUIESCENT'')"

definition header_text :: "SchedulerValidationResult \<Rightarrow> string" where
  "header_text result = ''mode='' @ mode_text result
     @ '' version='' @ decimal (unat (res_snapshot_version result))
     @ '' issues='' @ decimal (unat (res_issue_count result))
     @ '' violations='' @ decimal (unat (res_violation_count result))
     @ '' advisories='' @ decimal (unat (res_advisory_count result))
     @ '' incomplete='' @ decimal (if res_validation_incomplete result then 1 else 0)
     @ '' truncated='' @ decimal (if res_issues_truncated result then 1 else 0)"

definition issue_text :: "SchedulerValidationIssueRecord \<Rightarrow> string" where
  "issue_text x = CHR 0x0A # ''issue='' @ scheduler_validation_issue_name (rec_issue x)
     @ '' severity='' @ decimal (unat (severity_number (rec_severity x)))
     @ '' observed='' @ decimal (unat (rec_observed x))
     @ '' expected='' @ decimal (unat (rec_expected x))"

function format_issues ::
  "SchedulerValidationResult \<Rightarrow> size_t \<Rightarrow> size_t \<Rightarrow> string option \<times> size_t \<Rightarrow> (string option \<times> size_t) option" where
  "format_issues result buffer_size index st =
     (if index < res_issue_count result
      then if unat index < length (res_issues result)
        then format_issues result buffer_size (index + 1)
          (append_format buffer_size (issue_text (res_issues result ! unat index)) st)
        else None
      else Some st)"
  by pat_completeness auto

termination
proof (relation "measure (\<lambda>(r, _, i, _). unat (res_issue_count r) - unat i)")
  fix r :: SchedulerValidationResult and i :: size_t
  assume "i < res_issue_count r"
  then have "unat i < unat (res_issue_count r)" by (simp add: word_less_nat_alt)
  moreover have "unat (i + 1) = Suc (unat i)"
    using less_not_max [OF \<open>i < res_issue_count r\<close>] by simp
  ultimately show "((r, b, i + 1, x), r, b, i, y) \<in> measure (\<lambda>(r, _, i, _). unat (res_issue_count r) - unat i)" for b x y
    by simp
qed simp

definition scheduler_validation_format ::
  "SchedulerSnapshot option \<Rightarrow> SchedulerValidationResult option \<Rightarrow> string option \<Rightarrow> size_t
     \<Rightarrow> (int \<times> string option) option" where
  "scheduler_validation_format snapshot result buffer buffer_size = (case (snapshot, result) of
      (Some _, Some r) \<Rightarrow>
        if buffer = None \<and> buffer_size \<noteq> 0 then Some (- 1, buffer)
        else (case format_issues r buffer_size 0 (append_format buffer_size (header_text r) (buffer, 0)) of
            None \<Rightarrow> None
          | Some (buffer, required) \<Rightarrow> Some
              (if required > word_of_int INT_MAX then INT_MAX else int (unat required),
               if buffer_size \<noteq> 0 then map_option (\<lambda>b. b[unat (buffer_size - 1) := NUL]) buffer else buffer))
    | _ \<Rightarrow> Some (- 1, buffer))"

declare decimal.simps [simp del] format_issues.simps [simp del]

section \<open>What is in the buffer\<close>

text \<open>A buffer of \<open>n\<close> characters after a text was put into it.\<close>

definition written :: "nat \<Rightarrow> string \<Rightarrow> string \<Rightarrow> string" where
  "written n text b = (if n = 0 then b
     else let k = min (length text) (n - 1) in take k text @ NUL # drop (Suc k) b)"

lemma written_length [simp]: "n \<le> length b \<Longrightarrow> length (written n text b) = length b"
  by (auto simp: written_def Let_def min_def)

lemma append_first:
  assumes "unat n \<le> length b" "int (length text) \<le> INT_MAX"
  shows "append_format n text (Some b, 0) = (Some (written (unat n) text b), of_nat (length text))"
  using assms by (auto simp: append_format_def vsnprintf_def Let_def written_def word_less_nat_alt unat_eq_zero)

lemma written_more:
  assumes "n \<le> length b" "length t < n"
  shows "take (length t) (written n t b) @ take (min (length u) (n - length t - 1)) u @ NUL
      # drop (length t + min (length u) (n - length t - 1) + 1) (written n t b) = written n (t @ u) b"
proof -
  have k: "min (length t + length u) (n - 1) = length t + min (length u) (n - length t - 1)" using assms(2) by auto
  have "written n t b = t @ NUL # drop (Suc (length t)) b" using assms(2) by (auto simp: written_def Let_def min_def)
  moreover have "written n (t @ u) b = t @ take (min (length u) (n - length t - 1)) u
      @ NUL # drop (Suc (length t + min (length u) (n - length t - 1))) b"
    using assms(2) unfolding written_def Let_def length_append k by auto
  ultimately show ?thesis by (simp add: drop_Cons' add.commute)
qed

lemma written_full: "n \<le> length t \<Longrightarrow> written n (t @ u) b = written n t b"
  by (auto simp: written_def Let_def min_def)

lemma append_more:
  assumes n: "unat n \<le> length b" and u: "int (length u) \<le> INT_MAX" and small: "length t + length u < 2 ^ 64"
  shows "append_format n u (Some (written (unat n) t b), of_nat (length t))
    = (Some (written (unat n) (t @ u) b), of_nat (length (t @ u)))"
proof -
  have len: "unat (of_nat (length t) :: size_t) = length t" using small by (simp add: unat_of_nat take_bit_nat_eq_self)
  have sum: "(of_nat (length t) :: size_t) + word_of_int (int (length u)) = of_nat (length (t @ u))" by simp
  show ?thesis
  proof (cases "length t < unat n")
    case True
    then have lt: "(of_nat (length t) :: size_t) < n" by (simp add: word_less_nat_alt len)
    have "unat (n - of_nat (length t)) = unat n - length t" using lt by (simp add: unat_sub order.strict_implies_order len)
    then show ?thesis using lt True u sum written_more [OF n True, of u]
      by (auto simp: append_format_def vsnprintf_def Let_def len)
  next
    case False
    then have "\<not> (of_nat (length t) :: size_t) < n" by (simp add: word_less_nat_alt len)
    then show ?thesis using False u sum written_full [of "unat n" t u b]
      by (auto simp: append_format_def vsnprintf_def Let_def)
  qed
qed

text \<open>A buffer is big enough for its size, or there is none of size zero.\<close>

definition fits :: "size_t \<Rightarrow> string option \<Rightarrow> bool" where
  "fits n buffer \<longleftrightarrow> (case buffer of None \<Rightarrow> n = 0 | Some b \<Rightarrow> unat n \<le> length b)"

definition holding :: "size_t \<Rightarrow> string option \<Rightarrow> string \<Rightarrow> string option \<times> size_t" where
  "holding n buffer t = (map_option (written (unat n) t) buffer, of_nat (length t))"

lemma append_text:
  assumes "fits n buffer" "int (length u) \<le> INT_MAX" "length t + length u < 2 ^ 64"
  shows "append_format n u (holding n buffer t) = holding n buffer (t @ u)" "append_format n u (buffer, 0) = holding n buffer u"
  using assms append_more [of n _ u t] append_first [of n _ u]
  by (cases buffer; auto simp: fits_def holding_def append_format_def vsnprintf_def)+

section \<open>The length of the report\<close>

lemma decimal_length: "n < 10 ^ k \<Longrightarrow> 0 < k \<Longrightarrow> length (decimal n) \<le> k"
proof (induction n arbitrary: k rule: decimal.induct)
  case (1 n)
  show ?case
  proof (cases "n < 10")
    case True
    with 1 show ?thesis by (simp add: decimal.simps [of n])
  next
    case False
    then obtain j where j: "k = Suc j" "0 < j" using 1(2,3) by (cases k; cases "k - 1") auto
    have "n div 10 < 10 ^ j" using 1(2) j(1) by (simp add: less_mult_imp_div_less mult.commute)
    with 1(1) [OF False _ j(2)] False j(1) show ?thesis by (simp add: decimal.simps [of n])
  qed
qed

lemma word_digits:
  fixes x :: "'a :: len word"
  assumes "LENGTH('a) \<le> 64"
  shows "length (decimal (unat x)) \<le> 20"
proof -
  have "unat x < 2 ^ LENGTH('a)" by (rule unsigned_less)
  also have "(2 :: nat) ^ LENGTH('a) \<le> 2 ^ 64" using assms by (rule power_increasing) simp
  also have "(2 :: nat) ^ 64 < 10 ^ 20" by simp
  finally show ?thesis by (rule decimal_length) simp
qed

text \<open>A name has none of the characters that structure the report.\<close>

definition plain :: "string \<Rightarrow> bool" where
  "plain w \<longleftrightarrow> list_all (\<lambda>c. c \<noteq> CHR '' '' \<and> c \<noteq> CHR ''='' \<and> c \<noteq> CHR 0x0A \<and> c \<noteq> NUL) w"

lemma name_plain: "plain (scheduler_validation_issue_name i)" "length (scheduler_validation_issue_name i) \<le> 40"
proof -
  have "list_all (\<lambda>w. plain w \<and> length w \<le> 40) issue_names" by code_simp
  moreover have "scheduler_validation_issue_name i \<in> set issue_names"
    by (simp add: scheduler_validation_issue_name_def Let_def) (simp add: issue_names_def)
  ultimately show "plain (scheduler_validation_issue_name i)" "length (scheduler_validation_issue_name i) \<le> 40"
    by (auto simp: list_all_iff)
qed

lemma issue_length: "length (issue_text x) \<le> 150"
  using name_plain(2) [of "rec_issue x"] word_digits [of "severity_number (rec_severity x)"]
    word_digits [of "rec_observed x"] word_digits [of "rec_expected x"] by (simp add: issue_text_def)

lemma decimal_flag: "decimal (if b then 1 else 0) = (if b then ''1'' else ''0'')"
proof -
  have "decimal 0 = ''0''" "decimal 1 = ''1''" by code_simp+
  then show ?thesis by simp
qed

lemma header_length: "length (header_text r) \<le> 200"
  using word_digits [of "res_snapshot_version r"] word_digits [of "res_issue_count r"]
    word_digits [of "res_violation_count r"] word_digits [of "res_advisory_count r"]
  by (simp add: header_text_def mode_text_def decimal_flag)

lemma issues_length: "length (concat (map issue_text xs)) \<le> 150 * length xs"
proof (induction xs)
  case (Cons x xs)
  then show ?case using issue_length [of x] by simp
qed simp

section \<open>The report is written\<close>

text \<open>The whole report of a result.\<close>

definition listed :: "SchedulerValidationResult \<Rightarrow> SchedulerValidationIssueRecord list" where
  "listed r = take (unat (res_issue_count r)) (res_issues r)"

definition report :: "SchedulerValidationResult \<Rightarrow> string" where
  "report r = header_text r @ concat (map issue_text (listed r))"

definition result_ok :: "SchedulerValidationResult \<Rightarrow> bool" where
  "result_ok r \<longleftrightarrow> length (res_issues r) = SCHEDULER_VALIDATION_ISSUE_CAPACITY
     \<and> unat (res_issue_count r) \<le> SCHEDULER_VALIDATION_ISSUE_CAPACITY"

lemma validated_ok: "scheduler_snapshot_validate (Some s) mode True = Some r \<Longrightarrow> result_ok r"
  using validate_summarizes(2) [of s mode r] by (simp add: summarizes_def result_ok_def)

lemma report_length: "result_ok r \<Longrightarrow> length (report r) \<le> 2600"
  using header_length [of r] issues_length [of "listed r"]
  by (simp add: report_def listed_def result_ok_def SCHEDULER_VALIDATION_ISSUE_CAPACITY_def)

lemma format_issues_exact:
  assumes ok: "result_ok r" and fit: "fits n buffer"
  shows "i \<le> unat (res_issue_count r) \<Longrightarrow> length t + 150 * (unat (res_issue_count r) - i) < 2 ^ 64 \<Longrightarrow>
    format_issues r n (of_nat i) (holding n buffer t)
      = Some (holding n buffer (t @ concat (map issue_text (drop i (listed r)))))"
proof (induction "unat (res_issue_count r) - i" arbitrary: i t)
  case 0
  then have i: "i = unat (res_issue_count r)" by simp
  then have "drop i (listed r) = []" by (simp add: listed_def)
  then show ?case by (simp add: i format_issues.simps)
next
  case (Suc k)
  let ?c = "res_issue_count r" and ?x = "res_issues r ! i"
  have i: "i < unat ?c" using Suc(2) by simp
  have len: "unat ?c \<le> length (res_issues r)" using ok by (simp add: result_ok_def)
  have u: "unat (of_nat i :: size_t) = i" using i unat_le_max [of ?c] by (simp add: unat_of_nat take_bit_nat_eq_self)
  then have less: "of_nat i < ?c" using i by (simp add: word_less_nat_alt)
  have drop: "drop i (listed r) = ?x # drop (Suc i) (listed r)"
    using i len by (simp add: listed_def Cons_nth_drop_Suc [symmetric])
  have k: "k = unat ?c - Suc i" "Suc i \<le> unat ?c" using Suc(2) i by simp_all
  have room: "length (t @ issue_text ?x) + 150 * (unat ?c - Suc i) < 2 ^ 64"
    using Suc(4) issue_length [of ?x] k i by (simp add: Suc_diff_Suc [symmetric])
  have "append_format n (issue_text ?x) (holding n buffer t) = holding n buffer (t @ issue_text ?x)"
    by (rule append_text [OF fit]) (use room issue_length [of ?x] in simp_all)
  then have "format_issues r n (of_nat i) (holding n buffer t)
      = format_issues r n (of_nat (Suc i)) (holding n buffer (t @ issue_text ?x))"
    using less i len u by (subst format_issues.simps) (simp add: add.commute)
  with Suc(1) [OF k room] drop show ?case by simp
qed

lemma format_exact:
  assumes ok: "result_ok r" and fit: "fits n buffer"
  shows "scheduler_validation_format (Some s) (Some r) buffer n = Some (int (length (report r)),
    if n = 0 then buffer else map_option (\<lambda>b. (written (unat n) (report r) b)[unat n - 1 := NUL]) buffer)"
proof -
  have c: "unat (res_issue_count r) \<le> 16" using ok by (simp add: result_ok_def SCHEDULER_VALIDATION_ISSUE_CAPACITY_def)
  have first: "append_format n (header_text r) (buffer, 0) = holding n buffer (header_text r)"
    by (rule append_text(2) [OF fit, where t = "[]"]) (use header_length [of r] in simp_all)
  have loop: "format_issues r n 0 (holding n buffer (header_text r)) = Some (holding n buffer (report r))"
    using format_issues_exact [OF ok fit, of 0 "header_text r"] header_length [of r] c by (simp add: report_def)
  have len: "unat (of_nat (length (report r)) :: size_t) = length (report r)"
    using report_length [OF ok] by (simp add: unat_of_nat take_bit_nat_eq_self)
  have small: "\<not> (of_nat (length (report r)) :: size_t) > word_of_int INT_MAX"
    using report_length [OF ok] by (simp add: word_less_nat_alt len)
  have nonnull: "\<not> (buffer = None \<and> n \<noteq> 0)" using fit by (auto simp: fits_def split: option.splits)
  have last: "n \<noteq> 0 \<Longrightarrow> unat (n - 1) = unat n - 1" by (simp add: unat_eq_zero unat_minus_one)
  have zero: "n = 0 \<Longrightarrow> map_option (written (unat n) (report r)) buffer = buffer"
    by (cases buffer) (simp_all add: written_def)
  show ?thesis
    using first loop len small nonnull last zero
    by (auto simp: scheduler_validation_format_def holding_def option.map_comp comp_def)
qed

section \<open>Reading a report\<close>

text \<open>The text of a buffer ends at its first terminator.\<close>

definition cstring :: "string \<Rightarrow> string" where
  "cstring b = takeWhile (\<lambda>c. c \<noteq> NUL) b"

fun split_on :: "char \<Rightarrow> string \<Rightarrow> string list" where
  "split_on d [] = [[]]"
| "split_on d (c # cs) = (if c = d then [] # split_on d cs
     else (case split_on d cs of [] \<Rightarrow> [[c]] | w # ws \<Rightarrow> (c # w) # ws))"

definition number :: "string \<Rightarrow> nat" where
  "number w = foldl (\<lambda>n c. 10 * n + (of_char c - 48)) 0 w"

definition value_of :: "string \<Rightarrow> string" where
  "value_of w = tl (dropWhile (\<lambda>c. c \<noteq> CHR ''='') w)"

text \<open>A line is a name and numbers, each given as a key, an equals sign and a value.\<close>

definition read_line :: "string \<Rightarrow> string \<times> nat list" where
  "read_line l = (case map value_of (split_on (CHR '' '') l) of [] \<Rightarrow> ([], []) | w # ws \<Rightarrow> (w, map number ws))"

definition read_report :: "string \<Rightarrow> (string \<times> nat list) list" where
  "read_report t = map read_line (split_on (CHR 0x0A) t)"

lemma split_word: "d \<notin> set w \<Longrightarrow> split_on d w = [w]" "d \<notin> set w \<Longrightarrow> split_on d (w @ d # s) = w # split_on d s"
  by (induction w) auto

lemma of_char_digit: "k < 10 \<Longrightarrow> of_char (char_of (48 + k) :: char) = 48 + k" for k :: nat
  by (simp add: take_bit_eq_mod)

lemma number_decimal: "number (decimal n) = n"
proof (induction n rule: decimal.induct)
  case (1 n)
  show ?case
  proof (cases "n < 10")
    case True
    then show ?thesis using of_char_digit [OF True] by (simp add: number_def decimal.simps [of n])
  next
    case False
    have "number (decimal (n div 10) @ [char_of (48 + n mod 10)]) = 10 * number (decimal (n div 10)) + n mod 10"
      using of_char_digit [of "n mod 10"] by (simp add: number_def)
    then show ?thesis using 1 [OF False] False by (simp add: decimal.simps [of n])
  qed
qed

lemma plain_decimal: "plain (decimal n)"
proof -
  have "list_all (\<lambda>k. plain [char_of (48 + k)]) [0..<10]" by code_simp
  then have digit: "plain [char_of (48 + k)]" if "k < 10" for k :: nat using that by (simp add: list_all_iff)
  show ?thesis
  proof (induction n rule: decimal.induct)
    case (1 n)
    then show ?case using digit [of n] digit [of "n mod 10"]
      by (cases "n < 10") (simp_all add: decimal.simps [of n] plain_def)
  qed
qed

lemma plainD: "plain w \<Longrightarrow> CHR '' '' \<notin> set w \<and> CHR ''='' \<notin> set w \<and> CHR 0x0A \<notin> set w \<and> NUL \<notin> set w"
  by (auto simp: plain_def list_all_iff)

text \<open>A line from its keys and values.\<close>

fun joined :: "(string \<times> string) list \<Rightarrow> string" where
  "joined [] = []"
| "joined [(k, v)] = k @ CHR ''='' # v"
| "joined ((k, v) # e # es) = k @ CHR ''='' # v @ CHR '' '' # joined (e # es)"

lemma split_joined:
  assumes "es \<noteq> []" "\<forall>(k, v) \<in> set es. plain k \<and> plain v"
  shows "map value_of (split_on (CHR '' '') (joined es)) = map snd es" "CHR 0x0A \<notin> set (joined es)" "NUL \<notin> set (joined es)"
proof -
  have val: "value_of (k @ CHR ''='' # v) = v" if "plain k" for k v
    using plainD [OF that] unfolding value_of_def by (subst dropWhile_append2) auto
  have "map value_of (split_on (CHR '' '') (joined es)) = map snd es \<and> CHR 0x0A \<notin> set (joined es) \<and> NUL \<notin> set (joined es)"
    using assms
  proof (induction es rule: joined.induct)
    case (2 k v)
    then show ?case using plainD [of k] plainD [of v] val [of k v] split_word(1) [of "CHR '' ''" "k @ CHR ''='' # v"] by auto
  next
    case (3 k v e es)
    then show ?case using plainD [of k] plainD [of v] val [of k v]
        split_word(2) [of "CHR '' ''" "k @ CHR ''='' # v" "joined (e # es)"] by auto
  qed simp
  then show "map value_of (split_on (CHR '' '') (joined es)) = map snd es" "CHR 0x0A \<notin> set (joined es)" "NUL \<notin> set (joined es)"
    by auto
qed

definition header_fields :: "SchedulerValidationResult \<Rightarrow> (string \<times> string) list" where
  "header_fields r = [(''mode'', mode_text r), (''version'', decimal (unat (res_snapshot_version r))),
     (''issues'', decimal (unat (res_issue_count r))), (''violations'', decimal (unat (res_violation_count r))),
     (''advisories'', decimal (unat (res_advisory_count r))),
     (''incomplete'', decimal (if res_validation_incomplete r then 1 else 0)),
     (''truncated'', decimal (if res_issues_truncated r then 1 else 0))]"

definition issue_fields :: "SchedulerValidationIssueRecord \<Rightarrow> (string \<times> string) list" where
  "issue_fields x = [(''issue'', scheduler_validation_issue_name (rec_issue x)),
     (''severity'', decimal (unat (severity_number (rec_severity x)))),
     (''observed'', decimal (unat (rec_observed x))), (''expected'', decimal (unat (rec_expected x)))]"

lemma texts_joined: "header_text r = joined (header_fields r)" "issue_text x = CHR 0x0A # joined (issue_fields x)"
  by (simp_all add: header_text_def header_fields_def issue_text_def issue_fields_def)

lemma fields_plain:
  "\<forall>(k, v) \<in> set (header_fields r). plain k \<and> plain v" "\<forall>(k, v) \<in> set (issue_fields x). plain k \<and> plain v"
  using name_plain(1) plain_decimal
  by (auto simp: header_fields_def issue_fields_def mode_text_def) (simp_all add: plain_def)

lemma fields_some: "header_fields r \<noteq> []" "issue_fields x \<noteq> []"
  by (simp_all add: header_fields_def issue_fields_def)

lemmas header_split = split_joined [OF fields_some(1) fields_plain(1)]
lemmas issue_split = split_joined [OF fields_some(2) fields_plain(2)]

lemma read_fields:
  "read_line (joined (header_fields r)) = (mode_text r, [unat (res_snapshot_version r), unat (res_issue_count r),
     unat (res_violation_count r), unat (res_advisory_count r),
     (if res_validation_incomplete r then 1 else 0), (if res_issues_truncated r then 1 else 0)])"
  "read_line (joined (issue_fields x)) = (scheduler_validation_issue_name (rec_issue x),
     [unat (severity_number (rec_severity x)), unat (rec_observed x), unat (rec_expected x)])"
  unfolding read_line_def header_split issue_split
  by (simp_all add: header_fields_def issue_fields_def number_decimal)

lemma report_lines: "split_on (CHR 0x0A) (report r) = joined (header_fields r) # map (\<lambda>x. joined (issue_fields x)) (listed r)"
proof -
  have "split_on (CHR 0x0A) (h @ concat (map issue_text xs)) = h # map (\<lambda>x. joined (issue_fields x)) xs"
    if "CHR 0x0A \<notin> set h" for h xs
    using that
  proof (induction xs arbitrary: h)
    case (Cons x xs)
    from Cons.IH [OF issue_split(2) [of x]] split_word(2) [OF Cons.prems] show ?case by (simp add: texts_joined(2))
  qed (simp add: split_word(1))
  from this [OF header_split(2) [of r]] show ?thesis by (simp add: report_def texts_joined(1))
qed

lemma report_text: "NUL \<notin> set (report r)"
  using header_split(3) [of r] issue_split(3) by (auto simp: report_def texts_joined)

section \<open>Properties\<close>

lemma written_cstring:
  assumes "NUL \<notin> set t" "0 < n" "n \<le> length b"
  shows "cstring ((written n t b)[n - 1 := NUL]) = take (n - 1) t" "drop n ((written n t b)[n - 1 := NUL]) = drop n b"
proof -
  let ?k = "min (length t) (n - 1)"
  have w: "written n t b = take ?k t @ NUL # drop (Suc ?k) b" using assms(2) by (simp add: written_def Let_def)
  have "(written n t b)[n - 1 := NUL] = take ?k t @ (NUL # drop (Suc ?k) b)[n - 1 - ?k := NUL]"
    by (simp add: w list_update_append)
  moreover have "\<exists>u. (NUL # drop (Suc ?k) b)[n - 1 - ?k := NUL] = NUL # u" by (auto split: nat.splits)
  ultimately obtain u where u: "(written n t b)[n - 1 := NUL] = take ?k t @ NUL # u" by auto
  have "NUL \<notin> set (take ?k t)" using assms(1) by (auto dest: in_set_takeD)
  then have "cstring (take ?k t @ NUL # u) = take ?k t" by (auto simp: cstring_def takeWhile_append)
  moreover have "take ?k t = take (n - 1) t" by (simp add: min_def)
  ultimately show "cstring ((written n t b)[n - 1 := NUL]) = take (n - 1) t" by (simp only: u)
  show "drop n ((written n t b)[n - 1 := NUL]) = drop n b"
    using assms(2,3) by (simp add: drop_update_cancel) (auto simp: w drop_Cons' min_def)
qed

text \<open>
  C37. Formatting a validation result behaves like \<open>snprintf\<close>: the value is the length of the whole
  report, also of a sizing call without a buffer; a buffer of \<open>n\<close> characters then holds the first
  \<open>n - 1\<close> characters of the report followed by a terminator; and nothing is written past the \<open>n\<close>
  characters. Null arguments are refused with -1 and the buffer is untouched.
\<close>

theorem validation_format_exact:
  assumes "scheduler_snapshot_validate (Some s) mode True = Some r" "unat n \<le> length b"
  shows "scheduler_validation_format (Some s) (Some r) None 0 = Some (int (length (report r)), None)
    \<and> (\<exists>b'. scheduler_validation_format (Some s) (Some r) (Some b) n = Some (int (length (report r)), Some b')
         \<and> length b' = length b \<and> drop (unat n) b' = drop (unat n) b
         \<and> (n \<noteq> 0 \<longrightarrow> cstring b' = take (unat n - 1) (report r)))
    \<and> scheduler_validation_format None (Some r) (Some b) n = Some (- 1, Some b)
    \<and> scheduler_validation_format (Some s) None (Some b) n = Some (- 1, Some b)
    \<and> (n \<noteq> 0 \<longrightarrow> scheduler_validation_format (Some s) (Some r) None n = Some (- 1, None))"
proof -
  note ok = validated_ok [OF assms(1)]
  have sizing: "scheduler_validation_format (Some s) (Some r) None 0 = Some (int (length (report r)), None)"
    by (subst format_exact [OF ok]) (simp_all add: fits_def)
  let ?b = "if n = 0 then b else (written (unat n) (report r) b)[unat n - 1 := NUL]"
  have run: "scheduler_validation_format (Some s) (Some r) (Some b) n = Some (int (length (report r)), Some ?b)"
    by (subst format_exact [OF ok]) (use assms(2) in \<open>simp_all add: fits_def\<close>)
  have "length ?b = length b \<and> drop (unat n) ?b = drop (unat n) b \<and> (n \<noteq> 0 \<longrightarrow> cstring ?b = take (unat n - 1) (report r))"
    using written_cstring [OF report_text _ assms(2)] assms(2) by (simp add: unat_gt_0)
  with sizing run show ?thesis by (auto simp: scheduler_validation_format_def)
qed

text \<open>A snapshot that misses a removal, and what its validation prints into 16 of 20 characters.\<close>

definition skewed_snapshot :: SchedulerSnapshot where
  "skewed_snapshot = stopped_snapshot\<lparr>ss_dequeued_count := 2\<rparr>"

lemma skewed_validates:
  obtains r where "scheduler_snapshot_validate (Some skewed_snapshot) SCHEDULER_VALIDATION_LIVE True = Some r"
  using validate_some [of SCHEDULER_VALIDATION_LIVE skewed_snapshot] by (auto simp: valid_mode_def)

theorem validation_format_exact_witness:
  "\<exists>r b'. scheduler_snapshot_validate (Some skewed_snapshot) SCHEDULER_VALIDATION_LIVE True = Some r
     \<and> scheduler_validation_format (Some skewed_snapshot) (Some r) (Some (replicate 20 (CHR ''x''))) 16 = Some (150, Some b')
     \<and> cstring b' = ''mode=LIVE versi''"
proof -
  obtain r where r: "scheduler_snapshot_validate (Some skewed_snapshot) SCHEDULER_VALIDATION_LIVE True = Some r"
    by (rule skewed_validates)
  have "map_option (\<lambda>r. (length (report r), take 15 (report r)))
      (scheduler_snapshot_validate (Some skewed_snapshot) SCHEDULER_VALIDATION_LIVE True) = Some (150, ''mode=LIVE versi'')"
    by code_simp
  with r validation_format_exact [OF r, of 16 "replicate 20 (CHR ''x'')"] show ?thesis by auto
qed

text \<open>
  C38. A report can be read back: in a buffer that the value says was big enough, the lines of the
  text give the mode, the version, the three counts and both flags, and then for every listed
  issue in order its name, its severity and its two numbers, exactly.
\<close>

theorem validation_format_roundtrip:
  assumes "scheduler_snapshot_validate (Some s) mode True = Some r" "unat n \<le> length b"
    "scheduler_validation_format (Some s) (Some r) (Some b) n = Some (k, Some b')" "k < int (unat n)"
  shows "read_report (cstring b') = (mode_text r, [unat (res_snapshot_version r), unat (res_issue_count r),
        unat (res_violation_count r), unat (res_advisory_count r),
        (if res_validation_incomplete r then 1 else 0), (if res_issues_truncated r then 1 else 0)])
      # map (\<lambda>x. (scheduler_validation_issue_name (rec_issue x), [unat (severity_number (rec_severity x)),
          unat (rec_observed x), unat (rec_expected x)])) (take (unat (res_issue_count r)) (res_issues r))"
proof -
  note ok = validated_ok [OF assms(1)]
  have run: "k = int (length (report r))" "n \<noteq> 0" "b' = (written (unat n) (report r) b)[unat n - 1 := NUL]"
  proof -
    have f: "scheduler_validation_format (Some s) (Some r) (Some b) n = Some (int (length (report r)),
        if n = 0 then Some b else Some ((written (unat n) (report r) b)[unat n - 1 := NUL]))"
      by (subst format_exact [OF ok]) (use assms(2) in \<open>simp_all add: fits_def\<close>)
    then show k: "k = int (length (report r))" using assms(3) by simp
    show n: "n \<noteq> 0" using assms(4) k by auto
    then show "b' = (written (unat n) (report r) b)[unat n - 1 := NUL]" using f assms(3) by simp
  qed
  have "length (report r) < unat n" using assms(4) run(1) by linarith
  then have "cstring b' = report r"
    using written_cstring(1) [OF report_text _ assms(2), of r] run(2,3) by (simp add: unat_gt_0)
  then show ?thesis by (simp add: read_report_def report_lines read_fields listed_def)
qed

theorem validation_format_roundtrip_witness:
  "\<exists>r k b'. scheduler_snapshot_validate (Some skewed_snapshot) SCHEDULER_VALIDATION_LIVE True = Some r
     \<and> scheduler_validation_format (Some skewed_snapshot) (Some r) (Some (replicate 200 NUL)) 200 = Some (k, Some b')
     \<and> read_report (cstring b') = [(''LIVE'', [1, 1, 1, 0, 0, 0]), (''CALLBACK_STARTS_EXCEED_DEQUEUED'', [3, 3, 2])]"
proof -
  obtain r where r: "scheduler_snapshot_validate (Some skewed_snapshot) SCHEDULER_VALIDATION_LIVE True = Some r"
    by (rule skewed_validates)
  have "map_option (\<lambda>r. (length (report r), mode_text r, res_snapshot_version r, res_issue_count r, res_violation_count r,
        res_advisory_count r, res_validation_incomplete r, res_issues_truncated r,
        map (\<lambda>x. (scheduler_validation_issue_name (rec_issue x), severity_number (rec_severity x), rec_observed x, rec_expected x))
          (take 1 (res_issues r))))
      (scheduler_snapshot_validate (Some skewed_snapshot) SCHEDULER_VALIDATION_LIVE True)
      = Some (150, ''LIVE'', 1, 1, 1, 0, False, False, [(''CALLBACK_STARTS_EXCEED_DEQUEUED'', 3, 3, 2)])" by code_simp
  with r have f: "length (report r) = 150" "mode_text r = ''LIVE''" "res_snapshot_version r = 1" "res_issue_count r = 1"
    "res_violation_count r = 1" "res_advisory_count r = 0" "\<not> res_validation_incomplete r" "\<not> res_issues_truncated r"
    "map (\<lambda>x. (scheduler_validation_issue_name (rec_issue x), severity_number (rec_severity x), rec_observed x, rec_expected x))
       (take 1 (res_issues r)) = [(''CALLBACK_STARTS_EXCEED_DEQUEUED'', 3, 3, 2)]" by simp_all
  obtain b' where b': "scheduler_validation_format (Some skewed_snapshot) (Some r) (Some (replicate 200 NUL)) 200 = Some (150, Some b')"
    using format_exact [OF validated_ok [OF r], of 200 "Some (replicate 200 NUL)" skewed_snapshot] f(1) by (auto simp: fits_def)
  from validation_format_roundtrip [OF r _ b'] f show ?thesis
    using r b' by (auto simp: map_eq_Cons_conv take_Suc_conv_app_nth)
qed

end
