(* ===== verification/Queue_Profiling.thy ===== *)
theory Queue_Profiling
  imports Concurrent_Queue_Contract Observability "HOL-Library.AList"
begin

text \<open>
  The profiling build of the synchronized queue (\<open>src/internal/scheduler_profiling.h\<close> and the
  parts of \<open>src/concurrent_task_queue.c\<close> and \<open>src/scheduler.c\<close> under
  \<open>CONCURRENT_SCHEDULER_ENABLE_PROFILING\<close>): the counters and timings that the blocking calls, the
  shutdown and the initialization keep, and the two functions that copy them out. The profile is
  a field of the queue's implementation in the code; here it is passed next to the wrapper. A
  reading of the performance counter is an argument, \<^term>\<open>None\<close> when the call fails.
\<close>

section \<open>Data\<close>

definition SCHEDULER_PROFILING_MAX_WORKERS :: size_t where
  "SCHEDULER_PROFILING_MAX_WORKERS = 64"

text \<open>
  The names of the \<open>uint64_t\<close> fields, which the code passes as pointers; the last four are the
  arrays, with their index.
\<close>

datatype counter =
    Enqueue_attempts | Enqueue_immediate_successes | Enqueue_lock_attempts
  | Enqueue_lock_wait_ticks | Enqueue_lock_max_wait_ticks | Enqueue_inferred_contended
  | Enqueue_wait_count | Enqueue_wait_ticks | Enqueue_wait_max_ticks | Enqueue_wait_returns
  | Enqueue_predicate_false_wakeups | Enqueue_successes_after_wait | Queue_full_observations
  | Dequeue_attempts | Dequeue_immediate_successes | Dequeue_lock_attempts
  | Dequeue_lock_wait_ticks | Dequeue_lock_max_wait_ticks | Dequeue_inferred_contended
  | Dequeue_wait_count | Dequeue_wait_ticks | Dequeue_wait_max_ticks | Dequeue_wait_returns
  | Dequeue_predicate_false_wakeups | Dequeue_successes_after_wait | Queue_empty_observations
  | Not_empty_signals | Not_full_signals | Avoided_not_empty_signals | Avoided_not_full_signals
  | Shutdown_broadcasts | Occupancy_sample_count | Occupancy_sample_sum | Occupancy_min
  | Occupancy_max | Occupancy_zero_observations | Occupancy_full_observations
  | Worker_tasks nat | Worker_dequeue_wait_count nat | Worker_dequeue_wait_ticks nat
  | Worker_dequeue_lock_ticks nat

record SchedulerProfilingSnapshot =
  cells :: "(counter \<times> u64) list"
  prof_worker_count :: size_t
  timer_frequency :: u64
  timing_failed :: bool
  counter_overflow :: bool

definition zero_profile :: SchedulerProfilingSnapshot where
  "zero_profile = \<lparr>cells = [], prof_worker_count = 0, timer_frequency = 0, timing_failed = False,
     counter_overflow = False\<rparr>"

text \<open>The fields by their names; a field that was never written is zero, as \<open>calloc\<close> leaves it.\<close>

definition cell :: "SchedulerProfilingSnapshot \<Rightarrow> counter \<Rightarrow> u64" where
  "cell p c = (case map_of (cells p) c of None \<Rightarrow> 0 | Some v \<Rightarrow> v)"

definition set_cell :: "counter \<Rightarrow> u64 \<Rightarrow> SchedulerProfilingSnapshot \<Rightarrow> SchedulerProfilingSnapshot" where
  "set_cell c v p = p\<lparr>cells := AList.update c v (cells p)\<rparr>"

lemma cell_set [simp]: "cell (set_cell c v p) = (cell p)(c := v)" "counter_overflow (set_cell c v p) = counter_overflow p"
  by (simp_all add: cell_def set_cell_def fun_eq_iff update_conv')

lemma cell_frame [simp]: "cell (p\<lparr>timing_failed := b\<rparr>) = cell p" "cell (p\<lparr>counter_overflow := b\<rparr>) = cell p"
  "cell (p\<lparr>prof_worker_count := n\<rparr>) = cell p" "cell (zero_profile\<lparr>timer_frequency := v\<rparr>) = (\<lambda>_. 0)"
  by (simp_all add: cell_def zero_profile_def fun_eq_iff)

text \<open>A reading of the 64-bit signed counter.\<close>

type_synonym reading = "64 word option"

section \<open>The helpers\<close>

definition profiling_now :: "reading \<Rightarrow> SchedulerProfilingSnapshot \<Rightarrow> u64 \<times> SchedulerProfilingSnapshot" where
  "profiling_now r p = (case r of
      None \<Rightarrow> (0, p\<lparr>timing_failed := True\<rparr>)
    | Some v \<Rightarrow> if sint v < 0 then (0, p\<lparr>timing_failed := True\<rparr>) else (v, p))"

definition profiling_add :: "counter \<Rightarrow> u64 \<Rightarrow> SchedulerProfilingSnapshot \<Rightarrow> SchedulerProfilingSnapshot" where
  "profiling_add c v p =
     (if UINT64_MAX - cell p c < v then p\<lparr>counter_overflow := True\<rparr> else set_cell c (cell p c + v) p)"

definition profiling_increment :: "counter \<Rightarrow> SchedulerProfilingSnapshot \<Rightarrow> SchedulerProfilingSnapshot" where
  "profiling_increment c p = profiling_add c 1 p"

definition profiling_elapsed :: "u64 \<Rightarrow> u64 \<Rightarrow> SchedulerProfilingSnapshot \<Rightarrow> u64 \<times> SchedulerProfilingSnapshot" where
  "profiling_elapsed t0 t1 p = (if t1 < t0 then (0, p\<lparr>timing_failed := True\<rparr>) else (t1 - t0, p))"

definition profiling_inferred_contended :: "u64 \<Rightarrow> u64 \<Rightarrow> SchedulerProfilingSnapshot \<Rightarrow> bool \<times> SchedulerProfilingSnapshot" where
  "profiling_inferred_contended t0 t1 p =
     (let threshold = timer_frequency p div 1000000;
          threshold = (if threshold = 0 then 1 else threshold);
          (elapsed, p) = profiling_elapsed t0 t1 p
      in (elapsed > threshold, p))"

definition profiling_record_duration ::
  "u64 \<Rightarrow> u64 \<Rightarrow> counter \<Rightarrow> counter \<Rightarrow> SchedulerProfilingSnapshot \<Rightarrow> SchedulerProfilingSnapshot" where
  "profiling_record_duration t0 t1 sum_cell max_cell p =
     (let (duration, p) = profiling_elapsed t0 t1 p;
          p = profiling_add sum_cell duration p
      in if duration > cell p max_cell then set_cell max_cell duration p else p)"

definition profiling_record_occupancy :: "TaskQueue \<Rightarrow> SchedulerProfilingSnapshot \<Rightarrow> SchedulerProfilingSnapshot" where
  "profiling_record_occupancy q p =
     (let occupancy = task_queue_size (Some q);
          cap = task_queue_capacity (Some q);
          p = profiling_increment Occupancy_sample_count p;
          p = profiling_add Occupancy_sample_sum occupancy p;
          p = (if cell p Occupancy_sample_count = 1 \<or> occupancy < cell p Occupancy_min
               then set_cell Occupancy_min occupancy p else p);
          p = (if occupancy > cell p Occupancy_max then set_cell Occupancy_max occupancy p else p);
          p = (if occupancy = 0 then profiling_increment Occupancy_zero_observations p else p)
      in if occupancy = cap then profiling_increment Occupancy_full_observations p else p)"

section \<open>The blocking enqueue\<close>

text \<open>What is recorded once the mutex is held, at the start of a wait, and after it.\<close>

definition enqueue_locked :: "u64 \<Rightarrow> reading \<Rightarrow> SchedulerProfilingSnapshot \<Rightarrow> SchedulerProfilingSnapshot" where
  "enqueue_locked lock_start r p =
     (let (lock_end, p) = profiling_now r p;
          p = profiling_increment Enqueue_attempts p;
          p = profiling_increment Enqueue_lock_attempts p;
          p = profiling_record_duration lock_start lock_end Enqueue_lock_wait_ticks Enqueue_lock_max_wait_ticks p;
          (contended, p) = profiling_inferred_contended lock_start lock_end p
      in if contended then profiling_increment Enqueue_inferred_contended p else p)"

definition enqueue_waits :: "reading \<Rightarrow> SchedulerProfilingSnapshot \<Rightarrow> u64 \<times> SchedulerProfilingSnapshot" where
  "enqueue_waits r p =
     (let p = profiling_increment Queue_full_observations p;
          p = profiling_increment Enqueue_wait_count p
      in profiling_now r p)"

definition enqueue_woke ::
  "u64 \<Rightarrow> reading \<Rightarrow> ConcurrentTaskQueue \<Rightarrow> ConcurrentTaskQueueImplementation \<Rightarrow> SchedulerProfilingSnapshot
     \<Rightarrow> SchedulerProfilingSnapshot" where
  "enqueue_woke wait_start r cq impl p =
     (let (wait_end, p) = profiling_now r p;
          p = profiling_increment Enqueue_wait_returns p;
          p = profiling_record_duration wait_start wait_end Enqueue_wait_ticks Enqueue_wait_max_ticks p
      in if \<not> shutdown_requested impl \<and> task_queue_is_full (Some (queue cq))
         then profiling_increment Enqueue_predicate_false_wakeups p else p)"

text \<open>After the insertion, and after the signal.\<close>

definition enqueue_stored :: "bool \<Rightarrow> TaskQueue \<Rightarrow> SchedulerProfilingSnapshot \<Rightarrow> SchedulerProfilingSnapshot" where
  "enqueue_stored waited q p = profiling_record_occupancy q
     (if waited then profiling_increment Enqueue_successes_after_wait p
      else profiling_increment Enqueue_immediate_successes p)"

definition enqueue_signalled ::
  "bool \<Rightarrow> bool \<Rightarrow> bool \<Rightarrow> ConcurrentTaskQueueImplementation \<Rightarrow> SchedulerProfilingSnapshot \<Rightarrow> SchedulerProfilingSnapshot" where
  "enqueue_signalled ts inserted was_empty impl p =
     (if inserted \<and> (\<not> ts \<or> was_empty \<or> waiting_consumers impl > 0) then profiling_increment Not_empty_signals p
      else if inserted then profiling_increment Avoided_not_empty_signals p else p)"

text \<open>
  The loop and what follows it. Beside the result and the wrapper a part returns the start of its
  wait and the profile. \<open>waited\<close> says whether the call has waited already.
\<close>

definition profiled_enqueue_loop ::
  "bool \<Rightarrow> ConcurrentTaskQueue \<Rightarrow> ConcurrentTaskQueueImplementation \<Rightarrow> addr \<Rightarrow> bool \<Rightarrow> reading
     \<Rightarrow> SchedulerProfilingSnapshot
     \<Rightarrow> ((ConcurrentTaskQueueResult progress \<times> ConcurrentTaskQueue option) \<times> u64 \<times> SchedulerProfilingSnapshot) native" where
  "profiled_enqueue_loop ts cq impl t waited r p =
     (if \<not> shutdown_requested impl \<and> task_queue_is_full (Some (queue cq))
      then (case enqueue_waits r p of (wait_start, p) \<Rightarrow> do {
        waiting \<leftarrow> sched_condition_wait_begin (Some (not_full impl)) (Some (mutex impl));
        (case waiting of
           None \<Rightarrow> ret ((Asleep, Some (cq\<lparr>implementation :=
             Some (impl\<lparr>waiting_producers := waiting_producers impl + 1\<rparr>)\<rparr>)), wait_start, p)
         | Some failed \<Rightarrow> do {
             sched_mutex_unlock (Some (mutex impl));
             ret ((Returned CONCURRENT_TASK_QUEUE_ERROR_SYSTEM, Some cq), wait_start, p) }) })
      else (case enqueue_body CONCURRENT_TASK_QUEUE_ERROR_SYSTEM cq impl t of (result, inserted, was_empty, cq') \<Rightarrow> do {
        let p = (if inserted then enqueue_stored waited (queue cq') p else p);
        result \<leftarrow>
          (if inserted \<and> (\<not> ts \<or> was_empty \<or> waiting_consumers impl > 0) then do {
             signalled \<leftarrow> sched_condition_signal (Some (not_empty impl));
             ret (if signalled \<noteq> SCHED_SYNC_OK then CONCURRENT_TASK_QUEUE_ERROR_SYSTEM else result) }
           else ret result);
        let p = enqueue_signalled ts inserted was_empty impl p;
        unlocked \<leftarrow> sched_mutex_unlock (Some (mutex impl));
        ret ((Returned (if unlocked \<noteq> SCHED_SYNC_OK then CONCURRENT_TASK_QUEUE_ERROR_SYSTEM else result),
              Some cq'), 0, p) }))"

definition profiled_enqueue_begin ::
  "bool \<Rightarrow> ConcurrentTaskQueue option \<Rightarrow> task_ptr \<Rightarrow> reading \<times> reading \<times> reading \<Rightarrow> SchedulerProfilingSnapshot
     \<Rightarrow> ((ConcurrentTaskQueueResult progress \<times> ConcurrentTaskQueue option) \<times> u64 \<times> SchedulerProfilingSnapshot) native" where
  "profiled_enqueue_begin ts wrapper task rs p = (case rs of (r0, r1, r2) \<Rightarrow>
     (case (wrapper, Option.bind wrapper implementation, task) of
        (Some cq, Some impl, Some t) \<Rightarrow> (case profiling_now r0 p of (lock_start, p) \<Rightarrow> do {
          locked \<leftarrow> sched_mutex_lock (Some (mutex impl));
          if locked \<noteq> SCHED_SYNC_OK
          then ret ((Returned CONCURRENT_TASK_QUEUE_ERROR_SYSTEM, Some cq), 0, p)
          else profiled_enqueue_loop ts cq impl t False r2 (enqueue_locked lock_start r1 p) })
      | _ \<Rightarrow> ret ((Returned CONCURRENT_TASK_QUEUE_ERROR_INVALID_ARGUMENT, wrapper), 0, p)))"

definition profiled_enqueue_resume ::
  "bool \<Rightarrow> ConcurrentTaskQueue \<Rightarrow> ConcurrentTaskQueueImplementation \<Rightarrow> addr \<Rightarrow> u64 \<Rightarrow> reading \<times> reading \<times> reading
     \<Rightarrow> SchedulerProfilingSnapshot
     \<Rightarrow> ((ConcurrentTaskQueueResult progress \<times> ConcurrentTaskQueue option) \<times> u64 \<times> SchedulerProfilingSnapshot) native" where
  "profiled_enqueue_resume ts cq impl t wait_start rs p = (case rs of (r0, r1, r2) \<Rightarrow> do {
     waited \<leftarrow> sched_condition_wait_end (Some (mutex impl));
     let impl = impl\<lparr>waiting_producers := waiting_producers impl - 1\<rparr>;
     let cq = cq\<lparr>implementation := Some impl\<rparr>;
     if waited \<noteq> SCHED_SYNC_OK then do {
       sched_mutex_unlock (Some (mutex impl));
       ret ((Returned CONCURRENT_TASK_QUEUE_ERROR_SYSTEM, Some cq), 0, p) }
     else profiled_enqueue_loop ts cq impl t True r2 (enqueue_woke wait_start r1 cq impl p) })"

section \<open>The blocking dequeue\<close>

text \<open>A counter of a worker, which threads that are no workers leave alone.\<close>

definition worker_add :: "(nat \<Rightarrow> counter) \<Rightarrow> size_t \<Rightarrow> u64 \<Rightarrow> SchedulerProfilingSnapshot \<Rightarrow> SchedulerProfilingSnapshot" where
  "worker_add c worker_index v p =
     (if worker_index < SCHEDULER_PROFILING_MAX_WORKERS then profiling_add (c (unat worker_index)) v p else p)"

definition worker_elapsed ::
  "(nat \<Rightarrow> counter) \<Rightarrow> size_t \<Rightarrow> u64 \<Rightarrow> u64 \<Rightarrow> SchedulerProfilingSnapshot \<Rightarrow> SchedulerProfilingSnapshot" where
  "worker_elapsed c worker_index t0 t1 p =
     (if worker_index < SCHEDULER_PROFILING_MAX_WORKERS
      then (case profiling_elapsed t0 t1 p of (elapsed, p) \<Rightarrow> profiling_add (c (unat worker_index)) elapsed p) else p)"

definition dequeue_locked :: "size_t \<Rightarrow> u64 \<Rightarrow> reading \<Rightarrow> SchedulerProfilingSnapshot \<Rightarrow> SchedulerProfilingSnapshot" where
  "dequeue_locked worker_index lock_start r p =
     (let (lock_end, p) = profiling_now r p;
          p = profiling_increment Dequeue_attempts p;
          p = profiling_increment Dequeue_lock_attempts p;
          p = profiling_record_duration lock_start lock_end Dequeue_lock_wait_ticks Dequeue_lock_max_wait_ticks p;
          (contended, p) = profiling_inferred_contended lock_start lock_end p;
          p = (if contended then profiling_increment Dequeue_inferred_contended p else p)
      in worker_elapsed Worker_dequeue_lock_ticks worker_index lock_start lock_end p)"

definition dequeue_waits :: "size_t \<Rightarrow> reading \<Rightarrow> SchedulerProfilingSnapshot \<Rightarrow> u64 \<times> SchedulerProfilingSnapshot" where
  "dequeue_waits worker_index r p =
     (let p = profiling_increment Queue_empty_observations p;
          p = profiling_increment Dequeue_wait_count p;
          p = worker_add Worker_dequeue_wait_count worker_index 1 p
      in profiling_now r p)"

definition dequeue_woke ::
  "size_t \<Rightarrow> u64 \<Rightarrow> reading \<Rightarrow> ConcurrentTaskQueue \<Rightarrow> ConcurrentTaskQueueImplementation \<Rightarrow> SchedulerProfilingSnapshot
     \<Rightarrow> SchedulerProfilingSnapshot" where
  "dequeue_woke worker_index wait_start r cq impl p =
     (let (wait_end, p) = profiling_now r p;
          p = profiling_increment Dequeue_wait_returns p;
          p = profiling_record_duration wait_start wait_end Dequeue_wait_ticks Dequeue_wait_max_ticks p;
          p = worker_elapsed Worker_dequeue_wait_ticks worker_index wait_start wait_end p
      in if \<not> shutdown_requested impl \<and> task_queue_is_empty (Some (queue cq))
         then profiling_increment Dequeue_predicate_false_wakeups p else p)"

definition dequeue_handed :: "size_t \<Rightarrow> bool \<Rightarrow> TaskQueue \<Rightarrow> SchedulerProfilingSnapshot \<Rightarrow> SchedulerProfilingSnapshot" where
  "dequeue_handed worker_index waited q p =
     (let p = (if waited then profiling_increment Dequeue_successes_after_wait p
               else profiling_increment Dequeue_immediate_successes p);
          p = worker_add Worker_tasks worker_index 1 p
      in profiling_record_occupancy q p)"

definition dequeue_signalled ::
  "bool \<Rightarrow> bool \<Rightarrow> bool \<Rightarrow> ConcurrentTaskQueueImplementation \<Rightarrow> SchedulerProfilingSnapshot \<Rightarrow> SchedulerProfilingSnapshot" where
  "dequeue_signalled ts removed was_full impl p =
     (if removed \<and> (\<not> ts \<or> was_full \<or> waiting_producers impl > 0) then profiling_increment Not_full_signals p
      else if removed then profiling_increment Avoided_not_full_signals p else p)"

definition profiled_dequeue_loop ::
  "bool \<Rightarrow> ConcurrentTaskQueue \<Rightarrow> ConcurrentTaskQueueImplementation \<Rightarrow> size_t \<Rightarrow> bool \<Rightarrow> reading
     \<Rightarrow> SchedulerProfilingSnapshot
     \<Rightarrow> (((ConcurrentTaskQueueResult \<times> task_ptr) progress \<times> ConcurrentTaskQueue option)
          \<times> u64 \<times> SchedulerProfilingSnapshot) native" where
  "profiled_dequeue_loop ts cq impl worker_index waited r p =
     (if \<not> shutdown_requested impl \<and> task_queue_is_empty (Some (queue cq))
      then (case dequeue_waits worker_index r p of (wait_start, p) \<Rightarrow> do {
        waiting \<leftarrow> sched_condition_wait_begin (Some (not_empty impl)) (Some (mutex impl));
        (case waiting of
           None \<Rightarrow> ret ((Asleep, Some (cq\<lparr>implementation :=
             Some (impl\<lparr>waiting_consumers := waiting_consumers impl + 1\<rparr>)\<rparr>)), wait_start, p)
         | Some failed \<Rightarrow> do {
             sched_mutex_unlock (Some (mutex impl));
             ret ((Returned (CONCURRENT_TASK_QUEUE_ERROR_SYSTEM, None), Some cq), wait_start, p) }) })
      else (case dequeue_body CONCURRENT_TASK_QUEUE_ERROR_SHUTDOWN cq of (result, removed_task, was_full, cq') \<Rightarrow> do {
        let p = (if removed_task \<noteq> None then dequeue_handed worker_index waited (queue cq') p else p);
        result \<leftarrow>
          (if removed_task \<noteq> None \<and> (\<not> ts \<or> was_full \<or> waiting_producers impl > 0) then do {
             signalled \<leftarrow> sched_condition_signal (Some (not_full impl));
             ret (if signalled \<noteq> SCHED_SYNC_OK then CONCURRENT_TASK_QUEUE_ERROR_SYSTEM else result) }
           else ret result);
        let p = dequeue_signalled ts (removed_task \<noteq> None) was_full impl p;
        unlocked \<leftarrow> sched_mutex_unlock (Some (mutex impl));
        ret ((Returned (if unlocked \<noteq> SCHED_SYNC_OK then CONCURRENT_TASK_QUEUE_ERROR_SYSTEM else result, removed_task),
              Some cq'), 0, p) }))"

definition profiled_dequeue_begin ::
  "bool \<Rightarrow> ConcurrentTaskQueue option \<Rightarrow> bool \<Rightarrow> size_t \<Rightarrow> reading \<times> reading \<times> reading \<Rightarrow> SchedulerProfilingSnapshot
     \<Rightarrow> (((ConcurrentTaskQueueResult \<times> task_ptr) progress \<times> ConcurrentTaskQueue option)
          \<times> u64 \<times> SchedulerProfilingSnapshot) native" where
  "profiled_dequeue_begin ts wrapper out worker_index rs p = (case rs of (r0, r1, r2) \<Rightarrow>
     (case (wrapper, Option.bind wrapper implementation, out) of
        (Some cq, Some impl, True) \<Rightarrow> (case profiling_now r0 p of (lock_start, p) \<Rightarrow> do {
          locked \<leftarrow> sched_mutex_lock (Some (mutex impl));
          if locked \<noteq> SCHED_SYNC_OK
          then ret ((Returned (CONCURRENT_TASK_QUEUE_ERROR_SYSTEM, None), Some cq), 0, p)
          else profiled_dequeue_loop ts cq impl worker_index False r2 (dequeue_locked worker_index lock_start r1 p) })
      | _ \<Rightarrow> ret ((Returned (CONCURRENT_TASK_QUEUE_ERROR_INVALID_ARGUMENT, None), wrapper), 0, p)))"

definition profiled_dequeue_resume ::
  "bool \<Rightarrow> ConcurrentTaskQueue \<Rightarrow> ConcurrentTaskQueueImplementation \<Rightarrow> size_t \<Rightarrow> u64 \<Rightarrow> reading \<times> reading \<times> reading
     \<Rightarrow> SchedulerProfilingSnapshot
     \<Rightarrow> (((ConcurrentTaskQueueResult \<times> task_ptr) progress \<times> ConcurrentTaskQueue option)
          \<times> u64 \<times> SchedulerProfilingSnapshot) native" where
  "profiled_dequeue_resume ts cq impl worker_index wait_start rs p = (case rs of (r0, r1, r2) \<Rightarrow> do {
     waited \<leftarrow> sched_condition_wait_end (Some (mutex impl));
     let impl = impl\<lparr>waiting_consumers := waiting_consumers impl - 1\<rparr>;
     let cq = cq\<lparr>implementation := Some impl\<rparr>;
     if waited \<noteq> SCHED_SYNC_OK then do {
       sched_mutex_unlock (Some (mutex impl));
       ret ((Returned (CONCURRENT_TASK_QUEUE_ERROR_SYSTEM, None), Some cq), 0, p) }
     else profiled_dequeue_loop ts cq impl worker_index True r2
       (dequeue_woke worker_index wait_start r1 cq impl p) })"

section \<open>Shutdown, initialization and the copies\<close>

definition profiled_shutdown ::
  "ConcurrentTaskQueue option \<Rightarrow> SchedulerProfilingSnapshot
     \<Rightarrow> ((ConcurrentTaskQueueResult \<times> ConcurrentTaskQueue option) \<times> SchedulerProfilingSnapshot) native" where
  "profiled_shutdown wrapper p =
     (case Option.bind wrapper implementation of
        None \<Rightarrow> ret ((CONCURRENT_TASK_QUEUE_ERROR_INVALID_ARGUMENT, wrapper), p)
      | Some impl \<Rightarrow> do {
          locked \<leftarrow> sched_mutex_lock (Some (mutex impl));
          if locked \<noteq> SCHED_SYNC_OK then ret ((CONCURRENT_TASK_QUEUE_ERROR_SYSTEM, wrapper), p)
          else do {
            let impl' = impl\<lparr>shutdown_requested := True\<rparr>;
            let p = profiling_add Shutdown_broadcasts 2 p;
            first \<leftarrow> sched_condition_broadcast (Some (not_empty impl));
            second \<leftarrow> sched_condition_broadcast (Some (not_full impl));
            unlocked \<leftarrow> sched_mutex_unlock (Some (mutex impl));
            let synchronization_failed = first \<noteq> SCHED_SYNC_OK \<or> second \<noteq> SCHED_SYNC_OK
              \<or> unlocked \<noteq> SCHED_SYNC_OK;
            ret ((if synchronization_failed then CONCURRENT_TASK_QUEUE_ERROR_SYSTEM
                  else CONCURRENT_TASK_QUEUE_OK,
                  map_option (\<lambda>cq. cq\<lparr>implementation := Some impl'\<rparr>) wrapper), p) } })"

text \<open>
  The initialization queries the frequency of the timer between the allocation of the
  implementation and the mutex; the new profile, or \<^term>\<open>None\<close> when the query fails.
\<close>

definition profiled_frequency :: "reading \<Rightarrow> SchedulerProfilingSnapshot option" where
  "profiled_frequency frequency = (case frequency of
      None \<Rightarrow> None
    | Some v \<Rightarrow> if sint v \<le> 0 then None else Some (zero_profile\<lparr>timer_frequency := v\<rparr>))"

definition profiled_init ::
  "reading \<Rightarrow> ConcurrentTaskQueue option \<Rightarrow> size_t \<Rightarrow>
     ((ConcurrentTaskQueueResult \<times> ConcurrentTaskQueue option) \<times> SchedulerProfilingSnapshot option) native" where
  "profiled_init frequency wrapper cap = (case wrapper of
      None \<Rightarrow> ret ((CONCURRENT_TASK_QUEUE_ERROR_INVALID_ARGUMENT, None), None)
    | Some cq \<Rightarrow>
      if cap = 0 \<or> cap > SIZE_MAX div SIZEOF_TASK_PTR
      then ret ((CONCURRENT_TASK_QUEUE_ERROR_INVALID_ARGUMENT, Some cq), None)
      else do {
        (queue_result, temporary_queue) \<leftarrow> task_queue_init (Some zero_queue) cap;
        if queue_result \<noteq> TASK_QUEUE_OK then ret ((map_task_queue_result queue_result, Some cq), None)
        else do {
          block \<leftarrow> allocate;
          (case block of
             None \<Rightarrow> do {
               task_queue_destroy temporary_queue;
               ret ((CONCURRENT_TASK_QUEUE_ERROR_ALLOCATION, Some cq), None) }
           | Some a \<Rightarrow> (case profiled_frequency frequency of
             None \<Rightarrow> do {
               free (Some a);
               task_queue_destroy temporary_queue;
               ret ((CONCURRENT_TASK_QUEUE_ERROR_SYSTEM, Some cq), None) }
           | Some p \<Rightarrow> do {
               (sync_result, m) \<leftarrow> sched_mutex_init (Some (mutex (zero_implementation a)));
               if sync_result \<noteq> SCHED_SYNC_OK then do {
                 free (Some a);
                 task_queue_destroy temporary_queue;
                 ret ((map_sync_result sync_result, Some cq), None) }
               else do {
                 (sync_result, e) \<leftarrow> sched_condition_init (Some (not_empty (zero_implementation a)));
                 if sync_result \<noteq> SCHED_SYNC_OK then do {
                   sched_mutex_destroy m;
                   free (Some a);
                   task_queue_destroy temporary_queue;
                   ret ((map_sync_result sync_result, Some cq), None) }
                 else do {
                   (sync_result, f) \<leftarrow> sched_condition_init (Some (not_full (zero_implementation a)));
                   if sync_result \<noteq> SCHED_SYNC_OK then do {
                     sched_condition_destroy e;
                     sched_mutex_destroy m;
                     free (Some a);
                     task_queue_destroy temporary_queue;
                     ret ((map_sync_result sync_result, Some cq), None) }
                   else ret ((CONCURRENT_TASK_QUEUE_OK,
                     Some (cq\<lparr>queue := the temporary_queue,
                       implementation := Some ((zero_implementation a)\<lparr>mutex := the m,
                         not_empty := the e, not_full := the f\<rparr>)\<rparr>)), Some p) } } })) } })"

definition concurrent_task_queue_profiling_snapshot ::
  "ConcurrentTaskQueue option \<Rightarrow> size_t \<Rightarrow> bool \<Rightarrow> SchedulerProfilingSnapshot
     \<Rightarrow> (bool \<times> SchedulerProfilingSnapshot option \<times> SchedulerProfilingSnapshot) native" where
  "concurrent_task_queue_profiling_snapshot wrapper count out p =
     (case Option.bind wrapper implementation of
        None \<Rightarrow> ret (False, None, p)
      | Some impl \<Rightarrow>
        if \<not> out \<or> count > SCHEDULER_PROFILING_MAX_WORKERS then ret (False, None, p)
        else do {
          locked \<leftarrow> sched_mutex_lock (Some (mutex impl));
          if locked \<noteq> SCHED_SYNC_OK then ret (False, None, p)
          else do {
            let p = p\<lparr>prof_worker_count := count\<rparr>;
            unlocked \<leftarrow> sched_mutex_unlock (Some (mutex impl));
            ret (unlocked = SCHED_SYNC_OK, Some p, p) } })"

section \<open>The profile of a part\<close>

text \<open>What the parts of the calls leave in the profile, apart from what they do.\<close>

definition enqueue_rest ::
  "bool \<Rightarrow> ConcurrentTaskQueue \<Rightarrow> ConcurrentTaskQueueImplementation \<Rightarrow> addr \<Rightarrow> bool \<Rightarrow> reading
     \<Rightarrow> SchedulerProfilingSnapshot \<Rightarrow> u64 \<times> SchedulerProfilingSnapshot" where
  "enqueue_rest ts cq impl t waited r p =
     (if \<not> shutdown_requested impl \<and> task_queue_is_full (Some (queue cq)) then enqueue_waits r p
      else (case enqueue_body CONCURRENT_TASK_QUEUE_ERROR_SYSTEM cq impl t of (result, inserted, was_empty, cq') \<Rightarrow>
        (0, enqueue_signalled ts inserted was_empty impl
          (if inserted then enqueue_stored waited (queue cq') p else p))))"

definition dequeue_rest ::
  "bool \<Rightarrow> ConcurrentTaskQueue \<Rightarrow> ConcurrentTaskQueueImplementation \<Rightarrow> size_t \<Rightarrow> bool \<Rightarrow> reading
     \<Rightarrow> SchedulerProfilingSnapshot \<Rightarrow> u64 \<times> SchedulerProfilingSnapshot" where
  "dequeue_rest ts cq impl worker_index waited r p =
     (if \<not> shutdown_requested impl \<and> task_queue_is_empty (Some (queue cq)) then dequeue_waits worker_index r p
      else (case dequeue_body CONCURRENT_TASK_QUEUE_ERROR_SHUTDOWN cq of (result, removed_task, was_full, cq') \<Rightarrow>
        (0, dequeue_signalled ts (removed_task \<noteq> None) was_full impl
          (if removed_task \<noteq> None then dequeue_handed worker_index waited (queue cq') p else p))))"

text \<open>A computation that does what another does and returns something more.\<close>

definition beside :: "'a \<times> world \<Rightarrow> 'b \<Rightarrow> ('a \<times> 'b) \<times> world" where
  "beside outcome y = (case outcome of (x, w) \<Rightarrow> ((x, y), w))"

definition plain :: "('a \<times> 'b) \<times> world \<Rightarrow> 'a \<times> world" where
  "plain outcome = (case outcome of ((x, y), w) \<Rightarrow> (x, w))"

lemma beside_simps [simp]: "plain (beside out y) = out" "beside (x, w) y = ((x, y), w)" "plain ((x, y), w) = (x, w)"
  by (simp_all add: beside_def plain_def split: prod.splits)

lemma enqueue_loop_beside:
  "run_state (profiled_enqueue_loop ts cq impl t waited r p) w
     = beside (run_state (enqueue_loop ts cq impl t) w) (enqueue_rest ts cq impl t waited r p)"
  by (simp add: profiled_enqueue_loop_def enqueue_loop_def enqueue_rest_def enqueue_epilogue_def Let_def beside_def
      split: prod.splits option.splits)

lemma dequeue_loop_beside:
  "run_state (profiled_dequeue_loop ts cq impl i waited r p) w
     = beside (run_state (dequeue_loop ts cq impl) w) (dequeue_rest ts cq impl i waited r p)"
  by (simp add: profiled_dequeue_loop_def dequeue_loop_def dequeue_rest_def dequeue_epilogue_def Let_def beside_def
      split: prod.splits option.splits)

lemma enqueue_begin_plain:
  "plain (run_state (profiled_enqueue_begin ts wrapper task rs p) w)
     = run_state (concurrent_task_queue_enqueue_begin ts wrapper task) w"
  by (simp add: profiled_enqueue_begin_def concurrent_task_queue_enqueue_begin_def enqueue_loop_beside run_if
      split: prod.splits option.splits)

lemma dequeue_begin_plain:
  "plain (run_state (profiled_dequeue_begin ts wrapper out i rs p) w)
     = run_state (concurrent_task_queue_dequeue_begin ts wrapper out) w"
  by (simp add: profiled_dequeue_begin_def concurrent_task_queue_dequeue_begin_def dequeue_loop_beside run_if
      split: prod.splits option.splits bool.splits)

lemma enqueue_resume_plain:
  "plain (run_state (profiled_enqueue_resume ts cq impl t s rs p) w)
     = run_state (concurrent_task_queue_enqueue_resume ts cq impl t) w"
  by (simp add: profiled_enqueue_resume_def concurrent_task_queue_enqueue_resume_def enqueue_loop_beside run_if Let_def
      split: prod.splits)

lemma dequeue_resume_plain:
  "plain (run_state (profiled_dequeue_resume ts cq impl i s rs p) w)
     = run_state (concurrent_task_queue_dequeue_resume ts cq impl) w"
  by (simp add: profiled_dequeue_resume_def concurrent_task_queue_dequeue_resume_def dequeue_loop_beside run_if Let_def
      split: prod.splits)

lemma shutdown_plain:
  "plain (run_state (profiled_shutdown wrapper p) w)
     = run_state (concurrent_task_queue_shutdown wrapper) w"
  by (simp add: profiled_shutdown_def concurrent_task_queue_shutdown_def run_if Let_def split: prod.splits option.splits)

text \<open>With a queue in order, the profile a part returns.\<close>

lemma enqueue_begin_rest:
  assumes "cq_ok cq w" "implementation cq = Some impl"
  shows "run_state (profiled_enqueue_begin ts (Some cq) (Some t) (r0, r1, r2) p) w
    = beside (run_state (concurrent_task_queue_enqueue_begin ts (Some cq) (Some t)) w)
        (enqueue_rest ts cq impl t False r2 (case profiling_now r0 p of (t0, p) \<Rightarrow> enqueue_locked t0 r1 p))"
  using assms by (auto simp: profiled_enqueue_begin_def concurrent_task_queue_enqueue_begin_def enqueue_loop_beside sync_simps
      elim!: cq_okE split: prod.splits)

lemma dequeue_begin_rest:
  assumes "cq_ok cq w" "implementation cq = Some impl"
  shows "run_state (profiled_dequeue_begin ts (Some cq) True i (r0, r1, r2) p) w
    = beside (run_state (concurrent_task_queue_dequeue_begin ts (Some cq) True) w)
        (dequeue_rest ts cq impl i False r2 (case profiling_now r0 p of (t0, p) \<Rightarrow> dequeue_locked i t0 r1 p))"
  using assms by (auto simp: profiled_dequeue_begin_def concurrent_task_queue_dequeue_begin_def dequeue_loop_beside sync_simps
      elim!: cq_okE split: prod.splits)

lemma enqueue_resume_rest:
  assumes "cq_ok cq w" "implementation cq = Some impl"
  defines "impl' \<equiv> impl\<lparr>waiting_producers := waiting_producers impl - 1\<rparr>"
  shows "run_state (profiled_enqueue_resume ts cq impl t t0 (r0, r1, r2) p) w
    = beside (run_state (concurrent_task_queue_enqueue_resume ts cq impl t) w)
        (if next_answer w
         then enqueue_rest ts (cq\<lparr>implementation := Some impl'\<rparr>) impl' t True r2
           (enqueue_woke t0 r1 (cq\<lparr>implementation := Some impl'\<rparr>) impl' p)
         else (0, p))"
  using assms(1,2) by (auto simp: profiled_enqueue_resume_def concurrent_task_queue_enqueue_resume_def enqueue_loop_beside
      sync_simps Let_def impl'_def elim!: cq_okE split: prod.splits)

lemma dequeue_resume_rest:
  assumes "cq_ok cq w" "implementation cq = Some impl"
  defines "impl' \<equiv> impl\<lparr>waiting_consumers := waiting_consumers impl - 1\<rparr>"
  shows "run_state (profiled_dequeue_resume ts cq impl i t0 (r0, r1, r2) p) w
    = beside (run_state (concurrent_task_queue_dequeue_resume ts cq impl) w)
        (if next_answer w
         then dequeue_rest ts (cq\<lparr>implementation := Some impl'\<rparr>) impl' i True r2
           (dequeue_woke i t0 r1 (cq\<lparr>implementation := Some impl'\<rparr>) impl' p)
         else (0, p))"
  using assms(1,2) by (auto simp: profiled_dequeue_resume_def concurrent_task_queue_dequeue_resume_def dequeue_loop_beside
      sync_simps Let_def impl'_def elim!: cq_okE split: prod.splits)

lemma shutdown_rest:
  assumes "cq_ok cq w"
  shows "run_state (profiled_shutdown (Some cq) p) w
    = beside (run_state (concurrent_task_queue_shutdown (Some cq)) w) (profiling_add Shutdown_broadcasts 2 p)"
  using assms by (auto simp: profiled_shutdown_def concurrent_task_queue_shutdown_def sync_simps Let_def
      elim!: cq_okE split: prod.splits)

section \<open>Initialization\<close>

lemma init_plain:
  assumes "profiled_frequency frequency = Some p"
  shows "run_state (profiled_init frequency wrapper cap) w = (case run_state (concurrent_task_queue_init wrapper cap) w of
    (x, w') \<Rightarrow> ((x, if fst x = CONCURRENT_TASK_QUEUE_OK then Some p else None), w'))"
  by (auto simp: profiled_init_def concurrent_task_queue_init_def assms run_if map_task_queue_result_def map_sync_result_def split: prod.splits option.splits TaskQueueResult.splits SchedSyncResult.splits)

lemma init_unmeasured:
  assumes own: "ledger_ok w" "set (held w) \<subseteq> sections w" and none: "profiled_frequency frequency = None"
  shows "wp (profiled_init frequency (Some raw) cap)
    (\<lambda>(x, p) w'. fst x \<noteq> CONCURRENT_TASK_QUEUE_OK \<and> snd x = Some raw \<and> p = None \<and> same_resources w w') w"
    (is "wp _ ?P w")
proof (cases "cap = 0 \<or> cap > SIZE_MAX div SIZEOF_TASK_PTR")
  case True
  then show ?thesis by (simp add: profiled_init_def)
next
  case False
  then have cap: "cap \<noteq> 0" "cap \<le> SIZE_MAX div SIZEOF_TASK_PTR" by (auto simp: not_less)
  note o = owns_start [OF own]
  have drop: "wp (task_queue_destroy (Some q)) (\<lambda>r. same_resources w) w'"
    if "owns w w' {a} {} {}" "\<exists>xs. items q = Some (a, xs)" for a q w'
    by (rule wp_task_queue_destroy [OF that]) (auto dest: owns_done)
  show ?thesis
    unfolding profiled_init_def option.case none
    apply (simp only: False if_False wp_bind)
    apply (rule wp_task_queue_init [OF o cap])
     apply (simp add: map_task_queue_result_def owns_done)
    apply simp
    apply (rule wp_allocate, assumption)
     apply simp
     apply (rule drop, assumption, assumption)
    apply simp
    subgoal for a q w' i w''
      by (rule wp_free [of w w'' "{i, a}"]) (auto intro!: drop simp: insert_Diff_if)
    done
qed

lemma init_safe:
  assumes "ledger_ok w" "set (held w) \<subseteq> sections w"
  shows "wp (concurrent_task_queue_init (Some raw) cap) (\<lambda>(r, out) w'.
    if r = CONCURRENT_TASK_QUEUE_OK then \<exists>c. out = Some c \<and> cq_ok c w' else out = Some raw \<and> same_resources w w') w"
proof (cases "cap = 0 \<or> cap > SIZE_MAX div SIZEOF_TASK_PTR")
  case True
  then show ?thesis by (simp add: concurrent_task_queue_init_def)
next
  case False
  then have "cap \<noteq> 0" "cap \<le> SIZE_MAX div SIZEOF_TASK_PTR" by (auto simp: not_less)
  then show ?thesis by (rule wp_concurrent_init [OF owns_start [OF assms]]) (auto simp: owns_done)
qed

section \<open>Properties\<close>

text \<open>
  C22. The initialization of a profiled queue is safe whatever fails: when it does not succeed it
  gives everything back and leaves the wrapper alone, in particular when the timer has no
  frequency; when it succeeds the frequency is positive and kept in an otherwise empty profile,
  and the queue is the one that the initialization without profiling sets up.
\<close>

theorem profiled_init_safe:
  assumes "ledger_ok w" "set (held w) \<subseteq> sections w"
    "run_state (profiled_init frequency (Some raw) cap) w = (((r, out), p), w')"
  shows "(r \<noteq> CONCURRENT_TASK_QUEUE_OK \<and> out = Some raw \<and> p = None \<and> same_resources w w')
    \<or> (r = CONCURRENT_TASK_QUEUE_OK
       \<and> (\<exists>v. frequency = Some v \<and> 0 < sint v \<and> p = Some (zero_profile\<lparr>timer_frequency := v\<rparr>))
       \<and> run_state (concurrent_task_queue_init (Some raw) cap) w = ((r, out), w') \<and> (\<exists>c. out = Some c \<and> cq_ok c w'))"
proof (cases "profiled_frequency frequency")
  case None
  from wp_run [OF init_unmeasured [OF assms(1,2) None] assms(3)] show ?thesis by simp
next
  case (Some q)
  then have q: "\<exists>v. frequency = Some v \<and> 0 < sint v \<and> q = zero_profile\<lparr>timer_frequency := v\<rparr>"
    by (auto simp: profiled_frequency_def split: option.splits if_splits)
  from init_plain [OF Some, of "Some raw" cap w] assms(3)
  have base: "run_state (concurrent_task_queue_init (Some raw) cap) w = ((r, out), w')"
    "p = (if r = CONCURRENT_TASK_QUEUE_OK then Some q else None)" by (auto split: prod.splits)
  from wp_run [OF init_safe [OF assms(1,2)] base(1)] base q show ?thesis by (auto split: if_splits)
qed

theorem profiled_init_safe_witness:
  "\<exists>out p w'. run_state (profiled_init (Some 0) (Some zero_concurrent_queue) 4) sample_world
      = (((CONCURRENT_TASK_QUEUE_ERROR_SYSTEM, out), p), w') \<and> out = Some zero_concurrent_queue \<and> same_resources sample_world w'"
proof -
  have r: "fst (fst (fst (run_state (profiled_init (Some 0) (Some zero_concurrent_queue) 4) sample_world)))
      = CONCURRENT_TASK_QUEUE_ERROR_SYSTEM" by code_simp
  obtain r out p w' where run: "run_state (profiled_init (Some 0) (Some zero_concurrent_queue) 4) sample_world = (((r, out), p), w')"
    by (metis prod.collapse)
  have "ledger_ok sample_world" "set (held sample_world) \<subseteq> sections sample_world" by (simp_all add: sample_world_def ledger_ok_def)
  from profiled_init_safe [OF this run] run r show ?thesis by auto
qed

end
