(* ===== verification/Profile_Counters.thy ===== *)
theory Profile_Counters
  imports Queue_Profiling
begin

text \<open>
  What the counters of a profile say as long as none of them has overflowed: the rules that
  compute what a part of a call adds, and the balances between the counters that every part keeps.
\<close>

section \<open>Counters that have not overflowed\<close>

definition unless_overflow :: "((counter \<Rightarrow> nat) \<Rightarrow> bool) \<Rightarrow> SchedulerProfilingSnapshot \<Rightarrow> bool" where
  "unless_overflow Q p \<longleftrightarrow> counter_overflow p \<or> Q (\<lambda>c. unat (cell p c))"

lemma unless_mono: "unless_overflow P p \<Longrightarrow> (\<And>f. P f \<Longrightarrow> Q f) \<Longrightarrow> unless_overflow Q p"
  by (auto simp: unless_overflow_def)

lemma now_rule [simp]: "unless_overflow Q (snd (profiling_now r p)) = unless_overflow Q p"
  by (auto simp: profiling_now_def unless_overflow_def split: option.splits)

text \<open>The time between two readings, which does not depend on the profile.\<close>

definition lapse :: "u64 \<Rightarrow> u64 \<Rightarrow> u64" where
  "lapse t0 t1 = (if t1 < t0 then 0 else t1 - t0)"

lemma elapsed_rule [simp]:
  "fst (profiling_elapsed t0 t1 p) = lapse t0 t1"
  "unless_overflow Q (snd (profiling_elapsed t0 t1 p)) = unless_overflow Q p"
  "cell (snd (profiling_elapsed t0 t1 p)) = cell p"
  by (simp_all add: profiling_elapsed_def lapse_def unless_overflow_def)

lemma contended_rule [simp]:
  "unless_overflow Q (snd (profiling_inferred_contended t0 t1 p)) = unless_overflow Q p"
  by (simp add: profiling_inferred_contended_def Let_def split: prod.splits)
    (metis elapsed_rule(2) snd_conv)

lemma add_rule:
  assumes "unless_overflow (\<lambda>f. Q (f(c := f c + unat v))) p"
  shows "unless_overflow Q (profiling_add c v p)"
proof (cases "UINT64_MAX - cell p c < v")
  case True
  then show ?thesis by (simp add: profiling_add_def unless_overflow_def)
next
  case False
  then have "unat (cell p c + v) = unat (cell p c) + unat v"
    using add_saturating_unat [of "cell p c" v False] by (fastforce simp: add_saturating_def)
  then have "(\<lambda>d. unat (((cell p)(c := cell p c + v)) d)) = (\<lambda>d. unat (cell p d))(c := unat (cell p c) + unat v)"
    by (auto simp: fun_eq_iff)
  with False assms show ?thesis by (simp add: profiling_add_def unless_overflow_def)
qed

lemma increment_rule:
  "unless_overflow (\<lambda>f. Q (f(c := Suc (f c)))) p \<Longrightarrow> unless_overflow Q (profiling_increment c p)"
  unfolding profiling_increment_def by (rule add_rule) simp

lemma set_rule:
  "unless_overflow (\<lambda>f. Q (f(c := unat v))) p \<Longrightarrow> unless_overflow Q (set_cell c v p)"
proof -
  assume "unless_overflow (\<lambda>f. Q (f(c := unat v))) p"
  moreover have "(\<lambda>d. unat (((cell p)(c := v)) d)) = (\<lambda>d. unat (cell p d))(c := unat v)" by (auto simp: fun_eq_iff)
  ultimately show ?thesis by (simp add: unless_overflow_def)
qed

lemma raise_rule:
  "unless_overflow (\<lambda>f. Q (f(c := max (f c) (unat v)))) p
     \<Longrightarrow> unless_overflow Q (if v > cell p c then set_cell c v p else p)"
proof -
  assume a: "unless_overflow (\<lambda>f. Q (f(c := max (f c) (unat v)))) p"
  show ?thesis
  proof (cases "v > cell p c")
    case True
    then have "max (unat (cell p c)) (unat v) = unat v" by (simp add: word_less_nat_alt)
    with a have "unless_overflow (\<lambda>f. Q (f(c := unat v))) p" by (simp add: unless_overflow_def)
    from set_rule [of Q c v p, OF this] True show ?thesis by simp
  next
    case False
    then have "max (unat (cell p c)) (unat v) = unat (cell p c)" by (simp add: word_less_nat_alt)
    moreover have "(\<lambda>d. unat (cell p d))(c := unat (cell p c)) = (\<lambda>d. unat (cell p d))" by auto
    ultimately show ?thesis using a False by (simp add: unless_overflow_def)
  qed
qed

lemma duration_rule:
  assumes "unless_overflow (\<lambda>f. Q (f(s := f s + unat (lapse t0 t1), m := max (f m) (unat (lapse t0 t1))))) p" "s \<noteq> m"
  shows "unless_overflow Q (profiling_record_duration t0 t1 s m p)"
proof -
  let ?d = "lapse t0 t1" and ?p = "snd (profiling_elapsed t0 t1 p)"
  have "unless_overflow (\<lambda>f. Q (f(m := max (f m) (unat ?d)))) (profiling_add s ?d ?p)"
    by (rule add_rule) (use assms in simp)
  from raise_rule [OF this] show ?thesis
    unfolding profiling_record_duration_def Let_def case_prod_unfold elapsed_rule(1) .
qed

lemma worker_add_rule:
  assumes "unless_overflow (\<lambda>f. Q (if i < SCHEDULER_PROFILING_MAX_WORKERS
     then f(c (unat i) := f (c (unat i)) + unat v) else f)) p"
  shows "unless_overflow Q (worker_add c i v p)"
  using assms by (cases "i < SCHEDULER_PROFILING_MAX_WORKERS") (auto simp: worker_add_def intro: add_rule)

lemma worker_elapsed_rule:
  assumes "unless_overflow (\<lambda>f. Q (if i < SCHEDULER_PROFILING_MAX_WORKERS
     then f(c (unat i) := f (c (unat i)) + unat (lapse t0 t1)) else f)) p"
  shows "unless_overflow Q (worker_elapsed c i t0 t1 p)"
proof (cases "i < SCHEDULER_PROFILING_MAX_WORKERS")
  case True
  have "unless_overflow Q (profiling_add (c (unat i)) (lapse t0 t1) (snd (profiling_elapsed t0 t1 p)))"
    by (rule add_rule) (use assms True in simp)
  then show ?thesis using True by (simp add: worker_elapsed_def case_prod_unfold)
qed (use assms in \<open>simp add: worker_elapsed_def\<close>)

text \<open>One sample of the number of queued tasks.\<close>

definition sampled :: "nat \<Rightarrow> nat \<Rightarrow> (counter \<Rightarrow> nat) \<Rightarrow> counter \<Rightarrow> nat" where
  "sampled n cap f = f(Occupancy_sample_count := Suc (f Occupancy_sample_count),
     Occupancy_sample_sum := f Occupancy_sample_sum + n,
     Occupancy_min := if f Occupancy_sample_count = 0 \<or> n < f Occupancy_min then n else f Occupancy_min,
     Occupancy_max := max (f Occupancy_max) n,
     Occupancy_zero_observations := f Occupancy_zero_observations + (if n = 0 then 1 else 0),
     Occupancy_full_observations := f Occupancy_full_observations + (if n = cap then 1 else 0))"

lemma increment_if_rule:
  "unless_overflow (\<lambda>f. Q (f(c := f c + (if b then 1 else 0)))) p
     \<Longrightarrow> unless_overflow Q (if b then profiling_increment c p else p)"
  by (cases b) (auto intro: increment_rule)

lemma lowest_rule:
  assumes "unless_overflow (\<lambda>f. Q (f(Occupancy_min := if f Occupancy_sample_count = 1 \<or> unat n < f Occupancy_min
      then unat n else f Occupancy_min))) p"
  shows "unless_overflow Q (if cell p Occupancy_sample_count = 1 \<or> n < cell p Occupancy_min
    then set_cell Occupancy_min n p else p)"
proof -
  have one: "unat (cell p Occupancy_sample_count) = 1 \<longleftrightarrow> cell p Occupancy_sample_count = 1"
    using unat_eq_iff [of "cell p Occupancy_sample_count" 1] by simp
  show ?thesis
  proof (cases "cell p Occupancy_sample_count = 1 \<or> n < cell p Occupancy_min")
    case True
    then have "unless_overflow (\<lambda>f. Q (f(Occupancy_min := unat n))) p"
      using assms one by (auto simp: unless_overflow_def word_less_nat_alt)
    with True show ?thesis by (simp add: set_rule)
  next
    case False
    moreover have "(\<lambda>d. unat (cell p d))(Occupancy_min := unat (cell p Occupancy_min)) = (\<lambda>d. unat (cell p d))" by auto
    ultimately show ?thesis using assms one by (auto simp: unless_overflow_def word_less_nat_alt)
  qed
qed

lemma occupancy_rule:
  assumes "unless_overflow (\<lambda>f. Q (sampled (unat (qsize q)) (unat (capacity q)) f)) p"
  shows "unless_overflow Q (profiling_record_occupancy q p)"
  unfolding profiling_record_occupancy_def Let_def task_queue_size_def task_queue_capacity_def option.case
  apply (rule increment_if_rule)
  apply (rule increment_if_rule)
  apply (rule raise_rule)
  apply (rule lowest_rule)
  apply (rule add_rule)
  apply (rule increment_rule)
  using assms
  apply (rule unless_mono)
  apply (erule back_subst [of Q])
  apply (simp add: sampled_def fun_eq_iff unat_eq_zero unat_eq_iff)
  done

section \<open>The balances\<close>

text \<open>The sum of an array of the workers.\<close>

definition workers :: "(nat \<Rightarrow> counter) \<Rightarrow> (counter \<Rightarrow> nat) \<Rightarrow> nat" where
  "workers c f = (\<Sum>j<64. f (c j))"

lemma workers_other [simp]: "(\<And>j. c j \<noteq> x) \<Longrightarrow> workers c (f(x := v)) = workers c f"
  by (simp add: workers_def)

lemma workers_own:
  assumes "inj c" "n < 64"
  shows "workers c (f(c n := v)) = workers c f + v - f (c n)"
proof -
  have eq: "(\<Sum>j<64. g (c j)) = g (c n) + (\<Sum>j \<in> {..<64} - {n}. g (c j))" for g :: "counter \<Rightarrow> nat"
    using assms(2) by (simp add: sum.remove [of "{..<64}" n])
  have "(\<Sum>j \<in> {..<64} - {n}. (f(c n := v)) (c j)) = (\<Sum>j \<in> {..<64} - {n}. f (c j))"
    by (rule sum.cong) (use assms(1) in \<open>auto simp: inj_eq\<close>)
  then show ?thesis using eq [of f] eq [of "f(c n := v)"] by (simp add: workers_def)
qed

lemma index_range: "i < SCHEDULER_PROFILING_MAX_WORKERS \<Longrightarrow> unat i < 64"
  by (simp add: SCHEDULER_PROFILING_MAX_WORKERS_def word_less_nat_alt)

lemma worker_arrays_inj: "inj Worker_tasks" "inj Worker_dequeue_wait_count" "inj Worker_dequeue_wait_ticks"
  "inj Worker_dequeue_lock_ticks"
  by (simp_all add: inj_def)

lemmas workers_index [simp] = workers_own [OF worker_arrays_inj(1) index_range] workers_own [OF worker_arrays_inj(2) index_range]
  workers_own [OF worker_arrays_inj(3) index_range] workers_own [OF worker_arrays_inj(4) index_range]

text \<open>
  The counters of the enqueues and of the dequeues, with \<open>k\<close> callers in a wait. Inside a call
  that has taken the mutex \<open>running\<close> holds, \<open>sleepy\<close> when it will wait (again), and \<open>waited\<close> when
  it has waited; between the steps none of them does.
\<close>

definition enqueue_table :: "bool \<Rightarrow> bool \<Rightarrow> bool \<Rightarrow> nat \<Rightarrow> (counter \<Rightarrow> nat) \<Rightarrow> bool" where
  "enqueue_table running sleepy waited k f \<longleftrightarrow>
     f Enqueue_lock_attempts = f Enqueue_attempts
   \<and> f Queue_full_observations = f Enqueue_wait_count
   \<and> f Enqueue_immediate_successes + f Enqueue_successes_after_wait = f Not_empty_signals + f Avoided_not_empty_signals
   \<and> f Enqueue_immediate_successes + f Enqueue_successes_after_wait + k + (if running then 1 else 0) \<le> f Enqueue_attempts
   \<and> f Enqueue_wait_returns + k \<le> f Enqueue_wait_count
   \<and> f Enqueue_predicate_false_wakeups \<le> f Enqueue_wait_returns
   \<and> f Enqueue_wait_count + (if sleepy then 1 else 0) \<le> f Enqueue_attempts + f Enqueue_predicate_false_wakeups
   \<and> f Enqueue_successes_after_wait + (if waited then 1 else 0) \<le> f Enqueue_wait_returns
   \<and> f Enqueue_inferred_contended \<le> f Enqueue_lock_attempts
   \<and> f Enqueue_lock_max_wait_ticks \<le> f Enqueue_lock_wait_ticks
   \<and> f Enqueue_wait_max_ticks \<le> f Enqueue_wait_ticks"

definition dequeue_table :: "bool \<Rightarrow> bool \<Rightarrow> bool \<Rightarrow> nat \<Rightarrow> (counter \<Rightarrow> nat) \<Rightarrow> bool" where
  "dequeue_table running sleepy waited k f \<longleftrightarrow>
     f Dequeue_lock_attempts = f Dequeue_attempts
   \<and> f Queue_empty_observations = f Dequeue_wait_count
   \<and> f Dequeue_immediate_successes + f Dequeue_successes_after_wait = f Not_full_signals + f Avoided_not_full_signals
   \<and> f Dequeue_immediate_successes + f Dequeue_successes_after_wait + k + (if running then 1 else 0) \<le> f Dequeue_attempts
   \<and> f Dequeue_wait_returns + k \<le> f Dequeue_wait_count
   \<and> f Dequeue_predicate_false_wakeups \<le> f Dequeue_wait_returns
   \<and> f Dequeue_wait_count + (if sleepy then 1 else 0) \<le> f Dequeue_attempts + f Dequeue_predicate_false_wakeups
   \<and> f Dequeue_successes_after_wait + (if waited then 1 else 0) \<le> f Dequeue_wait_returns
   \<and> f Dequeue_inferred_contended \<le> f Dequeue_lock_attempts
   \<and> f Dequeue_lock_max_wait_ticks \<le> f Dequeue_lock_wait_ticks
   \<and> f Dequeue_wait_max_ticks \<le> f Dequeue_wait_ticks
   \<and> workers Worker_tasks f \<le> f Dequeue_immediate_successes + f Dequeue_successes_after_wait
   \<and> workers Worker_dequeue_wait_count f \<le> f Dequeue_wait_count
   \<and> workers Worker_dequeue_lock_ticks f \<le> f Dequeue_lock_wait_ticks
   \<and> workers Worker_dequeue_wait_ticks f \<le> f Dequeue_wait_ticks"

text \<open>The samples of the number of queued tasks: one for each success, none above the capacity.\<close>

definition occupancy_table :: "nat \<Rightarrow> (counter \<Rightarrow> nat) \<Rightarrow> bool" where
  "occupancy_table cap f \<longleftrightarrow>
     f Occupancy_max \<le> cap
   \<and> (f Occupancy_sample_count \<noteq> 0 \<longrightarrow> f Occupancy_min \<le> f Occupancy_max)
   \<and> f Occupancy_sample_count * f Occupancy_min \<le> f Occupancy_sample_sum
   \<and> f Occupancy_sample_sum \<le> f Occupancy_sample_count * f Occupancy_max
   \<and> f Occupancy_zero_observations \<le> f Occupancy_sample_count
   \<and> f Occupancy_full_observations \<le> f Occupancy_sample_count"

abbreviation enqueue_successes :: "(counter \<Rightarrow> nat) \<Rightarrow> nat" where
  "enqueue_successes f \<equiv> f Enqueue_immediate_successes + f Enqueue_successes_after_wait"

abbreviation dequeue_successes :: "(counter \<Rightarrow> nat) \<Rightarrow> nat" where
  "dequeue_successes f \<equiv> f Dequeue_immediate_successes + f Dequeue_successes_after_wait"

lemma sampled_table:
  assumes "occupancy_table cap f" "n \<le> cap"
  shows "occupancy_table cap (sampled n cap f)"
proof -
  let ?m = "f Occupancy_sample_count" and ?l = "f Occupancy_min" and ?h = "f Occupancy_max" and ?s = "f Occupancy_sample_sum"
  let ?l' = "if ?m = 0 \<or> n < ?l then n else ?l"
  have a: "?m * ?l \<le> ?s" "?s \<le> ?m * ?h" "?m \<noteq> 0 \<longrightarrow> ?l \<le> ?h" using assms(1) by (simp_all add: occupancy_table_def)
  have "?m * ?l' \<le> ?m * ?l" by (cases "?m = 0") simp_all
  moreover have "?l' \<le> n" by simp
  ultimately have low: "Suc ?m * ?l' \<le> ?s + n" using a(1) unfolding mult_Suc by linarith
  have "?m * ?h \<le> ?m * max ?h n" by simp
  then have high: "?s + n \<le> Suc ?m * max ?h n" using a(2) max.cobounded2 [of n ?h] unfolding mult_Suc by linarith
  show ?thesis using assms low high a(3) by (auto simp: occupancy_table_def sampled_def)
qed

text \<open>All of it, for a queue with \<open>k\<close> producers and \<open>l\<close> consumers in a wait.\<close>

definition books ::
  "bool \<times> bool \<times> bool \<times> nat \<Rightarrow> bool \<times> bool \<times> bool \<times> nat \<Rightarrow> nat \<Rightarrow> nat \<Rightarrow> nat \<Rightarrow> (counter \<Rightarrow> nat) \<Rightarrow> bool" where
  "books e d cap na nt f \<longleftrightarrow>
     (case e of (running, sleepy, waited, k) \<Rightarrow> enqueue_table running sleepy waited k f)
   \<and> (case d of (running, sleepy, waited, l) \<Rightarrow> dequeue_table running sleepy waited l f)
   \<and> occupancy_table cap f \<and> f Occupancy_sample_count = enqueue_successes f + dequeue_successes f
   \<and> enqueue_successes f \<le> na \<and> dequeue_successes f \<le> nt"

text \<open>Which table a counter belongs to, and that it leaves the other tables alone.\<close>

datatype table = Enqueue_side | Dequeue_side | Occupancy_side | No_side

fun side :: "counter \<Rightarrow> table" where
  "side Enqueue_attempts = Enqueue_side" | "side Enqueue_immediate_successes = Enqueue_side"
| "side Enqueue_lock_attempts = Enqueue_side" | "side Enqueue_lock_wait_ticks = Enqueue_side"
| "side Enqueue_lock_max_wait_ticks = Enqueue_side" | "side Enqueue_inferred_contended = Enqueue_side"
| "side Enqueue_wait_count = Enqueue_side" | "side Enqueue_wait_ticks = Enqueue_side"
| "side Enqueue_wait_max_ticks = Enqueue_side" | "side Enqueue_wait_returns = Enqueue_side"
| "side Enqueue_predicate_false_wakeups = Enqueue_side" | "side Enqueue_successes_after_wait = Enqueue_side"
| "side Queue_full_observations = Enqueue_side" | "side Not_empty_signals = Enqueue_side"
| "side Avoided_not_empty_signals = Enqueue_side" | "side Shutdown_broadcasts = No_side"
| "side Occupancy_sample_count = Occupancy_side" | "side Occupancy_sample_sum = Occupancy_side"
| "side Occupancy_min = Occupancy_side" | "side Occupancy_max = Occupancy_side"
| "side Occupancy_zero_observations = Occupancy_side" | "side Occupancy_full_observations = Occupancy_side"
| "side c = Dequeue_side"

lemma table_frames:
  "side c \<noteq> Enqueue_side \<Longrightarrow> enqueue_table u s w k (f(c := v)) = enqueue_table u s w k f"
  "side c \<noteq> Dequeue_side \<Longrightarrow> dequeue_table u s w k (f(c := v)) = dequeue_table u s w k f"
  "side c \<noteq> Occupancy_side \<Longrightarrow> occupancy_table cap (f(c := v)) = occupancy_table cap f"
proof -
  have other: "x \<noteq> c" if "side x \<noteq> side c" for x using that by blast
  show "side c \<noteq> Enqueue_side \<Longrightarrow> enqueue_table u s w k (f(c := v)) = enqueue_table u s w k f"
    by (simp add: enqueue_table_def other)
  show "side c \<noteq> Dequeue_side \<Longrightarrow> dequeue_table u s w k (f(c := v)) = dequeue_table u s w k f"
    by (simp add: dequeue_table_def other)
  show "side c \<noteq> Occupancy_side \<Longrightarrow> occupancy_table cap (f(c := v)) = occupancy_table cap f"
    by (simp add: occupancy_table_def other)
qed

lemma sampled_frames [simp]:
  "enqueue_table u s w k (sampled n cap f) = enqueue_table u s w k f"
  "dequeue_table u s w k (sampled n cap f) = dequeue_table u s w k f"
  "side c \<noteq> Occupancy_side \<Longrightarrow> sampled n cap f c = f c"
  "sampled n cap f Occupancy_sample_count = Suc (f Occupancy_sample_count)"
  by (simp_all add: sampled_def table_frames) auto

lemma workers_sampled [simp]: "(\<And>j. side (c j) \<noteq> Occupancy_side) \<Longrightarrow> workers c (sampled n cap f) = workers c f"
  by (simp add: workers_def)

section \<open>The parts keep the balances\<close>

abbreviation quiet :: "nat \<Rightarrow> bool \<times> bool \<times> bool \<times> nat" where
  "quiet k \<equiv> (False, False, False, k)"

lemma enqueue_locked_books:
  assumes "unless_overflow (books (quiet k) d cap na nt) p"
  shows "unless_overflow (books (True, b, False, k) d cap na nt) (enqueue_locked t0 r p)"
  unfolding enqueue_locked_def Let_def case_prod_unfold
  apply (rule increment_if_rule)
  apply (simp only: contended_rule)
  apply (rule duration_rule)
   apply (rule increment_rule)
   apply (rule increment_rule)
   apply (simp only: now_rule)
   apply (rule unless_mono [OF assms])
   apply (auto simp: books_def table_frames enqueue_table_def)
  done

lemma enqueue_waits_books:
  assumes "unless_overflow (books (True, True, w, k) d cap na nt) p"
  shows "unless_overflow (books (quiet (Suc k)) d cap na nt) (snd (enqueue_waits r p))"
  unfolding enqueue_waits_def Let_def
  apply (simp only: now_rule)
  apply (rule increment_rule)
  apply (rule increment_rule)
  apply (rule unless_mono [OF assms])
  apply (auto simp: books_def table_frames enqueue_table_def split: if_splits)
  done

lemma enqueue_woke_books:
  assumes "unless_overflow (books (quiet (Suc k)) d cap na nt) p"
    and "b = (\<not> shutdown_requested impl \<and> task_queue_is_full (Some (queue cq)))"
  shows "unless_overflow (books (True, b, True, k) d cap na nt) (enqueue_woke t0 r cq impl p)"
  unfolding enqueue_woke_def Let_def case_prod_unfold assms(2) [symmetric]
  apply (rule increment_if_rule)
  apply (rule duration_rule)
   apply (rule increment_rule)
   apply (simp only: now_rule)
   apply (rule unless_mono [OF assms(1)])
   apply (auto simp: books_def table_frames enqueue_table_def)
  done

lemma enqueue_done_books:
  assumes "unless_overflow (books (True, b, w, k) d (unat (capacity q)) na nt) p" "unat (qsize q) \<le> unat (capacity q)"
  shows "unless_overflow (books (quiet k) d (unat (capacity q)) (Suc na) nt)
    (enqueue_signalled ts True e impl (enqueue_stored w q p))"
proof -
  note tab = sampled_table [OF _ assms(2)]
  have "unless_overflow (\<lambda>f. books (quiet k) d (unat (capacity q)) (Suc na) nt (f(Not_empty_signals := Suc (f Not_empty_signals)))
      \<and> books (quiet k) d (unat (capacity q)) (Suc na) nt (f(Avoided_not_empty_signals := Suc (f Avoided_not_empty_signals))))
      (enqueue_stored w q p)"
    unfolding enqueue_stored_def
  proof (rule occupancy_rule, cases w, simp_all only: if_True if_False, goal_cases)
    case 1
    show ?case by (rule increment_rule, rule unless_mono [OF assms(1)])
      (use 1 in \<open>auto simp: books_def table_frames tab enqueue_table_def split: if_splits\<close>)
  next
    case 2
    show ?case by (rule increment_rule, rule unless_mono [OF assms(1)])
      (use 2 in \<open>auto simp: books_def table_frames tab enqueue_table_def split: if_splits\<close>)
  qed
  then show ?thesis
    by (auto simp: enqueue_signalled_def intro!: increment_rule elim: unless_mono)
qed

lemma enqueue_refused_books:
  assumes "unless_overflow (books (True, b, w, k) d cap na nt) p"
  shows "unless_overflow (books (quiet k) d cap na nt) p"
  by (rule unless_mono [OF assms]) (auto simp: books_def enqueue_table_def split: if_splits)

lemma dequeue_locked_books:
  assumes "unless_overflow (books e (quiet k) cap na nt) p"
  shows "unless_overflow (books e (True, b, False, k) cap na nt) (dequeue_locked i t0 r p)"
  unfolding dequeue_locked_def Let_def case_prod_unfold
  apply (rule worker_elapsed_rule)
  apply (rule increment_if_rule)
  apply (simp only: contended_rule)
  apply (rule duration_rule)
   apply (rule increment_rule)
   apply (rule increment_rule)
   apply (simp only: now_rule)
   apply (rule unless_mono [OF assms])
   apply (auto simp: books_def table_frames dequeue_table_def)
  done

lemma dequeue_waits_books:
  assumes "unless_overflow (books e (True, True, w, k) cap na nt) p"
  shows "unless_overflow (books e (quiet (Suc k)) cap na nt) (snd (dequeue_waits i r p))"
  unfolding dequeue_waits_def Let_def
  apply (simp only: now_rule)
  apply (rule worker_add_rule)
  apply (rule increment_rule)
  apply (rule increment_rule)
  apply (rule unless_mono [OF assms])
  apply (auto simp: books_def table_frames dequeue_table_def split: if_splits)
  done

lemma dequeue_woke_books:
  assumes "unless_overflow (books e (quiet (Suc k)) cap na nt) p"
    and "b = (\<not> shutdown_requested impl \<and> task_queue_is_empty (Some (queue cq)))"
  shows "unless_overflow (books e (True, b, True, k) cap na nt) (dequeue_woke i t0 r cq impl p)"
  unfolding dequeue_woke_def Let_def case_prod_unfold assms(2) [symmetric]
  apply (rule increment_if_rule)
  apply (rule worker_elapsed_rule)
  apply (rule duration_rule)
   apply (rule increment_rule)
   apply (simp only: now_rule)
   apply (rule unless_mono [OF assms(1)])
   apply (auto simp: books_def table_frames dequeue_table_def)
  done

lemma dequeue_done_books:
  assumes "unless_overflow (books e (True, b, w, k) (unat (capacity q)) na nt) p" "unat (qsize q) \<le> unat (capacity q)"
  shows "unless_overflow (books e (quiet k) (unat (capacity q)) na (Suc nt))
    (dequeue_signalled ts True full impl (dequeue_handed i w q p))"
proof -
  note tab = sampled_table [OF _ assms(2)]
  have "unless_overflow (\<lambda>f. books e (quiet k) (unat (capacity q)) na (Suc nt) (f(Not_full_signals := Suc (f Not_full_signals)))
      \<and> books e (quiet k) (unat (capacity q)) na (Suc nt) (f(Avoided_not_full_signals := Suc (f Avoided_not_full_signals))))
      (dequeue_handed i w q p)"
    unfolding dequeue_handed_def Let_def
  proof (rule occupancy_rule, rule worker_add_rule, cases w, simp_all only: if_True if_False, goal_cases)
    case 1
    show ?case by (rule increment_rule, rule unless_mono [OF assms(1)])
      (use 1 in \<open>auto simp: books_def table_frames tab dequeue_table_def split: if_splits\<close>)
  next
    case 2
    show ?case by (rule increment_rule, rule unless_mono [OF assms(1)])
      (use 2 in \<open>auto simp: books_def table_frames tab dequeue_table_def split: if_splits\<close>)
  qed
  then show ?thesis
    by (auto simp: dequeue_signalled_def intro!: increment_rule elim: unless_mono)
qed

lemma dequeue_refused_books:
  assumes "unless_overflow (books e (True, b, w, k) cap na nt) p"
  shows "unless_overflow (books e (quiet k) cap na nt) p"
  by (rule unless_mono [OF assms]) (auto simp: books_def dequeue_table_def split: if_splits)

lemma failed_wait_books:
  "unless_overflow (books (quiet (Suc k)) d cap na nt) p \<Longrightarrow> unless_overflow (books (quiet k) d cap na nt) p"
  "unless_overflow (books e (quiet (Suc k)) cap na nt) p \<Longrightarrow> unless_overflow (books e (quiet k) cap na nt) p"
  by (erule unless_mono, auto simp: books_def enqueue_table_def dequeue_table_def)+

lemma shutdown_books:
  "unless_overflow (books e d cap na nt) p \<Longrightarrow> unless_overflow (books e d cap na nt) (profiling_add Shutdown_broadcasts 2 p)"
  by (rule add_rule, erule unless_mono) (auto simp: books_def table_frames)

lemma books_more:
  "unless_overflow (books e d cap na nt) p \<Longrightarrow> na \<le> na' \<Longrightarrow> nt \<le> nt' \<Longrightarrow> unless_overflow (books e d cap na' nt') p"
  by (erule unless_mono) (auto simp: books_def)

lemma zero_books: "unless_overflow (books (quiet 0) (quiet 0) cap 0 0) (zero_profile\<lparr>timer_frequency := v\<rparr>)"
  by (simp add: unless_overflow_def books_def enqueue_table_def dequeue_table_def occupancy_table_def workers_def)

section \<open>The parts on a queue in order\<close>

text \<open>
  What a call does once it has the mutex (and, having waited, its wait has ended), in terms of
  the contract: it is refused, waits, or moves a pointer.
\<close>

lemma enqueue_rest_books:
  fixes ts :: bool and t :: addr and r :: reading
  assumes ok: "cq_ok cq w" "implementation cq = Some impl"
    and b: "unless_overflow (books (True, \<not> closed (cq_view cq) \<and> length (elems (cq_view cq)) = bound (cq_view cq), waited, k)
      d (bound (cq_view cq)) na nt) p"
  defines "out \<equiv> snd (enqueue_rest ts cq impl t waited r p)"
  shows "closed (cq_view cq) \<Longrightarrow> unless_overflow (books (quiet k) d (bound (cq_view cq)) na nt) out"
    "\<not> closed (cq_view cq) \<Longrightarrow> length (elems (cq_view cq)) = bound (cq_view cq)
       \<Longrightarrow> unless_overflow (books (quiet (Suc k)) d (bound (cq_view cq)) na nt) out"
    "\<not> closed (cq_view cq) \<Longrightarrow> length (elems (cq_view cq)) \<noteq> bound (cq_view cq)
       \<Longrightarrow> unless_overflow (books (quiet k) d (bound (cq_view cq)) (Suc na) nt) out"
proof -
  have shut: "shutdown_requested impl = closed (cq_view cq)" using ok(2) by (simp add: cq_view_def)
  note full = is_full_view [OF ok(1)]
  show "unless_overflow (books (quiet k) d (bound (cq_view cq)) na nt) out" if "closed (cq_view cq)"
    using that enqueue_refused_books [OF b] shut
    by (simp add: out_def enqueue_rest_def enqueue_body_def enqueue_signalled_def)
  show "unless_overflow (books (quiet (Suc k)) d (bound (cq_view cq)) na nt) out"
    if "\<not> closed (cq_view cq)" "length (elems (cq_view cq)) = bound (cq_view cq)"
    using that enqueue_waits_books [of waited k d "bound (cq_view cq)" na nt p r] b shut full
    by (simp add: out_def enqueue_rest_def)
  show "unless_overflow (books (quiet k) d (bound (cq_view cq)) (Suc na) nt) out"
    if room: "\<not> closed (cq_view cq)" "length (elems (cq_view cq)) \<noteq> bound (cq_view cq)"
  proof -
    obtain cq' where cq': "enqueue_body CONCURRENT_TASK_QUEUE_ERROR_SYSTEM cq impl t
        = (CONCURRENT_TASK_QUEUE_OK, True, elems (cq_view cq) = [], cq')" "retains cq cq' w"
      using insert_body [OF ok room, of CONCURRENT_TASK_QUEUE_ERROR_SYSTEM t ts] by metis
    have cap: "bound (cq_view cq) = unat (capacity (queue cq'))" using cq'(2) by (simp add: retains_def cq_view_def)
    have size: "unat (qsize (queue cq')) \<le> unat (capacity (queue cq'))"
      using cq'(2) by (auto simp: retains_def cq_ok_def word_le_nat_alt [symmetric] split: option.splits)
    have "out = enqueue_signalled ts True (elems (cq_view cq) = []) impl (enqueue_stored waited (queue cq') p)"
      using room shut full cq'(1) by (simp add: out_def enqueue_rest_def)
    with enqueue_done_books [OF b [unfolded cap] size] show ?thesis by (simp add: cap)
  qed
qed

lemma dequeue_rest_books:
  fixes ts :: bool and i :: size_t and r :: reading
  assumes ok: "cq_ok cq w" "implementation cq = Some impl"
    and b: "unless_overflow (books e (True, \<not> closed (cq_view cq) \<and> elems (cq_view cq) = [], waited, k)
      (bound (cq_view cq)) na nt) p"
  defines "out \<equiv> snd (dequeue_rest ts cq impl i waited r p)"
  shows "elems (cq_view cq) = [] \<Longrightarrow> closed (cq_view cq) \<Longrightarrow> unless_overflow (books e (quiet k) (bound (cq_view cq)) na nt) out"
    "elems (cq_view cq) = [] \<Longrightarrow> \<not> closed (cq_view cq)
       \<Longrightarrow> unless_overflow (books e (quiet (Suc k)) (bound (cq_view cq)) na nt) out"
    "elems (cq_view cq) \<noteq> [] \<Longrightarrow> unless_overflow (books e (quiet k) (bound (cq_view cq)) na (Suc nt)) out"
proof -
  have shut: "shutdown_requested impl = closed (cq_view cq)" using ok(2) by (simp add: cq_view_def)
  note none = is_empty_view [OF ok(1)]
  show "unless_overflow (books e (quiet k) (bound (cq_view cq)) na nt) out" if "elems (cq_view cq) = []" "closed (cq_view cq)"
    using that dequeue_refused_books [OF b] shut none
    by (simp add: out_def dequeue_rest_def dequeue_body_def dequeue_signalled_def)
  show "unless_overflow (books e (quiet (Suc k)) (bound (cq_view cq)) na nt) out"
    if "elems (cq_view cq) = []" "\<not> closed (cq_view cq)"
    using that dequeue_waits_books [of e waited k "bound (cq_view cq)" na nt p i r] b shut none
    by (simp add: out_def dequeue_rest_def)
  show "unless_overflow (books e (quiet k) (bound (cq_view cq)) na (Suc nt)) out" if some: "elems (cq_view cq) \<noteq> []"
  proof -
    obtain cq' where cq': "dequeue_body CONCURRENT_TASK_QUEUE_ERROR_SHUTDOWN cq
        = (CONCURRENT_TASK_QUEUE_OK, Some (hd (elems (cq_view cq))), length (elems (cq_view cq)) = bound (cq_view cq), cq')"
      "retains cq cq' w"
      using remove_body [OF ok(1) some, of CONCURRENT_TASK_QUEUE_ERROR_SHUTDOWN ts] by metis
    have cap: "bound (cq_view cq) = unat (capacity (queue cq'))" using cq'(2) by (simp add: retains_def cq_view_def)
    have size: "unat (qsize (queue cq')) \<le> unat (capacity (queue cq'))"
      using cq'(2) by (auto simp: retains_def cq_ok_def word_le_nat_alt [symmetric] split: option.splits)
    have "out = dequeue_signalled ts True (length (elems (cq_view cq)) = bound (cq_view cq)) impl (dequeue_handed i waited (queue cq') p)"
      using some shut none cq'(1) by (simp add: out_def dequeue_rest_def)
    with dequeue_done_books [OF b [unfolded cap] size] show ?thesis by (simp add: cap)
  qed
qed

end
