(* ===== verification/Profiled_System.thy ===== *)
theory Profiled_System
  imports Profile_Counters Queue_System Scheduler
begin

text \<open>
  Threads that share one synchronized queue of the profiling build: that the profile changes
  nothing of what the calls do, and what its counters say in every interleaving.
\<close>

section \<open>The copy of a stopped scheduler\<close>

definition scheduler_profiling_snapshot ::
  "Scheduler option \<Rightarrow> bool \<Rightarrow> SchedulerProfilingSnapshot
     \<Rightarrow> (bool \<times> SchedulerProfilingSnapshot option \<times> SchedulerProfilingSnapshot) native" where
  "scheduler_profiling_snapshot scheduler out p = (case Option.bind scheduler sched_impl of
      None \<Rightarrow> ret (False, None, p)
    | Some impl \<Rightarrow>
      if \<not> out \<or> sched_state impl \<noteq> SCHEDULER_STATE_STOPPED then ret (False, None, p)
      else concurrent_task_queue_profiling_snapshot (Some (task_queue impl)) (worker_count impl) True p)"

section \<open>Threads on a profiled queue\<close>

text \<open>
  The system of threads with the profile, the start of the wait of each thread (a local variable
  of its call) and its worker index (a thread-local variable, out of range until it is set).
\<close>

record psys =
  base :: sys
  prof :: SchedulerProfilingSnapshot
  starts :: "u64 list"
  indices :: "size_t list"

datatype paction = Call action "reading \<times> reading \<times> reading" | Set_worker_index nat size_t

definition enter ::
  "nat \<Rightarrow> sys option \<Rightarrow> u64 \<times> SchedulerProfilingSnapshot \<Rightarrow> psys \<Rightarrow> psys option" where
  "enter i next' rest ps = (case rest of (wait_start, p) \<Rightarrow>
     map_option (\<lambda>s. ps\<lparr>base := s, prof := p, starts := (starts ps)[i := wait_start]\<rparr>) next')"

definition profiled_enqueue_part ::
  "nat option \<Rightarrow> nat \<Rightarrow> addr
     \<Rightarrow> ((ConcurrentTaskQueueResult progress \<times> ConcurrentTaskQueue option) \<times> u64 \<times> SchedulerProfilingSnapshot) \<times> world
     \<Rightarrow> psys \<Rightarrow> psys option" where
  "profiled_enqueue_part choice i t outcome ps = (case outcome of ((x, rest), w) \<Rightarrow>
     enter i (enqueue_end choice i t (x, w) (base ps)) rest ps)"

definition profiled_dequeue_part ::
  "nat option \<Rightarrow> nat
     \<Rightarrow> (((ConcurrentTaskQueueResult \<times> task_ptr) progress \<times> ConcurrentTaskQueue option)
          \<times> u64 \<times> SchedulerProfilingSnapshot) \<times> world
     \<Rightarrow> psys \<Rightarrow> psys option" where
  "profiled_dequeue_part choice i outcome ps = (case outcome of ((x, rest), w) \<Rightarrow>
     enter i (dequeue_end choice i (x, w) (base ps)) rest ps)"

definition profiled_resume_enqueue ::
  "bool \<Rightarrow> bool \<Rightarrow> nat option \<Rightarrow> nat \<Rightarrow> addr \<Rightarrow> reading \<times> reading \<times> reading \<Rightarrow> psys \<Rightarrow> psys option" where
  "profiled_resume_enqueue ts ok choice i t rs ps = (let s = base ps in profiled_enqueue_part choice i t
     (run_state (profiled_enqueue_resume ts (cq s) (the (implementation (cq s))) t (starts ps ! i) rs (prof ps))
       ((wld s)\<lparr>fate := [ok]\<rparr>)) ps)"

definition profiled_resume_dequeue ::
  "bool \<Rightarrow> bool \<Rightarrow> nat option \<Rightarrow> nat \<Rightarrow> reading \<times> reading \<times> reading \<Rightarrow> psys \<Rightarrow> psys option" where
  "profiled_resume_dequeue ts ok choice i rs ps = (let s = base ps in profiled_dequeue_part choice i
     (run_state (profiled_dequeue_resume ts (cq s) (the (implementation (cq s))) (indices ps ! i) (starts ps ! i) rs (prof ps))
       ((wld s)\<lparr>fate := [ok]\<rparr>)) ps)"

definition concurrent_task_queue_profiling_set_worker_index :: "nat \<Rightarrow> size_t \<Rightarrow> psys \<Rightarrow> psys" where
  "concurrent_task_queue_profiling_set_worker_index i n ps = ps\<lparr>indices := (indices ps)[i := n]\<rparr>"

definition pstep :: "bool \<Rightarrow> paction \<Rightarrow> psys \<Rightarrow> psys option" where
  "pstep ts pa ps = (let s = base ps in case pa of
      Set_worker_index i n \<Rightarrow>
        if idle i (pcs s) then Some (concurrent_task_queue_profiling_set_worker_index i n ps) else None
    | Call a rs \<Rightarrow> (case a of
        Enqueue i t choice \<Rightarrow>
          if idle i (pcs s) then profiled_enqueue_part choice i t
            (run_state (profiled_enqueue_begin ts (Some (cq s)) (Some t) rs (prof ps)) (wld s)) ps
          else None
      | Dequeue i choice \<Rightarrow>
          if idle i (pcs s) then profiled_dequeue_part choice i
            (run_state (profiled_dequeue_begin ts (Some (cq s)) True (indices ps ! i) rs (prof ps)) (wld s)) ps
          else None
      | Shutdown i \<Rightarrow>
          if idle i (pcs s)
          then (case run_state (profiled_shutdown (Some (cq s)) (prof ps)) (wld s) of
              (((r, out), p), w) \<Rightarrow> map_option (\<lambda>s'. ps\<lparr>base := s', prof := p\<rparr>) (settle None i Idle out w s))
          else None
      | Resume i choice \<Rightarrow>
          if i < length (pcs s) then (case pcs s ! i of
              EnqNotified t \<Rightarrow> profiled_resume_enqueue ts True choice i t rs ps
            | DeqNotified \<Rightarrow> profiled_resume_dequeue ts True choice i rs ps
            | _ \<Rightarrow> None)
          else None
      | Fail i \<Rightarrow>
          if i < length (pcs s) then (case pcs s ! i of
              EnqAsleep t \<Rightarrow> profiled_resume_enqueue ts False None i t rs ps
            | DeqAsleep \<Rightarrow> profiled_resume_dequeue ts False None i rs ps
            | _ \<Rightarrow> None)
          else None
      | _ \<Rightarrow> map_option (\<lambda>s'. ps\<lparr>base := s'\<rparr>) (step ts a s)))"

definition start_psys :: "ConcurrentTaskQueue \<Rightarrow> world \<Rightarrow> nat \<Rightarrow> u64 \<Rightarrow> psys" where
  "start_psys c w n frequency = \<lparr>base = start_sys c w n, prof = zero_profile\<lparr>timer_frequency := frequency\<rparr>,
     starts = replicate n 0, indices = replicate n SCHEDULER_PROFILING_MAX_WORKERS\<rparr>"

section \<open>The profile changes nothing else\<close>

lemma part_base:
  "map_option base (profiled_enqueue_part choice i t out ps) = enqueue_end choice i t (plain out) (base ps)"
  "map_option base (profiled_dequeue_part choice i out' ps) = dequeue_end choice i (plain out') (base ps)"
  by (simp_all add: profiled_enqueue_part_def profiled_dequeue_part_def enter_def plain_def option.map_comp o_def option.map_ident
      split: prod.splits)

lemma resume_base:
  "map_option base (profiled_resume_enqueue ts ok choice i t rs ps) = resume_enqueue ts ok choice i t (base ps)"
  "map_option base (profiled_resume_dequeue ts ok choice i rs ps) = resume_dequeue ts ok choice i (base ps)"
  by (simp_all add: profiled_resume_enqueue_def profiled_resume_dequeue_def Let_def part_base enqueue_resume_plain
      dequeue_resume_plain resume_enqueue_def resume_dequeue_def)

lemma shutdown_base:
  "map_option base (case run_state (profiled_shutdown (Some c) p) w of
      (((r, out), p), w) \<Rightarrow> map_option (\<lambda>s'. ps\<lparr>base := s', prof := p\<rparr>) (settle None i Idle out w s))
    = (case run_state (concurrent_task_queue_shutdown (Some c)) w of ((r, out), w) \<Rightarrow> settle None i Idle out w s)"
  using shutdown_plain [of "Some c" p w]
  by (auto simp: plain_def option.map_comp o_def option.map_ident split: prod.splits)

lemma pstep_base: "map_option base (pstep ts (Call a rs) ps) = step ts a (base ps)"
proof (cases a)
  case (Shutdown i)
  then show ?thesis by (simp add: pstep_def step_def Let_def shutdown_base)
qed (simp_all add: pstep_def step_def Let_def part_base resume_base enqueue_begin_plain dequeue_begin_plain
    option.map_comp o_def option.map_ident split: pc.splits)

section \<open>The balances in every interleaving\<close>

text \<open>The balances for a queue in state \<open>A\<close> with \<open>na\<close> accepted and \<open>nt\<close> taken pointers.\<close>

definition balanced_for :: "abs_queue \<Rightarrow> nat \<Rightarrow> nat \<Rightarrow> SchedulerProfilingSnapshot \<Rightarrow> bool" where
  "balanced_for A na nt = unless_overflow (books (quiet (unat (producers A))) (quiet (unat (consumers A))) (bound A) na nt)"

lemma enqueue_rest_balanced:
  assumes ok: "cq_ok c w" "implementation c = Some impl"
    and b: "unless_overflow (books (True, \<not> closed (cq_view c) \<and> length (elems (cq_view c)) = bound (cq_view c), waited,
      unat (producers (cq_view c))) (quiet (unat (consumers (cq_view c)))) (bound (cq_view c)) na nt) p"
    and room: "unat (producers (cq_view c)) + 1 < 2 ^ 64" and spec: "spec_enqueue ts t (cq_view c) = (pr, ks, A')"
  shows "balanced_for A' (na + (if pr = Returned CONCURRENT_TASK_QUEUE_OK then 1 else 0)) nt
    (snd (enqueue_rest ts c impl t waited r p))"
  using enqueue_rest_books [OF ok b, of ts t r] spec unat_more [OF room]
  by (auto simp: spec_enqueue_def spec_insert_def balanced_for_def split: if_splits)

lemma dequeue_rest_balanced:
  assumes ok: "cq_ok c w" "implementation c = Some impl"
    and b: "unless_overflow (books (quiet (unat (producers (cq_view c)))) (True, \<not> closed (cq_view c) \<and> elems (cq_view c) = [], waited,
      unat (consumers (cq_view c))) (bound (cq_view c)) na nt) p"
    and room: "unat (consumers (cq_view c)) + 1 < 2 ^ 64" and spec: "spec_dequeue ts (cq_view c) = (pr, ks, A')"
  shows "balanced_for A' na (nt + (case pr of Returned (r, Some x) \<Rightarrow> 1 | _ \<Rightarrow> 0))
    (snd (dequeue_rest ts c impl i waited r p))"
  using dequeue_rest_books [OF ok b, of ts i r] spec unat_more [OF room]
  by (auto simp: spec_dequeue_def spec_remove_def balanced_for_def split: if_splits)

text \<open>What the end of a part leaves.\<close>

lemma enqueue_end_view:
  assumes "aenqueue_end choice i t (pr, ks, A) S = Some S'"
  shows "aq S' = A" "ataken S' = ataken S"
    "length (aaccepted S') = length (aaccepted S) + (if pr = Returned CONCURRENT_TASK_QUEUE_OK then 1 else 0)"
  using assms by (auto simp: aenqueue_end_def asettle_def split: progress.splits if_splits)

lemma dequeue_end_view:
  assumes "adequeue_end choice i (pr, ks, A) S = Some S'"
  shows "aq S' = A" "aaccepted S' = aaccepted S"
    "length (ataken S') = length (ataken S) + (case pr of Returned (r, Some x) \<Rightarrow> 1 | _ \<Rightarrow> 0)"
  using assms by (auto simp: adequeue_end_def asettle_def split: progress.splits prod.splits option.splits if_splits)

lemma part_prof:
  "profiled_enqueue_part choice i t (beside out rest) ps = Some ps' \<Longrightarrow> prof ps' = snd rest"
  "profiled_dequeue_part choice i (beside out' rest) ps = Some ps' \<Longrightarrow> prof ps' = snd rest"
  by (auto simp: profiled_enqueue_part_def profiled_dequeue_part_def enter_def beside_def split: prod.splits)

text \<open>The numbers of waiting threads are far from wrapping.\<close>

lemma room_for_one:
  assumes "sys_inv s" "idle i (pcs s)"
  shows "unat (producers (cq_view (cq s))) + 1 < 2 ^ 64" "unat (consumers (cq_view (cq s))) + 1 < 2 ^ 64"
  using assms num_waiting_less [of i "pcs s"] by (auto simp: sys_inv_def ainv_def sys_view_def)

lemma one_leaves:
  assumes "sys_inv s" "i < length (pcs s)"
  shows "enq_asleep (pcs s ! i) \<or> enq_notified (pcs s ! i)
      \<Longrightarrow> unat (producers (cq_view (cq s))) = Suc (unat (producers (cq_view (cq s)) - 1))"
    "deq_asleep (pcs s ! i) \<or> deq_notified (pcs s ! i)
      \<Longrightarrow> unat (consumers (cq_view (cq s))) = Suc (unat (consumers (cq_view (cq s)) - 1))"
proof -
  let ?A = "cq_view (cq s)"
  have n: "unat (producers ?A) = num enq_asleep (pcs s) + num enq_notified (pcs s)"
    "unat (consumers ?A) = num deq_asleep (pcs s) + num deq_notified (pcs s)"
    using assms(1) by (simp_all add: sys_inv_def ainv_def sys_view_def)
  show "unat (producers ?A) = Suc (unat (producers ?A - 1))" if "enq_asleep (pcs s ! i) \<or> enq_notified (pcs s ! i)"
    using that n(1) num_pos [OF assms(2), of enq_asleep] num_pos [OF assms(2), of enq_notified] unat_less [of "producers ?A"] by auto
  show "unat (consumers ?A) = Suc (unat (consumers ?A - 1))" if "deq_asleep (pcs s ! i) \<or> deq_notified (pcs s ! i)"
    using that n(2) num_pos [OF assms(2), of deq_asleep] num_pos [OF assms(2), of deq_notified] unat_less [of "consumers ?A"] by auto
qed

definition pinv :: "psys \<Rightarrow> bool" where
  "pinv ps \<longleftrightarrow> sys_inv (base ps)
     \<and> balanced_for (cq_view (cq (base ps))) (length (accepted (base ps))) (length (taken (base ps))) (prof ps)"

text \<open>A thread that begins a call.\<close>

lemma enqueue_begin_balanced:
  assumes inv: "pinv ps" "idle i (pcs (base ps))"
    and step: "profiled_enqueue_part choice i t
      (run_state (profiled_enqueue_begin ts (Some (cq (base ps))) (Some t) rs (prof ps)) (wld (base ps))) ps = Some ps'"
    and view: "aenqueue_end choice i t (spec_enqueue ts t (cq_view (cq (base ps)))) (sys_view (base ps)) = Some (sys_view (base ps'))"
  shows "balanced_for (cq_view (cq (base ps'))) (length (accepted (base ps'))) (length (taken (base ps'))) (prof ps')"
proof -
  let ?c = "cq (base ps)"
  obtain r0 r1 r2 where rs: "rs = (r0, r1, r2)" by (cases rs)
  have ok: "cq_ok ?c (wld (base ps))" using inv(1) by (simp add: pinv_def sys_inv_def sys_ok_def)
  obtain impl where impl: "implementation ?c = Some impl" using ok by (auto elim: cq_okE)
  obtain pr ks A' where spec: "spec_enqueue ts t (cq_view ?c) = (pr, ks, A')" by (metis prod_cases3)
  let ?sl = "\<not> closed (cq_view ?c) \<and> length (elems (cq_view ?c)) = bound (cq_view ?c)"
  let ?p = "case profiling_now r0 (prof ps) of (t0, p) \<Rightarrow> enqueue_locked t0 r1 p"
  have "unless_overflow (books (True, ?sl, False, unat (producers (cq_view ?c))) (quiet (unat (consumers (cq_view ?c))))
      (bound (cq_view ?c)) (length (accepted (base ps))) (length (taken (base ps)))) ?p"
    unfolding case_prod_unfold by (rule enqueue_locked_books) (use inv(1) in \<open>simp add: pinv_def balanced_for_def\<close>)
  from enqueue_rest_balanced [OF ok impl this room_for_one(1) [OF _ inv(2)] spec, of r2] inv(1)
    part_prof(1) [OF step [unfolded rs enqueue_begin_rest [OF ok impl]]] enqueue_end_view [OF view [unfolded spec]]
  show ?thesis by (simp add: pinv_def sys_view_def)
qed

lemma dequeue_begin_balanced:
  assumes inv: "pinv ps" "idle i (pcs (base ps))"
    and step: "profiled_dequeue_part choice i
      (run_state (profiled_dequeue_begin ts (Some (cq (base ps))) True j rs (prof ps)) (wld (base ps))) ps = Some ps'"
    and view: "adequeue_end choice i (spec_dequeue ts (cq_view (cq (base ps)))) (sys_view (base ps)) = Some (sys_view (base ps'))"
  shows "balanced_for (cq_view (cq (base ps'))) (length (accepted (base ps'))) (length (taken (base ps'))) (prof ps')"
proof -
  let ?c = "cq (base ps)"
  obtain r0 r1 r2 where rs: "rs = (r0, r1, r2)" by (cases rs)
  have ok: "cq_ok ?c (wld (base ps))" using inv(1) by (simp add: pinv_def sys_inv_def sys_ok_def)
  obtain impl where impl: "implementation ?c = Some impl" using ok by (auto elim: cq_okE)
  obtain pr ks A' where spec: "spec_dequeue ts (cq_view ?c) = (pr, ks, A')" by (metis prod_cases3)
  let ?p = "case profiling_now r0 (prof ps) of (t0, p) \<Rightarrow> dequeue_locked j t0 r1 p"
  have "unless_overflow (books (quiet (unat (producers (cq_view ?c)))) (True, \<not> closed (cq_view ?c) \<and> elems (cq_view ?c) = [],
      False, unat (consumers (cq_view ?c))) (bound (cq_view ?c)) (length (accepted (base ps))) (length (taken (base ps)))) ?p"
    unfolding case_prod_unfold by (rule dequeue_locked_books) (use inv(1) in \<open>simp add: pinv_def balanced_for_def\<close>)
  from dequeue_rest_balanced [OF ok impl this room_for_one(2) [OF _ inv(2)] spec, of j r2] inv(1)
    part_prof(2) [OF step [unfolded rs dequeue_begin_rest [OF ok impl]]] dequeue_end_view [OF view [unfolded spec]]
  show ?thesis by (simp add: pinv_def sys_view_def)
qed

text \<open>A thread whose wait has ended, or failed.\<close>

lemma enqueue_resume_balanced:
  assumes inv: "pinv ps" "i < length (pcs (base ps))" "enq_asleep (pcs (base ps) ! i) \<or> enq_notified (pcs (base ps) ! i)"
    and step: "profiled_resume_enqueue ts ok choice i t rs ps = Some ps'"
    and view: "aenqueue_end choice i t (spec_enqueue_resume ok ts t (cq_view (cq (base ps)))) (sys_view (base ps)) = Some (sys_view (base ps'))"
  shows "balanced_for (cq_view (cq (base ps'))) (length (accepted (base ps'))) (length (taken (base ps'))) (prof ps')"
proof -
  let ?c = "cq (base ps)" and ?w = "(wld (base ps))\<lparr>fate := [ok]\<rparr>"
  obtain r0 r1 r2 where rs: "rs = (r0, r1, r2)" by (cases rs)
  have sys: "sys_inv (base ps)" using inv(1) by (simp add: pinv_def)
  then have cok: "cq_ok ?c ?w" by (simp add: sys_inv_def sys_ok_def)
  obtain impl where impl: "implementation ?c = Some impl" using cok by (auto elim: cq_okE)
  let ?impl = "impl\<lparr>waiting_producers := waiting_producers impl - 1\<rparr>"
  let ?c' = "?c\<lparr>implementation := Some ?impl\<rparr>"
  note set = set_producers [OF cok impl, of "waiting_producers impl - 1"]
  have ok': "cq_ok ?c' ?w" "implementation ?c' = Some ?impl" using set(1) by (simp_all add: retains_def)
  have A: "cq_view ?c' = (cq_view ?c)\<lparr>producers := producers (cq_view ?c) - 1\<rparr>"
    using set(2) impl by (simp add: cq_view_def)
  note one = one_leaves(1) [OF sys inv(2,3)]
  have room: "unat (producers (cq_view ?c')) + 1 < 2 ^ 64" using one unat_le_max [of "producers (cq_view ?c)"] A by simp
  have bal: "unless_overflow (books (quiet (Suc (unat (producers (cq_view ?c'))))) (quiet (unat (consumers (cq_view ?c'))))
      (bound (cq_view ?c')) (length (accepted (base ps))) (length (taken (base ps)))) (prof ps)"
    using inv(1) one by (simp add: pinv_def balanced_for_def A)
  let ?sl = "\<not> closed (cq_view ?c') \<and> length (elems (cq_view ?c')) = bound (cq_view ?c')"
  have sl: "?sl = (\<not> shutdown_requested ?impl \<and> task_queue_is_full (Some (queue ?c')))"
    using is_full_view [OF ok'(1)] impl by (simp add: cq_view_def)
  have pr: "prof ps' = snd (if ok then enqueue_rest ts ?c' ?impl t True r2 (enqueue_woke (starts ps ! i) r1 ?c' ?impl (prof ps))
      else (0, prof ps))"
    using part_prof(1) [OF step [unfolded profiled_resume_enqueue_def Let_def rs impl option.sel enqueue_resume_rest [OF cok impl]]]
    by (simp add: next_answer_def)
  show ?thesis
  proof (cases ok)
    case True
    obtain q ks A' where spec: "spec_enqueue ts t (cq_view ?c') = (q, ks, A')" by (metis prod_cases3)
    from enqueue_rest_balanced [OF ok' enqueue_woke_books [OF bal sl] room spec, of r2] pr True
      enqueue_end_view [of choice i t q ks A' "sys_view (base ps)"] view spec A
    show ?thesis by (simp add: spec_enqueue_resume_def Let_def sys_view_def)
  next
    case False
    from failed_wait_books(1) [OF bal] pr False view A
      enqueue_end_view [of choice i t "Returned CONCURRENT_TASK_QUEUE_ERROR_SYSTEM" "[]" "cq_view ?c'" "sys_view (base ps)"]
    show ?thesis by (simp add: spec_enqueue_resume_def Let_def sys_view_def balanced_for_def)
  qed
qed

lemma dequeue_resume_balanced:
  assumes inv: "pinv ps" "i < length (pcs (base ps))" "deq_asleep (pcs (base ps) ! i) \<or> deq_notified (pcs (base ps) ! i)"
    and step: "profiled_resume_dequeue ts ok choice i rs ps = Some ps'"
    and view: "adequeue_end choice i (spec_dequeue_resume ok ts (cq_view (cq (base ps)))) (sys_view (base ps)) = Some (sys_view (base ps'))"
  shows "balanced_for (cq_view (cq (base ps'))) (length (accepted (base ps'))) (length (taken (base ps'))) (prof ps')"
proof -
  let ?c = "cq (base ps)" and ?w = "(wld (base ps))\<lparr>fate := [ok]\<rparr>" and ?j = "indices ps ! i"
  obtain r0 r1 r2 where rs: "rs = (r0, r1, r2)" by (cases rs)
  have sys: "sys_inv (base ps)" using inv(1) by (simp add: pinv_def)
  then have cok: "cq_ok ?c ?w" by (simp add: sys_inv_def sys_ok_def)
  obtain impl where impl: "implementation ?c = Some impl" using cok by (auto elim: cq_okE)
  let ?impl = "impl\<lparr>waiting_consumers := waiting_consumers impl - 1\<rparr>"
  let ?c' = "?c\<lparr>implementation := Some ?impl\<rparr>"
  note set = set_consumers [OF cok impl, of "waiting_consumers impl - 1"]
  have ok': "cq_ok ?c' ?w" "implementation ?c' = Some ?impl" using set(1) by (simp_all add: retains_def)
  have A: "cq_view ?c' = (cq_view ?c)\<lparr>consumers := consumers (cq_view ?c) - 1\<rparr>"
    using set(2) impl by (simp add: cq_view_def)
  note one = one_leaves(2) [OF sys inv(2,3)]
  have room: "unat (consumers (cq_view ?c')) + 1 < 2 ^ 64" using one unat_le_max [of "consumers (cq_view ?c)"] A by simp
  have bal: "unless_overflow (books (quiet (unat (producers (cq_view ?c')))) (quiet (Suc (unat (consumers (cq_view ?c')))))
      (bound (cq_view ?c')) (length (accepted (base ps))) (length (taken (base ps)))) (prof ps)"
    using inv(1) one by (simp add: pinv_def balanced_for_def A)
  let ?sl = "\<not> closed (cq_view ?c') \<and> elems (cq_view ?c') = []"
  have sl: "?sl = (\<not> shutdown_requested ?impl \<and> task_queue_is_empty (Some (queue ?c')))"
    using is_empty_view [OF ok'(1)] impl by (simp add: cq_view_def)
  have pr: "prof ps' = snd (if ok then dequeue_rest ts ?c' ?impl ?j True r2 (dequeue_woke ?j (starts ps ! i) r1 ?c' ?impl (prof ps))
      else (0, prof ps))"
    using part_prof(2) [OF step [unfolded profiled_resume_dequeue_def Let_def rs impl option.sel dequeue_resume_rest [OF cok impl]]]
    by (simp add: next_answer_def)
  show ?thesis
  proof (cases ok)
    case True
    obtain q ks A' where spec: "spec_dequeue ts (cq_view ?c') = (q, ks, A')" by (metis prod_cases3)
    from dequeue_rest_balanced [OF ok' dequeue_woke_books [OF bal sl] room spec, of ?j r2] pr True
      dequeue_end_view [of choice i q ks A' "sys_view (base ps)"] view spec A
    show ?thesis by (simp add: spec_dequeue_resume_def Let_def sys_view_def)
  next
    case False
    from failed_wait_books(2) [OF bal] pr False view A
      dequeue_end_view [of choice i "Returned (CONCURRENT_TASK_QUEUE_ERROR_SYSTEM, None)" "[]" "cq_view ?c'" "sys_view (base ps)"]
    show ?thesis by (simp add: spec_dequeue_resume_def Let_def sys_view_def balanced_for_def)
  qed
qed

text \<open>The calls the profile does not see, and a shutdown.\<close>

lemma try_balanced:
  assumes "balanced_for (aq S) (length (aaccepted S)) (length (ataken S)) p"
  shows "aenqueue_end choice i t (at_once (spec_try_enqueue ts t (aq S))) S = Some S'
      \<Longrightarrow> balanced_for (aq S') (length (aaccepted S')) (length (ataken S')) p"
    "adequeue_end choice i (at_once (spec_try_dequeue ts (aq S))) S = Some S'
      \<Longrightarrow> balanced_for (aq S') (length (aaccepted S')) (length (ataken S')) p"
proof -
  assume a: "aenqueue_end choice i t (at_once (spec_try_enqueue ts t (aq S))) S = Some S'"
  obtain r ks A where s: "spec_try_enqueue ts t (aq S) = (r, ks, A)" by (metis prod_cases3)
  have "producers A = producers (aq S)" "consumers A = consumers (aq S)" "bound A = bound (aq S)"
    using s by (auto simp: spec_try_enqueue_def spec_insert_def split: if_splits)
  with enqueue_end_view [OF a [unfolded s at_once_def prod.case]] books_more [OF assms [unfolded balanced_for_def]]
  show "balanced_for (aq S') (length (aaccepted S')) (length (ataken S')) p" by (simp add: balanced_for_def)
next
  assume a: "adequeue_end choice i (at_once (spec_try_dequeue ts (aq S))) S = Some S'"
  obtain r ks A where s: "spec_try_dequeue ts (aq S) = (r, ks, A)" by (metis prod_cases3)
  have "producers A = producers (aq S)" "consumers A = consumers (aq S)" "bound A = bound (aq S)"
    using s by (auto simp: spec_try_dequeue_def spec_remove_def split: if_splits)
  with dequeue_end_view [OF a [unfolded s at_once_def prod.case]] books_more [OF assms [unfolded balanced_for_def]]
  show "balanced_for (aq S') (length (aaccepted S')) (length (ataken S')) p" by (simp add: balanced_for_def)
qed

lemma pstep_shutdown:
  assumes "cq_ok (cq (base ps)) (wld (base ps))" "pstep ts (Call (Shutdown i) rs) ps = Some ps'"
  shows "prof ps' = profiling_add Shutdown_broadcasts 2 (prof ps)"
  using assms(2) by (auto simp: pstep_def Let_def shutdown_rest [OF assms(1)] beside_def split: if_splits prod.splits)

lemma pstep_balanced:
  assumes inv: "pinv ps" and step: "pstep ts (Call a rs) ps = Some ps'"
    and view: "astep ts a (sys_view (base ps)) = Some (sys_view (base ps'))"
  shows "balanced_for (cq_view (cq (base ps'))) (length (accepted (base ps'))) (length (taken (base ps'))) (prof ps')"
proof -
  have now: "balanced_for (aq (sys_view (base ps))) (length (aaccepted (sys_view (base ps)))) (length (ataken (sys_view (base ps)))) (prof ps)"
    using inv by (simp add: pinv_def sys_view_def)
  have view': "aq (sys_view s) = cq_view (cq s)" "apcs (sys_view s) = pcs s" "aaccepted (sys_view s) = accepted s"
    "ataken (sys_view s) = taken s" for s by (simp_all add: sys_view_def)
  note v = view [unfolded astep_def view'] and st = step [unfolded pstep_def Let_def]
  show ?thesis
  proof (cases a)
    case (Enqueue i t choice)
    then show ?thesis using enqueue_begin_balanced [OF inv, of i choice t ts rs ps'] v st by (auto split: if_splits)
  next
    case (Dequeue i choice)
    then show ?thesis using dequeue_begin_balanced [OF inv, of i choice ts "indices ps ! i" rs ps'] v st by (auto split: if_splits)
  next
    case (TryEnqueue i t choice)
    then have "prof ps' = prof ps" using st by auto
    then show ?thesis using TryEnqueue try_balanced(1) [OF now, of choice i t ts "sys_view (base ps')"] v
      by (simp add: view' split: if_splits)
  next
    case (TryDequeue i choice)
    then have "prof ps' = prof ps" using st by auto
    then show ?thesis using TryDequeue try_balanced(2) [OF now, of choice i ts "sys_view (base ps')"] v
      by (simp add: view' split: if_splits)
  next
    case (Shutdown i)
    have "cq_ok (cq (base ps)) (wld (base ps))" using inv by (simp add: pinv_def sys_inv_def sys_ok_def)
    note p = pstep_shutdown [OF this step [unfolded Shutdown]]
    have "cq_view (cq (base ps')) = (cq_view (cq (base ps)))\<lparr>closed := True\<rparr>"
      "accepted (base ps') = accepted (base ps)" "taken (base ps') = taken (base ps)"
      using v Shutdown by (auto simp: asettle_def sys_view_def split: if_splits)
    with shutdown_books [OF now [unfolded balanced_for_def]] p show ?thesis by (simp add: balanced_for_def view')
  next
    case (Resume i choice)
    then show ?thesis using v st enqueue_resume_balanced [OF inv, of i ts True choice _ rs ps']
        dequeue_resume_balanced [OF inv, of i ts True choice rs ps']
      by (auto split: if_splits pc.splits)
  next
    case (Spurious i)
    then have "prof ps' = prof ps" using st by auto
    then show ?thesis using Spurious v now by (auto simp: sys_view_def split: if_splits)
  next
    case (Fail i)
    then show ?thesis using v st enqueue_resume_balanced [OF inv, of i ts False None _ rs ps']
        dequeue_resume_balanced [OF inv, of i ts False None rs ps']
      by (auto split: if_splits pc.splits)
  qed
qed

interpretation profiled: invariant_system "pstep ts" pinv for ts
proof
  fix ps pa ps' assume inv: "pinv ps" and step: "pstep ts pa ps = Some ps'"
  show "pinv ps'"
  proof (cases pa)
    case (Call a rs)
    have base: "step ts a (base ps) = Some (base ps')"
      using pstep_base [of ts a rs ps] step Call by simp
    have sys: "sys_inv (base ps)" using inv by (simp add: pinv_def)
    have "sys_inv (base ps')" by (rule program.step_inv [OF sys base])
    moreover have "astep ts a (sys_view (base ps)) = Some (sys_view (base ps'))"
      using step_view [OF _ base] sys by (simp add: sys_inv_def)
    ultimately show ?thesis using pstep_balanced [OF inv step [unfolded Call]] by (simp add: pinv_def)
  next
    case (Set_worker_index i n)
    then show ?thesis using inv step
      by (auto simp: pstep_def Let_def pinv_def concurrent_task_queue_profiling_set_worker_index_def split: if_splits)
  qed
qed

lemma start_pinv:
  assumes "fresh_queue c w" "n < 2 ^ 64"
  shows "pinv (start_psys c w n frequency)"
proof -
  have z: "producers (cq_view c) = 0" "consumers (cq_view c) = 0" using assms(1) by (simp_all add: fresh_queue_def)
  have "base (start_psys c w n frequency) = start_sys c w n" by (simp add: start_psys_def)
  then show ?thesis using start_inv [OF assms] zero_books [of "bound (cq_view c)" frequency] z
    by (simp add: pinv_def balanced_for_def start_psys_def start_sys_def)
qed

lemma run_base:
  "map_option base (run_actions (pstep ts) (map (\<lambda>(a, rs). Call a rs) xs) ps) = run_actions (step ts) (map fst xs) (base ps)"
proof (induction xs arbitrary: ps)
  case (Cons x xs)
  obtain a rs where x: "x = (a, rs)" by (cases x)
  show ?case
  proof (cases "pstep ts (Call a rs) ps")
    case None
    then show ?thesis using pstep_base [of ts a rs ps] by (simp add: x split: option.splits)
  next
    case (Some ps')
    then have "step ts a (base ps) = Some (base ps')" using pstep_base [of ts a rs ps] by simp
    with Some show ?thesis using Cons.IH [of ps'] by (simp add: x)
  qed
qed simp

section \<open>A run to try things on\<close>

text \<open>Thread 1 is worker 0; thread 0 gets the lock after 84 ticks and inserts at once.\<close>

definition profile_actions :: "paction list" where
  "profile_actions = [Set_worker_index 1 0, Call (Enqueue 0 7 None) (Some 6, Some 90, None)]"

definition profile_start :: psys where
  "profile_start = start_psys empty_sample sample_world 2 10000000"

lemma profile_run:
  obtains ps where "run_actions (pstep True) profile_actions profile_start = Some ps" "accepted (base ps) = [7]"
    "prof ps = snd (enqueue_rest True empty_sample (the (implementation empty_sample)) 7 False None
      (enqueue_locked 6 (Some 90) (prof profile_start)))"
proof -
  define ps0 where "ps0 = concurrent_task_queue_profiling_set_worker_index 1 0 profile_start"
  have ps0: "base ps0 = start_sys empty_sample sample_world 2" "prof ps0 = prof profile_start"
    by (simp_all add: ps0_def concurrent_task_queue_profiling_set_worker_index_def profile_start_def start_psys_def)
  have idle: "idle i (pcs (base ps0))" if "i < 2" for i using that by (simp add: ps0 start_sys_def)
  have first: "pstep True (Set_worker_index 1 0) profile_start = Some ps0"
    by (simp add: pstep_def Let_def ps0_def profile_start_def start_psys_def start_sys_def)
  have "map_option accepted (step True (Enqueue 0 7 None) (start_sys empty_sample sample_world 2)) = Some [7]" by code_simp
  with pstep_base [of True "Enqueue 0 7 None" "(Some 6, Some 90, None)" ps0] ps0(1)
  obtain ps where ps: "pstep True (Call (Enqueue 0 7 None) (Some 6, Some 90, None)) ps0 = Some ps" "accepted (base ps) = [7]" by auto
  obtain impl where impl: "implementation empty_sample = Some impl" using empty_sample_ok by (auto elim: cq_okE)
  have c: "cq (base ps0) = empty_sample" "wld (base ps0) = sample_world\<lparr>wakes := []\<rparr>" by (simp_all add: ps0 start_sys_def)
  have "cq_ok empty_sample (sample_world\<lparr>wakes := []\<rparr>)" using empty_sample_ok by simp
  from ps(1) have "profiled_enqueue_part None 0 7
      (run_state (profiled_enqueue_begin True (Some empty_sample) (Some 7) (Some 6, Some 90, None) (prof ps0))
        (sample_world\<lparr>wakes := []\<rparr>)) ps0 = Some ps"
    using idle [of 0] by (simp add: pstep_def Let_def c)
  from part_prof(1) [OF this [unfolded enqueue_begin_rest [OF \<open>cq_ok empty_sample _\<close> impl]]]
  have "prof ps = snd (enqueue_rest True empty_sample (the (implementation empty_sample)) 7 False None
      (enqueue_locked 6 (Some 90) (prof profile_start)))"
    by (simp add: profiling_now_def ps0(2) impl)
  with ps first show thesis by (intro that [of ps]) (simp_all add: profile_actions_def)
qed

section \<open>Properties\<close>

text \<open>
  C20. Profiling changes nothing of what the queue does: for every sequence of calls, resumptions,
  wake-ups and failures of any threads, and whatever the performance counter answers, the build
  with profiling takes the same steps as the build without, to the same queue, the same threads
  and the same results.
\<close>

theorem profiling_transparent:
  "map_option base (run_actions (pstep ts) (map (\<lambda>(a, rs). Call a rs) xs) ps) = run_actions (step ts) (map fst xs) (base ps)"
  by (rule run_base)

text \<open>
  C21. The profile of a queue shared by any number of threads is consistent in every interleaving,
  unless it says that a counter overflowed: every attempt took the lock; the queue was seen full
  (empty) once per wait; every success made or avoided a signal, and gave one sample of the
  occupancy; returned and running waits are no more than the waits begun, and a call waits again
  only after a wake-up in vain; successes and callers in a wait are no more than the attempts, and
  no more than the pointers accepted (taken); no sample exceeds the capacity and the sum of the
  samples lies between the extremes; and what is attributed to single workers does not exceed the
  total.
\<close>

theorem profiling_balanced:
  assumes "fresh_queue c w" "n < 2 ^ 64" "run_actions (pstep ts) pas (start_psys c w n frequency) = Some ps"
    "\<not> counter_overflow (prof ps)"
  defines "f \<equiv> \<lambda>x. unat (cell (prof ps) x)"
  shows "f Enqueue_lock_attempts = f Enqueue_attempts \<and> f Dequeue_lock_attempts = f Dequeue_attempts
    \<and> f Queue_full_observations = f Enqueue_wait_count \<and> f Queue_empty_observations = f Dequeue_wait_count
    \<and> enqueue_successes f = f Not_empty_signals + f Avoided_not_empty_signals
    \<and> dequeue_successes f = f Not_full_signals + f Avoided_not_full_signals
    \<and> f Occupancy_sample_count = enqueue_successes f + dequeue_successes f
    \<and> f Enqueue_wait_returns + (num enq_asleep (pcs (base ps)) + num enq_notified (pcs (base ps))) \<le> f Enqueue_wait_count
    \<and> f Dequeue_wait_returns + (num deq_asleep (pcs (base ps)) + num deq_notified (pcs (base ps))) \<le> f Dequeue_wait_count
    \<and> f Enqueue_wait_count \<le> f Enqueue_attempts + f Enqueue_predicate_false_wakeups
    \<and> f Dequeue_wait_count \<le> f Dequeue_attempts + f Dequeue_predicate_false_wakeups
    \<and> enqueue_successes f + (num enq_asleep (pcs (base ps)) + num enq_notified (pcs (base ps))) \<le> f Enqueue_attempts
    \<and> dequeue_successes f + (num deq_asleep (pcs (base ps)) + num deq_notified (pcs (base ps))) \<le> f Dequeue_attempts
    \<and> enqueue_successes f \<le> length (accepted (base ps)) \<and> dequeue_successes f \<le> length (taken (base ps))
    \<and> f Occupancy_max \<le> unat (capacity (queue (cq (base ps))))
    \<and> f Occupancy_sample_count * f Occupancy_min \<le> f Occupancy_sample_sum
    \<and> f Occupancy_sample_sum \<le> f Occupancy_sample_count * f Occupancy_max
    \<and> (\<Sum>j<64. f (Worker_tasks j)) \<le> dequeue_successes f
    \<and> (\<Sum>j<64. f (Worker_dequeue_wait_ticks j)) \<le> f Dequeue_wait_ticks"
proof -
  have inv: "pinv ps" by (rule profiled.run_inv [OF start_pinv [OF assms(1,2)] assms(3)])
  have k: "unat (producers (cq_view (cq (base ps)))) = num enq_asleep (pcs (base ps)) + num enq_notified (pcs (base ps))"
    "unat (consumers (cq_view (cq (base ps)))) = num deq_asleep (pcs (base ps)) + num deq_notified (pcs (base ps))"
    "bound (cq_view (cq (base ps))) = unat (capacity (queue (cq (base ps))))"
    using inv by (simp_all add: pinv_def sys_inv_def ainv_def sys_view_def) (simp add: cq_view_def)
  have "books (quiet (num enq_asleep (pcs (base ps)) + num enq_notified (pcs (base ps))))
      (quiet (num deq_asleep (pcs (base ps)) + num deq_notified (pcs (base ps)))) (unat (capacity (queue (cq (base ps)))))
      (length (accepted (base ps))) (length (taken (base ps))) f"
    using inv assms(4) by (simp add: pinv_def balanced_for_def unless_overflow_def k f_def)
  then show ?thesis
    unfolding books_def prod.case enqueue_table_def dequeue_table_def occupancy_table_def workers_def if_False add_0_right
    by blast
qed

theorem profiling_balanced_witness:
  "\<exists>ps. run_actions (pstep True) profile_actions profile_start = Some ps
     \<and> cell (prof ps) Enqueue_lock_wait_ticks = 84 \<and> cell (prof ps) Enqueue_inferred_contended = 1
     \<and> unat (cell (prof ps) Occupancy_sample_count) = 1"
proof -
  have v: "(let p = snd (enqueue_rest True empty_sample (the (implementation empty_sample)) 7 False None
      (enqueue_locked 6 (Some 90) (prof profile_start))) in (counter_overflow p, cell p Enqueue_lock_wait_ticks,
      cell p Enqueue_inferred_contended, cell p Enqueue_immediate_successes, cell p Enqueue_successes_after_wait, cell p Dequeue_attempts))
    = (False, 84, 1, 1, 0, 0)" by code_simp
  obtain ps where ps: "run_actions (pstep True) profile_actions profile_start = Some ps" "accepted (base ps) = [7]"
    "prof ps = snd (enqueue_rest True empty_sample (the (implementation empty_sample)) 7 False None
      (enqueue_locked 6 (Some 90) (prof profile_start)))" by (rule profile_run)
  from v have "\<not> counter_overflow (prof ps)" by (simp add: ps(3) Let_def)
  from profiling_balanced [OF sample_fresh _ ps(1) [unfolded profile_start_def] this] v
  show ?thesis using ps(1) by (simp add: ps(3) Let_def)
qed
end
