(* ===== verification/Spec2Isabelle.thy ===== *)
theory Spec2Isabelle
  imports Queue_System Scheduler_Progress Live_Validation Validation_Format Profiled_System
begin

text \<open>
  A verification of the concurrent task scheduling engine: a bounded first-in first-out queue
  of task pointers, a synchronized wrapper around it, and a scheduler whose worker threads take
  tasks from the queue and call back for each of them.

  \<^descr>[The program] \<open>src/task.c\<close> is a passive task with a state machine.
  \<open>src/task_queue.c\<close> is a circular array of pointers. \<open>src/concurrent_task_queue.c\<close> puts a mutex
  and two condition variables around it and adds blocking calls, shutdown and transition
  signalling. \<open>src/scheduler.c\<close> owns such a queue, starts the workers, lets submitters pass a gate
  guarded by the lifecycle mutex, shuts the queue, waits for the submitters, joins the workers
  and adds up their counters. \<open>src/platform/windows/sync_windows.c\<close> is the thread and mutex layer
  below. \<open>src/scheduler_validation.c\<close> checks the snapshots the scheduler captures, and
  \<open>src/scheduler_fault_injection.c\<close> makes chosen calls fail in test builds.

  \<^descr>[Theories] \<open>Prelude\<close> has the list, word and run lemmas and the locales of a bounded queue, of
  an invariant of a system of steps, and of systems whose steps use up a measure and are never
  stuck. \<open>Native\<close> is the world below the program: a ledger of live blocks, initialized critical
  sections, held sections, thread handles and issued wake-ups, with a list of answers for the
  calls that may fail; a state monad over it, and weakest preconditions.

    \<^item> Data structures and primitives: \<open>Task\<close>, \<open>Task_Queue\<close>, \<open>Platform_Sync\<close> and
      \<open>Concurrent_Task_Queue\<close> model the files of the same name. \<open>Concurrent_Queue_Contract\<close> states
      the contract of the synchronized queue over a list and proves each call a refinement of it.

    \<^item> Threads on one queue: \<open>Queue_System\<close> runs any number of threads, with spurious wake-ups and
      failed waits, and proves first in first out, no lost wake-up, no deadlock, that shutdown sets
      everyone free, and that signalling on transitions is as good as always signalling.

    \<^item> Profiling: \<open>Queue_Profiling\<close> is the profiling build of the queue, \<open>Profile_Counters\<close> the
      rules and balances of its counters, \<open>Profiled_System\<close> its threads: profiling changes nothing
      of what the calls do, and the counters balance in every interleaving until one overflows.

    \<^item> Observation: \<open>Observability\<close> has the saturating counters and the snapshot,
      \<open>Snapshot_Validation\<close> the checks and the health, \<open>Validation_Format\<close> the text of a report with
      \<open>snprintf\<close>'s truncation, and \<open>Fault_Injection\<close> the fault plan.

    \<^item> Calls of the scheduler: \<open>Scheduler\<close> and \<open>Scheduler_Lifecycle\<close> model \<open>src/scheduler.c\<close>;
      \<open>Scheduler_Effects\<close> gives the effect of each of its parts, \<open>Scheduler_Custody\<close> and
      \<open>Scheduler_Release\<close> account for every block, section and handle, and \<open>Scheduler_Calls\<close> has
      the properties of single calls.

    \<^item> The scheduler at work: \<open>Scheduler_System\<close> is a transition system of any number of submitters,
      the workers and one controlling thread (the record \<open>net\<close>, the \<open>event\<close>s, \<open>net_step\<close>), whose
      steps are the parts of the calls between two points where the mutexes are free.
      \<open>Scheduler_Threads\<close> and \<open>Scheduler_Invariant\<close> state its invariant, one predicate per concern;
      \<open>Scheduler_Workers\<close>, \<open>Scheduler_Control\<close> and \<open>Scheduler_Joining\<close> prove that workers, start,
      shutdown and join keep it. \<open>Scheduler_Run\<close> has the reachable states and what holds in them:
      every submission is accounted for, every task is called back for once, resources are safe, a
      successful join means that all is done. \<open>Scheduler_Work\<close> is the work that is left and
      \<open>Scheduler_Progress\<close> the bound on the steps, the absence of deadlock, and that every call
      returns. \<open>Live_Validation\<close> says what a snapshot of the scheduler at work shows.

  \<^descr>[How code corresponds] A struct is a record, a null pointer is \<^term>\<open>None\<close>, \<open>size_t\<close> and
  \<open>uint64_t\<close> are 64-bit words, an enum is a datatype whose last constructor stands for a value
  outside of it. A function that can block is given in parts, cut where its mutex is free: up to
  its condition wait, and from the wait's return on. Loops over a list of workers are recursions
  over that list, or one step per round in the system of threads; a blocking loop is driven by the
  list of what other threads do in its sleeps, so no fuel is chosen.

  \<^descr>[Assumptions] Windows calls behave as documented: a critical section excludes other
  threads, entering and leaving one cannot fail, a condition wait may wake spuriously or fail,
  and a failed wait has consumed no wake-up. Fewer than \<open>2 ^ 64\<close> threads wait on one queue, and a
  run of the scheduler has fewer than \<open>2 ^ 64\<close> steps, so that no counter reaches its maximum. One
  controlling thread makes the lifecycle calls one after the other, as the header of the scheduler
  asks. Callbacks return: a callback is one step with any result. A snapshot is taken between two
  steps; that its loads can also meet a worker halfway is shown in \<open>Live_Validation\<close>.

  \<^descr>[What the model showed] Live validation can report a violation of a sound run: a task can be
  taken out and counted before its submitter has counted the acceptance, and a capture reads the
  counters of a worker in the order in which the worker writes them (\<open>Live_Validation\<close>).

  \<^descr>[Not modelled] The version string and the demo program, which only print, and the benchmarks,
  which measure. The relaxation of C atomics: every load and store of a worker's counters is one
  step of one memory.
\<close>

end
